(* ===== verification/Domain.thy ===== *)
theory Domain
  imports Prelude "HOL-Library.List_Lexorder"
begin

text \<open>
  The data of the verifier: the proof and its identifier (\<open>src/proof.rs\<close>), the record
  kept for every identifier (\<open>src/store/record.rs\<close>), the events of the store
  (\<open>src/store/event.rs\<close>) and the crate's error type (\<open>src/error.rs\<close>).
  Rust's field \<open>proof\<close> is \<open>proof_bytes\<close> in a proof and \<open>record_proof\<close> in a record, because
  \<open>proof\<close> is a keyword here.
\<close>

section \<open>Proofs and identifiers\<close>

datatype verification_id = VerificationId (as_bytes: bytes)

text \<open>The derived \<open>Ord\<close>: identifiers are ordered as their byte arrays.\<close>

instantiation verification_id :: linorder
begin

definition less_eq_verification_id :: "verification_id \<Rightarrow> verification_id \<Rightarrow> bool" where
  "less_eq_verification_id i j \<longleftrightarrow> as_bytes i \<le> as_bytes j"

definition less_verification_id :: "verification_id \<Rightarrow> verification_id \<Rightarrow> bool" where
  "less_verification_id i j \<longleftrightarrow> as_bytes i < as_bytes j"

instance
  by standard
     (auto simp: less_eq_verification_id_def less_verification_id_def intro: verification_id.expand)

end

datatype proof_type = MinaPickles | NoirBarretenberg

record zk_proof =
  proof_type :: proof_type
  proof_bytes :: bytes
  public_inputs :: bytes
  verification_key :: bytes

text \<open>
  The generated protobuf message of a proof (\<open>pulsar.verifier.v1.Proof\<close>): its enum field is
  the raw \<open>i32\<close> of the wire.
\<close>

record wire_proof =
  wire_proof_type :: int
  wire_proof_bytes :: bytes
  wire_public_inputs :: bytes
  wire_verification_key :: bytes

section \<open>Verification records\<close>

datatype verdict = Valid | Invalid

record verification_failure =
  failure_code :: string
  failure_message :: string
  failure_retryable :: bool

datatype verification_state =
    Queued
  | Verifying
  | Completed verdict
  | Failed verification_failure

text \<open>A libp2p peer identifier, an opaque byte string (\<open>PeerId::to_bytes\<close>).\<close>

type_synonym peer_id = bytes

datatype proof_source = Rpc | Peer peer_id

record proof_metadata =
  chain_observed_at :: "instant option"
  content_source :: "proof_source option"
  content_stored_at :: "instant option"
  verification :: "verification_state option"
  completed_at :: "instant option"

record proof_record =
  metadata :: proof_metadata
  record_proof :: "zk_proof option"

text \<open>
  A reference-counted allocation: \<open>arc_ptr\<close> is the identity that \<open>Arc::ptr_eq\<close>
  compares.
\<close>

datatype 'a arc = Arc (arc_ptr: nat) (arc_val: 'a)

record stored_proof =
  stored_id :: verification_id
  stored_record :: "proof_record arc"

record verification_job =
  job_id :: verification_id
  job_proof :: zk_proof
  job_claim :: "proof_record arc"

datatype verification_outcome = OutcomeCompleted verdict | OutcomeFailed verification_failure

datatype verification_status =
    StatusUnavailable
  | StatusQueued
  | StatusVerifying
  | StatusCompleted verdict
  | StatusFailed verification_failure

record stored_status =
  status_id :: verification_id
  status :: verification_status

record completed_verification =
  completed_id :: verification_id
  completed_verdict :: verdict

datatype store_change = ChangeInserted | ChangeUpdated | ChangeUnchanged

datatype eviction_cause = EvictExpired | EvictExplicit | EvictSize

datatype proof_store_event =
    VerificationObserved verification_id
  | ProofStored verification_id proof_source
  | VerificationChanged verification_id verification_state
  | ProofEvicted verification_id eviction_cause

section \<open>Errors\<close>

type_synonym path = string

datatype io_error_kind = NotFound | ConnectionRefused | InvalidData | InvalidInput | UnexpectedEof | OtherIo

record io_error =
  io_kind :: io_error_kind
  io_text :: string

datatype join_error = Cancelled | Panicked

datatype ip_addr = IpV4 "nat list" | IpV6 "nat list"

datatype socket_addr = SocketAddr (addr_ip: ip_addr) (addr_port: nat)

text \<open>
  Reasons of an invalid transition. Where the source prints a state with its \<open>Debug\<close>
  format, the reason keeps the state itself.
\<close>

datatype transition_reason =
    ClaimedWithoutProof
  | ExpectedVerifying "verification_state option"
  | RecordMissing
  | ExpectedRetryableFailed "verification_state option"

datatype (plugins only: code size) error =
    ConfigRead path io_error
  | ConfigParse path string
  | InvalidConfig string
  | AlreadyRunning path
  | NotRunning path
  | UnsafeSocketPath path string
  | ControlIo path io_error
  | ControlTimeout path
  | ControlProtocol string
  | ShutdownTimeout duration
  | Signal io_error
  | Task join_error
  | Telemetry string
  | P2pIdentity string
  | P2pAuthorization string
  | Chain string
  | InvalidSubmission string
  | TransactionTooLarge nat nat
  | CheckTxRejected string string nat string
  | TransactionHashMismatch
  | ChainIdMismatch string string
  | InvalidChainContract string
  | LocalValidatorRemoved peer_id
  | P2pProtocol string
  | P2pDriver string
  | P2pDraining
  | P2pDriverClosed
  | TaskExitedUnexpectedly string
  | InvalidVerificationId string
  | UnsupportedProofType int
  | ProofStoreError string
  | ProofTooLarge verification_id nat nat
  | VerificationIdMismatch verification_id
  | ProofNotObserved verification_id
  | InvalidVerificationTransition verification_id transition_reason
  | InvalidVerificationFailure string
  | DuplicateVerifier proof_type
  | NoirInitialization string
  | InvalidVerificationRequest string
  | RpcBind socket_addr io_error
  | RpcServerError string

type_synonym 'a res = "error + 'a"

section \<open>Code outside the repository\<close>

text \<open>
  The crates the sources call are parameters of the model, gathered in one record that the
  definitions take as an argument: \<open>sha2\<close> (\<open>Sha256::digest\<close>), \<open>prost\<close> (the length of a varint
  and of an encoded proof message) and \<open>hex\<close>.
\<close>

record externs =
  sha256 :: "bytes \<Rightarrow> bytes"
  encoded_len_varint :: "nat \<Rightarrow> nat"
  wire_proof_encoded_len :: "wire_proof \<Rightarrow> nat"
  hex_encode :: "bytes \<Rightarrow> string"

text \<open>
  What the model relies on, each a documented fact of those crates. A SHA-256 digest has 32
  bytes. A varint of a 64-bit value takes one byte per started group of seven bits, so between
  one and ten, one for values below 128, and no fewer for a larger value. A protobuf message
  omits a field that has its default value, and encodes a bytes field as tag, length and
  content.
\<close>

definition sha256_len :: "'x externs_scheme \<Rightarrow> bool" where
  "sha256_len X \<longleftrightarrow> (\<forall>m. length (sha256 X m) = 32)"

definition varint_len :: "'x externs_scheme \<Rightarrow> bool" where
  "varint_len X \<longleftrightarrow>
     (\<forall>n < 128. encoded_len_varint X n = 1) \<and>
     (\<forall>n. 1 \<le> encoded_len_varint X n \<and> encoded_len_varint X n \<le> 10) \<and>
     mono (encoded_len_varint X)"

definition wire_field_len :: "'x externs_scheme \<Rightarrow> bytes \<Rightarrow> nat" where
  "wire_field_len X b = (if b = [] then 0 else 1 + encoded_len_varint X (length b) + length b)"

definition wire_proof_len :: "'x externs_scheme \<Rightarrow> bool" where
  "wire_proof_len X \<longleftrightarrow>
     (\<forall>w. 0 \<le> wire_proof_type w \<longrightarrow> wire_proof_encoded_len X w =
        (if wire_proof_type w = 0 then 0 else 1 + encoded_len_varint X (nat (wire_proof_type w)))
        + wire_field_len X (wire_proof_bytes w)
        + wire_field_len X (wire_public_inputs w)
        + wire_field_len X (wire_verification_key w))"

lemma sha256_lenD [simp]: "sha256_len X \<Longrightarrow> length (sha256 X m) = 32"
  by (simp add: sha256_len_def)

lemma varint_lenD:
  assumes "varint_len X"
  shows varint_len_small: "n < 128 \<Longrightarrow> encoded_len_varint X n = 1"
    and varint_len_ge: "1 \<le> encoded_len_varint X n"
    and varint_len_le: "encoded_len_varint X n \<le> 10"
    and varint_len_mono: "m \<le> n \<Longrightarrow> encoded_len_varint X m \<le> encoded_len_varint X n"
  using assms by (auto simp: varint_len_def dest: monoD)

text \<open>
  A concrete choice of the parameters that meets these facts, used where a statement is
  applied to a closed input: the digest pads or cuts its input to 32 bytes after adding its
  length, the varint length is the one of protobuf.
\<close>

fun varint_octets :: "nat \<Rightarrow> nat \<Rightarrow> nat" where
  "varint_octets 0 n = 1"
| "varint_octets (Suc k) n = (if n < 128 then 1 else Suc (varint_octets k (n div 128)))"

definition demo_sha256 :: "bytes \<Rightarrow> bytes" where
  "demo_sha256 m = take 32 (of_nat (length m) # rev m @ replicate 32 0)"

definition demo_hex :: "bytes \<Rightarrow> string" where
  "demo_hex b = concat (map (\<lambda>w. [''0123456789abcdef'' ! (unat w div 16), ''0123456789abcdef'' ! (unat w mod 16)]) b)"

definition demo_varint :: "nat \<Rightarrow> nat" where
  "demo_varint n = varint_octets 9 n"

definition demo_field_len :: "bytes \<Rightarrow> nat" where
  "demo_field_len b = (if b = [] then 0 else 1 + demo_varint (length b) + length b)"

definition demo_wire_len :: "wire_proof \<Rightarrow> nat" where
  "demo_wire_len w =
     (if wire_proof_type w = 0 then 0 else 1 + demo_varint (nat (wire_proof_type w)))
     + demo_field_len (wire_proof_bytes w)
     + demo_field_len (wire_public_inputs w)
     + demo_field_len (wire_verification_key w)"

definition demo_externs :: externs where
  "demo_externs =
     \<lparr>sha256 = demo_sha256, encoded_len_varint = demo_varint,
      wire_proof_encoded_len = demo_wire_len, hex_encode = demo_hex\<rparr>"

lemma varint_octets_bounds: "1 \<le> varint_octets k n \<and> varint_octets k n \<le> Suc k"
  by (induction k n rule: varint_octets.induct) auto

lemma varint_octets_mono: "m \<le> n \<Longrightarrow> varint_octets k m \<le> varint_octets k n"
proof (induction k n arbitrary: m rule: varint_octets.induct)
  case (1 n)
  then show ?case by simp
next
  case (2 k n)
  have "m div 128 \<le> n div 128" using 2(2) by (rule div_le_mono)
  with 2 show ?case by (auto simp: varint_octets_bounds)
qed

lemma varint_octets_small: "n < 128 \<Longrightarrow> varint_octets k n = 1"
  by (cases k) simp_all

lemma demo_varint_small [simp]: "n < 128 \<Longrightarrow> demo_varint n = 1"
  by (simp add: demo_varint_def varint_octets_small)

lemma demo_externs_sel [simp]:
  "sha256 demo_externs = demo_sha256"
  "encoded_len_varint demo_externs = demo_varint"
  "wire_proof_encoded_len demo_externs = demo_wire_len"
  "hex_encode demo_externs = demo_hex"
  by (simp_all add: demo_externs_def)

lemma demo_externs_ok:
  "sha256_len demo_externs" "varint_len demo_externs" "wire_proof_len demo_externs"
proof -
  show "sha256_len demo_externs"
    by (auto simp: sha256_len_def demo_externs_def demo_sha256_def min_def)
  show "varint_len demo_externs"
    using varint_octets_bounds [of 9]
    by (simp add: varint_len_def demo_externs_def demo_varint_def varint_octets_small
        varint_octets_mono monoI)
  show "wire_proof_len demo_externs"
    by (simp add: wire_proof_len_def demo_externs_def demo_wire_len_def
        wire_field_len_def demo_field_len_def)
qed

end
