(* ===== verification/Std_Text.thy ===== *)
theory Std_Text
  imports Domain
begin

text \<open>
  The parts of Rust's standard library that the sources apply to text: trimming, splitting and
  truncating UTF-8 strings, parsing integers, and parsing socket addresses. A string is its UTF-8
  bytes, one \<open>char\<close> per byte.
\<close>

section \<open>UTF-8\<close>

text \<open>\<open>str::is_char_boundary\<close>: the ends, and every byte that does not continue a character.\<close>

definition is_char_boundary :: "string \<Rightarrow> nat \<Rightarrow> bool" where
  "is_char_boundary s i \<longleftrightarrow>
     i = 0 \<or> i = length s \<or>
     (i < length s \<and> \<not> (128 \<le> (of_char (s ! i) :: nat) \<and> (of_char (s ! i) :: nat) < 192))"

text \<open>
  The loop \<open>while !value.is_char_boundary(boundary) { boundary -= 1 }\<close> that two modules
  use before \<open>truncate\<close>.
\<close>

fun boundary_down :: "string \<Rightarrow> nat \<Rightarrow> nat" where
  "boundary_down s 0 = 0"
| "boundary_down s (Suc i) = (if is_char_boundary s (Suc i) then Suc i else boundary_down s i)"

lemma boundary_down_le: "boundary_down s i \<le> i"
  by (induction i) (auto simp: le_SucI)

lemma boundary_down_boundary: "is_char_boundary s (boundary_down s i)"
  by (induction i) (simp_all add: is_char_boundary_def)

lemma boundary_down_greatest:
  "\<lbrakk>boundary_down s i < j; j \<le> i\<rbrakk> \<Longrightarrow> \<not> is_char_boundary s j"
  by (induction i) (auto simp: le_Suc_eq split: if_splits)

text \<open>
  \<open>String::from_utf8\<close>. The check reads one character at a time; an error carries the index
  up to which the bytes are valid and the length of the bad sequence, which is missing when
  the input ends within a character.
\<close>

definition str_of :: "bytes \<Rightarrow> string" where
  "str_of b = map (\<lambda>w. char_of (unat w)) b"

definition utf8_cont :: "nat \<Rightarrow> bool" where
  "utf8_cont b \<longleftrightarrow> 128 \<le> b \<and> b \<le> 191"

definition utf8_second :: "nat \<Rightarrow> nat \<Rightarrow> bool" where
  "utf8_second a b \<longleftrightarrow>
     (if a = 224 then 160 \<le> b \<and> b \<le> 191
      else if a = 237 then 128 \<le> b \<and> b \<le> 159
      else if a = 240 then 144 \<le> b \<and> b \<le> 191
      else if a = 244 then 128 \<le> b \<and> b \<le> 143
      else utf8_cont b)"

text \<open>The length of the first character, or the length of the error.\<close>

definition utf8_char :: "nat list \<Rightarrow> nat option + nat" where
  "utf8_char s =
     (case s of
        [] \<Rightarrow> Inl None
      | a # s \<Rightarrow>
          if a < 128 then Inr 1
          else if a < 194 \<or> 244 < a then Inl (Some 1)
          else (case s of
              [] \<Rightarrow> Inl None
            | b # s \<Rightarrow>
                if \<not> utf8_second a b then Inl (Some 1)
                else if a < 224 then Inr 2
                else (case s of
                    [] \<Rightarrow> Inl None
                  | c # s \<Rightarrow>
                      if \<not> utf8_cont c then Inl (Some 2)
                      else if a < 240 then Inr 3
                      else (case s of
                          [] \<Rightarrow> Inl None
                        | d # s \<Rightarrow> if \<not> utf8_cont d then Inl (Some 3) else Inr 4))))"

fun utf8_check :: "nat \<Rightarrow> nat \<Rightarrow> nat list \<Rightarrow> (nat \<times> nat option) option" where
  "utf8_check 0 idx s = None"
| "utf8_check (Suc k) idx s =
     (if s = [] then None
      else case utf8_char s of
        Inl e \<Rightarrow> Some (idx, e)
      | Inr n \<Rightarrow> utf8_check k (idx + n) (drop n s))"

definition from_utf8 :: "bytes \<Rightarrow> string + string" where
  "from_utf8 b =
     (case utf8_check (length b) 0 (map unat b) of
        None \<Rightarrow> Inr (str_of b)
      | Some (idx, Some n) \<Rightarrow>
          Inl (''invalid utf-8 sequence of '' @ show_nat n @ '' bytes from index '' @ show_nat idx)
      | Some (idx, None) \<Rightarrow>
          Inl (''incomplete utf-8 byte sequence from index '' @ show_nat idx))"

text \<open>
  \<open>char::is_whitespace\<close> on the first character: the number of bytes of a leading white space
  character, 0 when there is none.
\<close>

definition ws_prefix :: "string \<Rightarrow> nat" where
  "ws_prefix s =
     (case map (of_char :: char \<Rightarrow> nat) (take 3 s) of
        [] \<Rightarrow> 0
      | a # r \<Rightarrow>
          if (9 \<le> a \<and> a \<le> 13) \<or> a = 32 then 1
          else (case r of [] \<Rightarrow> 0
            | b # r2 \<Rightarrow>
                if a = 194 \<and> (b = 133 \<or> b = 160) then 2
                else (case r2 of [] \<Rightarrow> 0
                  | c # _ \<Rightarrow>
                      if (a = 225 \<and> b = 154 \<and> c = 128)
                        \<or> (a = 226 \<and> b = 128 \<and> (128 \<le> c \<and> c \<le> 138 \<or> c = 168 \<or> c = 169 \<or> c = 175))
                        \<or> (a = 226 \<and> b = 129 \<and> c = 159)
                        \<or> (a = 227 \<and> b = 128 \<and> c = 128)
                      then 3 else 0)))"

fun trim_start :: "nat \<Rightarrow> string \<Rightarrow> string" where
  "trim_start 0 s = s"
| "trim_start (Suc k) s = (if ws_prefix s = 0 then s else trim_start k (drop (ws_prefix s) s))"

text \<open>The last white space character is the one whose bytes end the string.\<close>

definition ws_suffix :: "string \<Rightarrow> nat" where
  "ws_suffix s =
     (if 1 \<le> length s \<and> ws_prefix (drop (length s - 1) s) = 1 then 1
      else if 2 \<le> length s \<and> ws_prefix (drop (length s - 2) s) = 2 then 2
      else if 3 \<le> length s \<and> ws_prefix (drop (length s - 3) s) = 3 then 3
      else 0)"

fun trim_end :: "nat \<Rightarrow> string \<Rightarrow> string" where
  "trim_end 0 s = s"
| "trim_end (Suc k) s = (if ws_suffix s = 0 then s else trim_end k (take (length s - ws_suffix s) s))"

text \<open>\<open>str::trim\<close>; every turn of a loop removes a byte, so the length bounds the turns.\<close>

definition trim :: "string \<Rightarrow> string" where
  "trim s = (let t = trim_start (length s) s in trim_end (length t) t)"

lemma trim_start_done: "length s \<le> k \<Longrightarrow> ws_prefix (trim_start k s) = 0"
proof (induction k arbitrary: s)
  case 0
  then show ?case by (simp add: ws_prefix_def)
next
  case (Suc k)
  then show ?case by (auto intro!: Suc.IH)
qed

section \<open>Prefixes and separators\<close>

definition starts_with :: "string \<Rightarrow> string \<Rightarrow> bool" where
  "starts_with s pre \<longleftrightarrow> take (length pre) s = pre"

text \<open>\<open>str::split_once\<close>: at the first occurrence of the pattern.\<close>

fun split_once :: "string \<Rightarrow> string \<Rightarrow> (string \<times> string) option" where
  "split_once pat [] = (if pat = [] then Some ([], []) else None)"
| "split_once pat (c # s) =
     (if starts_with (c # s) pat then Some ([], drop (length pat) (c # s))
      else map_option (\<lambda>(a, b). (c # a, b)) (split_once pat s))"

lemma split_once_append: "split_once pat s = Some (a, b) \<Longrightarrow> s = a @ pat @ b"
proof (induction pat s arbitrary: a b rule: split_once.induct)
  case (1 pat)
  then show ?case by (simp split: if_splits)
next
  case (2 pat c s)
  show ?case
  proof (cases "starts_with (c # s) pat")
    case True
    have "pat @ drop (length pat) (c # s) = c # s"
      using True by (metis append_take_drop_id starts_with_def)
    with 2 True show ?thesis by simp
  next
    case False
    with 2 show ?thesis by auto
  qed
qed

definition trim_end_matches :: "char \<Rightarrow> string \<Rightarrow> string" where
  "trim_end_matches c s = rev (dropWhile (\<lambda>d. d = c) (rev s))"

text \<open>\<open>Path::join\<close> with a relative path.\<close>

definition path_join :: "path \<Rightarrow> path \<Rightarrow> path" where
  "path_join a b = (if a = [] \<or> last a = CHR ''/'' then a @ b else a @ ''/'' @ b)"

text \<open>\<open>Path::is_absolute\<close> on Unix.\<close>

definition is_absolute :: "path \<Rightarrow> bool" where
  "is_absolute p \<longleftrightarrow> starts_with p ''/''"

section \<open>Integers\<close>

definition digit_of :: "nat \<Rightarrow> char \<Rightarrow> nat option" where
  "digit_of radix c =
     (let n = (of_char c :: nat);
          d = (if 48 \<le> n \<and> n \<le> 57 then Some (n - 48)
               else if 97 \<le> n \<and> n \<le> 122 then Some (n - 87)
               else if 65 \<le> n \<and> n \<le> 90 then Some (n - 55)
               else None)
      in case d of None \<Rightarrow> None | Some v \<Rightarrow> if v < radix then Some v else None)"

definition parse_empty :: string where "parse_empty = ''cannot parse integer from empty string''"
definition parse_digit :: string where "parse_digit = ''invalid digit found in string''"
definition parse_large :: string where "parse_large = ''number too large to fit in target type''"
definition parse_small :: string where "parse_small = ''number too small to fit in target type''"

text \<open>The digit loop of \<open>from_str_radix\<close>, growing away from zero up to \<open>limit\<close>.\<close>

fun parse_digits :: "string \<Rightarrow> nat \<Rightarrow> nat \<Rightarrow> string \<Rightarrow> string + nat" where
  "parse_digits ovf limit acc [] = Inr acc"
| "parse_digits ovf limit acc (c # cs) =
     (case digit_of 10 c of
        None \<Rightarrow> Inl parse_digit
      | Some d \<Rightarrow> if 10 * acc + d \<le> limit then parse_digits ovf limit (10 * acc + d) cs
                  else Inl ovf)"

definition parse_unsigned :: "nat \<Rightarrow> string \<Rightarrow> string + nat" where
  "parse_unsigned limit s =
     (case s of
        [] \<Rightarrow> Inl parse_empty
      | c # cs \<Rightarrow>
          if cs = [] \<and> (c = CHR ''+'' \<or> c = CHR ''-'') then Inl parse_digit
          else if c = CHR ''+'' then parse_digits parse_large limit 0 cs
          else parse_digits parse_large limit 0 s)"

definition str_parse_u64 :: "string \<Rightarrow> string + nat" where
  "str_parse_u64 = parse_unsigned (u64_bound - 1)"

definition str_parse_u32 :: "string \<Rightarrow> string + nat" where
  "str_parse_u32 = parse_unsigned (u32_bound - 1)"

definition str_parse_i32 :: "string \<Rightarrow> string + int" where
  "str_parse_i32 s =
     (case s of
        [] \<Rightarrow> Inl parse_empty
      | c # cs \<Rightarrow>
          if cs = [] \<and> (c = CHR ''+'' \<or> c = CHR ''-'') then Inl parse_digit
          else if c = CHR ''-'' then
            bind_res (parse_digits parse_small 2147483648 0 cs) (\<lambda>n. Inr (- int n))
          else bind_res (parse_digits parse_large 2147483647 0
                 (if c = CHR ''+'' then cs else s)) (\<lambda>n. Inr (int n)))"

lemma parse_digits_le: "parse_digits ovf limit acc s = Inr n \<Longrightarrow> acc \<le> limit \<Longrightarrow> n \<le> limit"
  by (induction ovf limit acc s rule: parse_digits.induct) (auto split: option.splits if_splits)

lemma parse_unsigned_le: "parse_unsigned limit s = Inr n \<Longrightarrow> n \<le> limit"
  by (auto simp: parse_unsigned_def simp del: parse_digits.simps
      split: list.splits if_splits dest!: parse_digits_le)

lemma digit_of_show: "n < 10 \<Longrightarrow> digit_of 10 (char_of (48 + n)) = Some n"
  by (simp add: digit_of_def Let_def)

lemma parse_digits_append:
  "parse_digits ovf limit acc (s @ t) =
     bind_res (parse_digits ovf limit acc s) (\<lambda>n. parse_digits ovf limit n t)"
  by (induction ovf limit acc s rule: parse_digits.induct) (auto split: option.splits)

lemma parse_digits_show_nat: "n \<le> limit \<Longrightarrow> parse_digits ovf limit 0 (show_nat n) = Inr n"
proof (induction n rule: show_nat.induct)
  case (1 n)
  show ?case
  proof (cases "n < 10")
    case True
    then show ?thesis using 1(2) digit_of_show [OF True] by (simp add: show_nat.simps [of n])
  next
    case False
    then have "parse_digits ovf limit 0 (show_nat (n div 10)) = Inr (n div 10)"
      using 1 by auto
    moreover have "digit_of 10 (char_of (48 + n mod 10)) = Some (n mod 10)"
      by (rule digit_of_show) simp
    ultimately show ?thesis
      using False 1(2) by (simp add: show_nat.simps [of n] parse_digits_append)
  qed
qed

section \<open>Socket addresses\<close>

text \<open>
  The recursive descent parser of \<open>core::net\<close>: a parser takes the rest of the input and returns
  a value with what is left, or \<open>None\<close> and leaves the input where it was.
\<close>

type_synonym 'a reader = "string \<Rightarrow> ('a \<times> string) option"

definition read_char :: "char \<Rightarrow> unit reader" where
  "read_char c s = (case s of [] \<Rightarrow> None | d # r \<Rightarrow> if c = d then Some ((), r) else None)"

fun read_digits :: "nat \<Rightarrow> nat \<Rightarrow> nat \<Rightarrow> string \<Rightarrow> nat \<times> nat \<times> string" where
  "read_digits radix acc k [] = (acc, k, [])"
| "read_digits radix acc k (c # s) =
     (case digit_of radix c of
        None \<Rightarrow> (acc, k, c # s)
      | Some d \<Rightarrow> read_digits radix (acc * radix + d) (Suc k) s)"

definition read_number :: "nat \<Rightarrow> nat option \<Rightarrow> bool \<Rightarrow> nat \<Rightarrow> nat reader" where
  "read_number radix max_digits allow_zero_prefix bound s =
     (let zero = (s \<noteq> [] \<and> hd s = CHR ''0''); (v, k, r) = read_digits radix 0 0 s
      in if k = 0 \<or> (case max_digits of None \<Rightarrow> False | Some m \<Rightarrow> m < k)
            \<or> (\<not> allow_zero_prefix \<and> zero \<and> 1 < k) \<or> bound \<le> v
         then None else Some (v, r))"

definition read_separator :: "char \<Rightarrow> nat \<Rightarrow> 'a reader \<Rightarrow> 'a reader" where
  "read_separator sep i p s =
     (if 0 < i then Option.bind (read_char sep s) (\<lambda>(_, r). p r) else p s)"

definition read_octet :: "nat \<Rightarrow> nat reader" where
  "read_octet i = read_separator CHR ''.'' i (read_number 10 (Some 3) False 256)"

definition read_ipv4_addr :: "nat list reader" where
  "read_ipv4_addr s =
     Option.bind (read_octet 0 s) (\<lambda>(a, s).
     Option.bind (read_octet 1 s) (\<lambda>(b, s).
     Option.bind (read_octet 2 s) (\<lambda>(c, s).
     Option.bind (read_octet 3 s) (\<lambda>(d, s). Some ([a, b, c, d], s)))))"

text \<open>\<open>read_groups\<close> reads up to \<open>left\<close> more groups of an IPv6 address, the next being the \<open>i\<close>-th.\<close>

fun read_groups :: "nat \<Rightarrow> nat \<Rightarrow> string \<Rightarrow> nat list \<times> bool \<times> string" where
  "read_groups 0 i s = ([], False, s)"
| "read_groups (Suc left) i s =
     (case (if 0 < left then read_separator CHR '':'' i read_ipv4_addr s else None) of
        Some (v4, r) \<Rightarrow> ([v4 ! 0 * 256 + v4 ! 1, v4 ! 2 * 256 + v4 ! 3], True, r)
      | None \<Rightarrow>
          (case read_separator CHR '':'' i (read_number 16 (Some 4) True 65536) s of
             None \<Rightarrow> ([], False, s)
           | Some (g, r) \<Rightarrow>
               (case read_groups left (Suc i) r of (gs, v4, r') \<Rightarrow> (g # gs, v4, r'))))"

definition read_ipv6_addr :: "nat list reader" where
  "read_ipv6_addr s =
     (case read_groups 8 0 s of (head, v4, r) \<Rightarrow>
        if length head = 8 then Some (head, r)
        else if v4 then None
        else Option.bind (read_char CHR '':'' r) (\<lambda>(_, r).
             Option.bind (read_char CHR '':'' r) (\<lambda>(_, r).
               case read_groups (8 - (length head + 1)) 0 r of (tail, _, r') \<Rightarrow>
                 Some (head @ replicate (8 - length head - length tail) 0 @ tail, r'))))"

definition read_port :: "nat reader" where
  "read_port s = Option.bind (read_char CHR '':'' s) (\<lambda>(_, r). read_number 10 None True 65536 r)"

definition read_scope_id :: "nat reader" where
  "read_scope_id s =
     Option.bind (read_char CHR ''%'' s) (\<lambda>(_, r). read_number 10 None True u32_bound r)"

definition read_socket_addr_v4 :: "socket_addr reader" where
  "read_socket_addr_v4 s =
     Option.bind (read_ipv4_addr s) (\<lambda>(ip, r).
     Option.bind (read_port r) (\<lambda>(port, r). Some (SocketAddr (IpV4 ip) port, r)))"

definition read_socket_addr_v6 :: "socket_addr reader" where
  "read_socket_addr_v6 s =
     Option.bind (read_char CHR ''['' s) (\<lambda>(_, r).
     Option.bind (read_ipv6_addr r) (\<lambda>(ip, r).
     Option.bind (read_char CHR '']''
        (case read_scope_id r of None \<Rightarrow> r | Some (_, r') \<Rightarrow> r')) (\<lambda>(_, r).
     Option.bind (read_port r) (\<lambda>(port, r). Some (SocketAddr (IpV6 ip) port, r)))))"

definition parse_socket_addr :: "string \<Rightarrow> socket_addr option" where
  "parse_socket_addr s =
     (case (case read_socket_addr_v4 s of Some x \<Rightarrow> Some x | None \<Rightarrow> read_socket_addr_v6 s) of
        Some (a, []) \<Rightarrow> Some a
      | _ \<Rightarrow> None)"

text \<open>\<open>IpAddr::is_loopback\<close>: 127.0.0.0/8 and ::1.\<close>

definition is_loopback :: "ip_addr \<Rightarrow> bool" where
  "is_loopback ip =
     (case ip of IpV4 os \<Rightarrow> os \<noteq> [] \<and> hd os = 127 | IpV6 gs \<Rightarrow> gs = [0, 0, 0, 0, 0, 0, 0, 1])"

end
