(* ===== verification/Config.thy ===== *)
theory Config
  imports Std_Text
begin

text \<open>
  \<open>src/config.rs\<close>: the configuration file, its defaults and its validation. The values of the
  file are the numbers and strings that serde reads; the validated configuration
  has durations, addresses and the settings each component takes. \<open>toml\<close>, the URL
  check of \<open>tendermint_rpc::HttpClient\<close> and the multiaddr parser of \<open>libp2p\<close> are parameters.
\<close>

section \<open>Validated configuration\<close>

record chain_config =
  chain_id :: string
  comet_rpc_url :: string
  request_timeout :: duration

record listener_config =
  listener_enabled :: bool
  reconnect_initial_backoff :: duration
  reconnect_max_backoff :: duration

record rpc_config =
  rpc_enabled :: bool
  rpc_listen_address :: socket_addr

record submission_config =
  submission_enabled :: bool
  submission_listen_address :: socket_addr
  max_transaction_bytes :: nat
  max_concurrent_requests :: nat

record verification_config =
  max_concurrent_jobs :: nat
  job_timeout :: duration
  max_retries :: nat
  retry_backoff :: duration

record noir_config =
  noir_enabled :: bool
  binary_path :: path
  home_directory :: path
  threads_per_job :: nat

record runtime_config =
  control_socket :: path
  shutdown_timeout :: duration

record proof_store_config =
  max_capacity_bytes :: nat
  config_max_proof_bytes :: nat
  terminal_retention :: duration
  store_event_buffer :: nat

text \<open>
  A multiaddr is the list of its protocol components; the sources look only at a final
  \<open>/p2p\<close> component.
\<close>

datatype protocol = P2p peer_id | OtherProtocol bytes

type_synonym multiaddr = "protocol list"

record p2p_config =
  p2p_enabled :: bool
  p2p_chain_id :: string
  listen_addresses :: "multiaddr list"
  bootnodes :: "multiaddr list"
  validator_key_path :: path
  max_availability_message_bytes :: nat
  p2p_max_proof_bytes :: nat
  proof_request_timeout :: duration
  max_concurrent_retrievals :: nat
  retrieval_timeout :: duration
  retrieval_initial_backoff :: duration
  retrieval_max_backoff :: duration
  command_buffer :: nat
  p2p_event_buffer :: nat

record config =
  cfg_runtime :: runtime_config
  cfg_chain :: chain_config
  cfg_listener :: listener_config
  cfg_proof_store :: proof_store_config
  cfg_p2p :: p2p_config
  cfg_verification :: verification_config
  cfg_noir :: noir_config
  cfg_rpc :: rpc_config
  cfg_submission :: submission_config

section \<open>The file and its defaults\<close>

record file_chain_config =
  file_chain_id :: string
  file_comet_rpc_url :: string
  request_timeout_secs :: nat

definition file_chain_default :: file_chain_config where
  "file_chain_default =
     \<lparr>file_chain_id = '''', file_comet_rpc_url = ''http://127.0.0.1:26657'',
      request_timeout_secs = 5\<rparr>"

record file_listener_config =
  file_listener_enabled :: bool
  reconnect_initial_backoff_millis :: nat
  reconnect_max_backoff_secs :: nat

definition file_listener_default :: file_listener_config where
  "file_listener_default =
     \<lparr>file_listener_enabled = False, reconnect_initial_backoff_millis = 250,
      reconnect_max_backoff_secs = 30\<rparr>"

record file_rpc_config =
  file_rpc_enabled :: bool
  file_rpc_listen_address :: string

definition file_rpc_default :: file_rpc_config where
  "file_rpc_default =
     \<lparr>file_rpc_enabled = False, file_rpc_listen_address = ''127.0.0.1:50051''\<rparr>"

record file_submission_config =
  file_submission_enabled :: bool
  file_submission_listen_address :: string
  file_max_transaction_bytes :: nat
  file_max_concurrent_requests :: nat

definition file_submission_default :: file_submission_config where
  "file_submission_default =
     \<lparr>file_submission_enabled = False, file_submission_listen_address = ''127.0.0.1:50052'',
      file_max_transaction_bytes = 1024 * 1024, file_max_concurrent_requests = 16\<rparr>"

record file_noir_config =
  file_noir_enabled :: bool
  file_binary_path :: path
  file_home_directory :: path
  file_threads_per_job :: nat

definition file_noir_default :: file_noir_config where
  "file_noir_default =
     \<lparr>file_noir_enabled = False, file_binary_path = '''', file_home_directory = '''',
      file_threads_per_job = 1\<rparr>"

record file_verification_config =
  file_max_concurrent_jobs :: nat
  job_timeout_secs :: nat
  file_max_retries :: nat
  retry_backoff_millis :: nat
  file_noir :: file_noir_config

definition file_verification_default :: file_verification_config where
  "file_verification_default =
     \<lparr>file_max_concurrent_jobs = 2, job_timeout_secs = 30, file_max_retries = 2,
      retry_backoff_millis = 250, file_noir = file_noir_default\<rparr>"

record file_proof_store_config =
  file_max_capacity_bytes :: nat
  file_max_proof_bytes :: nat
  terminal_retention_secs :: nat
  file_store_event_buffer :: nat

definition file_proof_store_default :: file_proof_store_config where
  "file_proof_store_default =
     \<lparr>file_max_capacity_bytes = 512 * 1024 * 1024, file_max_proof_bytes = 8 * 1024 * 1024,
      terminal_retention_secs = 15 * 60, file_store_event_buffer = 256\<rparr>"

record file_runtime_config =
  file_control_socket :: path
  shutdown_timeout_secs :: nat

record file_p2p_config =
  file_p2p_enabled :: bool
  file_listen_addresses :: "string list"
  file_bootnodes :: "string list"
  file_validator_key_path :: path
  file_max_availability_message_bytes :: nat
  proof_request_timeout_secs :: nat
  file_max_concurrent_retrievals :: nat
  retrieval_timeout_secs :: nat
  retrieval_initial_backoff_millis :: nat
  retrieval_max_backoff_secs :: nat
  file_command_buffer :: nat
  file_p2p_event_buffer :: nat

definition file_p2p_default :: file_p2p_config where
  "file_p2p_default =
     \<lparr>file_p2p_enabled = False, file_listen_addresses = [], file_bootnodes = [],
      file_validator_key_path = '''', file_max_availability_message_bytes = 64 * 1024,
      proof_request_timeout_secs = 10, file_max_concurrent_retrievals = 16,
      retrieval_timeout_secs = 30, retrieval_initial_backoff_millis = 250,
      retrieval_max_backoff_secs = 2, file_command_buffer = 64, file_p2p_event_buffer = 256\<rparr>"

record file_config =
  file_runtime :: file_runtime_config
  file_chain :: file_chain_config
  file_listener :: file_listener_config
  file_proof_store :: file_proof_store_config
  file_p2p :: file_p2p_config
  file_verification :: file_verification_config
  file_rpc :: file_rpc_config
  file_submission :: file_submission_config

record config_externs =
  toml_from_str :: "string \<Rightarrow> string + file_config"
  http_client_new :: "string \<Rightarrow> string + unit"
  parse_multiaddr :: "string \<Rightarrow> string + multiaddr"

section \<open>Validation\<close>

definition validate_chain :: "config_externs \<Rightarrow> file_chain_config \<Rightarrow> bool \<Rightarrow> chain_config res" where
  "validate_chain E f required =
     (let cid = trim (file_chain_id f) in
      if required \<and> cid = []
      then Inl (InvalidConfig ''chain.chain_id must not be empty when Listener, P2P, or submission is enabled'')
      else if \<not> starts_with (file_comet_rpc_url f) ''http://''
            \<and> \<not> starts_with (file_comet_rpc_url f) ''https://''
      then Inl (InvalidConfig ''chain.comet_rpc_url must use http or https'')
      else bind_res
        (map_err (\<lambda>e. InvalidConfig (''chain.comet_rpc_url is invalid: '' @ e))
          (http_client_new E (file_comet_rpc_url f))) (\<lambda>_.
        if request_timeout_secs f = 0
        then Inl (InvalidConfig ''chain.request_timeout_secs must be greater than zero'')
        else Inr \<lparr>chain_id = cid, comet_rpc_url = file_comet_rpc_url f,
                  request_timeout = from_secs (request_timeout_secs f)\<rparr>))"

definition validate_listener :: "file_listener_config \<Rightarrow> listener_config res" where
  "validate_listener f =
     (if reconnect_initial_backoff_millis f = 0 \<or> reconnect_max_backoff_secs f = 0
      then Inl (InvalidConfig ''Listener reconnect backoffs must be greater than zero'')
      else let initial = from_millis (reconnect_initial_backoff_millis f);
               maximum = from_secs (reconnect_max_backoff_secs f)
      in if initial > maximum
      then Inl (InvalidConfig ''listener.reconnect_initial_backoff_millis must not exceed reconnect_max_backoff_secs'')
      else Inr \<lparr>listener_enabled = file_listener_enabled f, reconnect_initial_backoff = initial,
                reconnect_max_backoff = maximum\<rparr>)"

definition validate_loopback_address :: "string \<Rightarrow> bool \<Rightarrow> string \<Rightarrow> socket_addr res" where
  "validate_loopback_address sec enabled v =
     (case parse_socket_addr v of
        None \<Rightarrow> Inl (InvalidConfig (sec @ ''.listen_address must be a literal IP and port: invalid socket address syntax''))
      | Some a \<Rightarrow>
          if enabled \<and> addr_port a = 0
          then Inl (InvalidConfig (sec @ ''.listen_address port must be greater than zero when enabled''))
          else if enabled \<and> \<not> is_loopback (addr_ip a)
          then Inl (InvalidConfig (sec @ ''.listen_address must use a loopback IP when enabled''))
          else Inr a)"

definition validate_rpc :: "file_rpc_config \<Rightarrow> rpc_config res" where
  "validate_rpc f =
     bind_res (validate_loopback_address ''rpc'' (file_rpc_enabled f) (file_rpc_listen_address f)) (\<lambda>a.
       Inr \<lparr>rpc_enabled = file_rpc_enabled f, rpc_listen_address = a\<rparr>)"

definition validate_submission_config :: "file_submission_config \<Rightarrow> submission_config res" where
  "validate_submission_config f =
     bind_res (validate_loopback_address ''submission'' (file_submission_enabled f)
                (file_submission_listen_address f)) (\<lambda>a.
       if \<not> (1 \<le> file_max_transaction_bytes f \<and> file_max_transaction_bytes f \<le> 16 * 1024 * 1024)
       then Inl (InvalidConfig ''submission.max_transaction_bytes must be between 1 byte and 16 MiB'')
       else if \<not> (1 \<le> file_max_concurrent_requests f \<and> file_max_concurrent_requests f \<le> 64)
       then Inl (InvalidConfig ''submission.max_concurrent_requests must be between 1 and 64'')
       else Inr \<lparr>submission_enabled = file_submission_enabled f, submission_listen_address = a,
                 max_transaction_bytes = file_max_transaction_bytes f,
                 max_concurrent_requests = file_max_concurrent_requests f\<rparr>)"

definition validate_verification ::
  "file_verification_config \<Rightarrow> (verification_config \<times> noir_config) res" where
  "validate_verification f =
     (if \<not> (1 \<le> file_max_concurrent_jobs f \<and> file_max_concurrent_jobs f \<le> 256)
      then Inl (InvalidConfig ''verification.max_concurrent_jobs must be between 1 and 256'')
      else if job_timeout_secs f = 0
      then Inl (InvalidConfig ''verification.job_timeout_secs must be greater than zero'')
      else if file_max_retries f > 10
      then Inl (InvalidConfig ''verification.max_retries must not exceed 10'')
      else if file_max_retries f > 0 \<and> retry_backoff_millis f = 0
      then Inl (InvalidConfig ''verification.retry_backoff_millis must be greater than zero when retries are enabled'')
      else if \<not> (1 \<le> file_threads_per_job (file_noir f) \<and> file_threads_per_job (file_noir f) \<le> 256)
      then Inl (InvalidConfig ''verification.noir.threads_per_job must be between 1 and 256'')
      else if file_noir_enabled (file_noir f)
            \<and> (\<not> is_absolute (file_binary_path (file_noir f))
               \<or> \<not> is_absolute (file_home_directory (file_noir f)))
      then Inl (InvalidConfig ''verification.noir binary_path and home_directory must be absolute when enabled'')
      else Inr (\<lparr>max_concurrent_jobs = file_max_concurrent_jobs f,
                 job_timeout = from_secs (job_timeout_secs f),
                 max_retries = file_max_retries f,
                 retry_backoff = from_millis (retry_backoff_millis f)\<rparr>,
                \<lparr>noir_enabled = file_noir_enabled (file_noir f),
                 binary_path = file_binary_path (file_noir f),
                 home_directory = file_home_directory (file_noir f),
                 threads_per_job = file_threads_per_job (file_noir f)\<rparr>))"

text \<open>
  \<open>u64::try_from(usize).unwrap_or(u64::MAX)\<close> is the identity at 64 bits.
\<close>

definition validate_proof_store :: "file_proof_store_config \<Rightarrow> proof_store_config res" where
  "validate_proof_store f =
     (if file_max_capacity_bytes f = 0 \<or> file_max_proof_bytes f = 0
         \<or> terminal_retention_secs f = 0 \<or> file_store_event_buffer f = 0
      then Inl (InvalidConfig ''proof store capacity, proof limit, retention, and event buffer must be greater than zero'')
      else if file_max_proof_bytes f > file_max_capacity_bytes f
      then Inl (InvalidConfig ''proof_store.max_proof_bytes must not exceed max_capacity_bytes'')
      else Inr \<lparr>max_capacity_bytes = file_max_capacity_bytes f,
                config_max_proof_bytes = file_max_proof_bytes f,
                terminal_retention = from_secs (terminal_retention_secs f),
                store_event_buffer = file_store_event_buffer f\<rparr>)"

definition parse_multiaddrs :: "config_externs \<Rightarrow> string \<Rightarrow> string list \<Rightarrow> multiaddr list res" where
  "parse_multiaddrs E field vs =
     collect_res (\<lambda>v. map_err (\<lambda>e. InvalidConfig (field @ '' contains invalid multiaddr '' @ v @ '': '' @ e))
       (parse_multiaddr E v)) vs"

definition validate_p2p ::
  "config_externs \<Rightarrow> file_p2p_config \<Rightarrow> nat \<Rightarrow> string \<Rightarrow> p2p_config res" where
  "validate_p2p E f max_proof cid =
     (if file_p2p_enabled f \<and> file_listen_addresses f = []
      then Inl (InvalidConfig ''p2p.listen_addresses must not be empty when P2P is enabled'')
      else if file_p2p_enabled f \<and> \<not> is_absolute (file_validator_key_path f)
      then Inl (InvalidConfig ''p2p.validator_key_path must be absolute when P2P is enabled'')
      else
        bind_res (parse_multiaddrs E ''p2p.listen_addresses'' (file_listen_addresses f)) (\<lambda>las.
        bind_res (parse_multiaddrs E ''p2p.bootnodes'' (file_bootnodes f)) (\<lambda>bns.
        if proof_request_timeout_secs f = 0 \<or> retrieval_timeout_secs f = 0
           \<or> retrieval_initial_backoff_millis f = 0 \<or> retrieval_max_backoff_secs f = 0
           \<or> file_max_availability_message_bytes f = 0 \<or> file_command_buffer f = 0
           \<or> file_p2p_event_buffer f = 0
        then Inl (InvalidConfig ''P2P timeouts, message limits, and channel capacities must be greater than zero'')
        else if \<not> (1 \<le> file_max_concurrent_retrievals f \<and> file_max_concurrent_retrievals f \<le> 256)
        then Inl (InvalidConfig ''p2p.max_concurrent_retrievals must be between 1 and 256'')
        else
          let request_timeout' = from_secs (proof_request_timeout_secs f);
              retrieval_timeout' = from_secs (retrieval_timeout_secs f);
              initial = from_millis (retrieval_initial_backoff_millis f);
              maximum = from_secs (retrieval_max_backoff_secs f)
          in if initial > maximum
          then Inl (InvalidConfig ''p2p.retrieval_initial_backoff_millis must not exceed retrieval_max_backoff_secs'')
          else if maximum > retrieval_timeout'
          then Inl (InvalidConfig ''p2p.retrieval_max_backoff_secs must not exceed retrieval_timeout_secs'')
          else if retrieval_timeout' \<le> request_timeout'
          then Inl (InvalidConfig ''p2p.retrieval_timeout_secs must be greater than proof_request_timeout_secs'')
          else Inr \<lparr>p2p_enabled = file_p2p_enabled f, p2p_chain_id = cid,
                    listen_addresses = las, bootnodes = bns,
                    validator_key_path = file_validator_key_path f,
                    max_availability_message_bytes = file_max_availability_message_bytes f,
                    p2p_max_proof_bytes = max_proof,
                    proof_request_timeout = request_timeout',
                    max_concurrent_retrievals = file_max_concurrent_retrievals f,
                    retrieval_timeout = retrieval_timeout',
                    retrieval_initial_backoff = initial,
                    retrieval_max_backoff = maximum,
                    command_buffer = file_command_buffer f,
                    p2p_event_buffer = file_p2p_event_buffer f\<rparr>)))"

text \<open>
  The checks of \<open>Config::from_file\<close> that relate sections to each other, after each section
  has been validated.
\<close>

definition cross_checks :: "config \<Rightarrow> config res" where
  "cross_checks c =
     (if p2p_enabled (cfg_p2p c)
         \<and> shutdown_timeout (cfg_runtime c) \<le> proof_request_timeout (cfg_p2p c)
      then Inl (InvalidConfig ''runtime.shutdown_timeout_secs must be greater than p2p.proof_request_timeout_secs when P2P is enabled'')
      else if submission_enabled (cfg_submission c)
         \<and> shutdown_timeout (cfg_runtime c) \<le> request_timeout (cfg_chain c)
      then Inl (InvalidConfig ''runtime.shutdown_timeout_secs must be greater than chain.request_timeout_secs when submission is enabled'')
      else if p2p_enabled (cfg_p2p c) \<and> \<not> listener_enabled (cfg_listener c)
      then Inl (InvalidConfig ''listener.enabled must be true when P2P is enabled'')
      else if submission_enabled (cfg_submission c) \<and> \<not> listener_enabled (cfg_listener c)
      then Inl (InvalidConfig ''listener.enabled must be true when submission is enabled'')
      else if submission_enabled (cfg_submission c) \<and> \<not> rpc_enabled (cfg_rpc c)
      then Inl (InvalidConfig ''rpc.enabled must be true when submission is enabled'')
      else if submission_enabled (cfg_submission c) \<and> rpc_enabled (cfg_rpc c)
         \<and> submission_listen_address (cfg_submission c) = rpc_listen_address (cfg_rpc c)
      then Inl (InvalidConfig ''submission.listen_address must differ from rpc.listen_address'')
      else Inr c)"

text \<open>
  \<open>Config::from_file\<close>; \<open>contents\<close> is what reading the file at \<open>p\<close> returned.
\<close>

definition from_file :: "config_externs \<Rightarrow> path \<Rightarrow> io_error + string \<Rightarrow> config res" where
  "from_file E p contents =
     bind_res (map_err (ConfigRead p) contents) (\<lambda>txt.
     bind_res (map_err (ConfigParse p) (toml_from_str E txt)) (\<lambda>f.
     if \<not> is_absolute (file_control_socket (file_runtime f))
     then Inl (InvalidConfig ''runtime.control_socket must be an absolute path'')
     else if shutdown_timeout_secs (file_runtime f) = 0
     then Inl (InvalidConfig ''runtime.shutdown_timeout_secs must be greater than zero'')
     else
       bind_res (validate_proof_store (file_proof_store f)) (\<lambda>ps.
       bind_res (validate_listener (file_listener f)) (\<lambda>l.
       bind_res (validate_submission_config (file_submission f)) (\<lambda>sub.
       bind_res (validate_chain E (file_chain f)
         (file_p2p_enabled (file_p2p f) \<or> listener_enabled l \<or> submission_enabled sub)) (\<lambda>ch.
       bind_res (validate_p2p E (file_p2p f) (config_max_proof_bytes ps) (chain_id ch)) (\<lambda>p2.
       bind_res (validate_verification (file_verification f)) (\<lambda>(ver, noir).
       bind_res (validate_rpc (file_rpc f)) (\<lambda>rp.
         cross_checks
           \<lparr>cfg_runtime = \<lparr>control_socket = file_control_socket (file_runtime f),
                           shutdown_timeout = from_secs (shutdown_timeout_secs (file_runtime f))\<rparr>,
            cfg_chain = ch, cfg_listener = l, cfg_proof_store = ps, cfg_p2p = p2,
            cfg_verification = ver, cfg_noir = noir, cfg_rpc = rp, cfg_submission = sub\<rparr>)))))))))"

section \<open>What a loaded configuration guarantees\<close>

definition store_config_ok :: "proof_store_config \<Rightarrow> bool" where
  "store_config_ok c \<longleftrightarrow>
     0 < config_max_proof_bytes c \<and> config_max_proof_bytes c \<le> max_capacity_bytes c
     \<and> 0 < terminal_retention c \<and> 0 < store_event_buffer c"

definition listener_config_ok :: "listener_config \<Rightarrow> bool" where
  "listener_config_ok c \<longleftrightarrow>
     0 < reconnect_initial_backoff c \<and> reconnect_initial_backoff c \<le> reconnect_max_backoff c"

definition served_address_ok :: "bool \<Rightarrow> socket_addr \<Rightarrow> bool" where
  "served_address_ok enabled a \<longleftrightarrow>
     (if enabled then is_loopback (addr_ip a) \<and> 0 < addr_port a else True)"

definition submission_config_ok :: "submission_config \<Rightarrow> bool" where
  "submission_config_ok c \<longleftrightarrow>
     served_address_ok (submission_enabled c) (submission_listen_address c)
     \<and> max_transaction_bytes c \<in> {1..16 * 1024 * 1024} \<and> max_concurrent_requests c \<in> {1..64}"

definition verification_config_ok :: "verification_config \<Rightarrow> bool" where
  "verification_config_ok c \<longleftrightarrow>
     max_concurrent_jobs c \<in> {1..256} \<and> 0 < job_timeout c \<and> max_retries c \<le> 10
     \<and> (max_retries c = 0 \<or> 0 < retry_backoff c)"

definition noir_config_ok :: "noir_config \<Rightarrow> bool" where
  "noir_config_ok c \<longleftrightarrow>
     threads_per_job c \<in> {1..256}
     \<and> (if noir_enabled c then is_absolute (binary_path c) \<and> is_absolute (home_directory c) else True)"

definition p2p_config_ok :: "p2p_config \<Rightarrow> bool" where
  "p2p_config_ok c \<longleftrightarrow>
     (if p2p_enabled c then listen_addresses c \<noteq> [] \<and> is_absolute (validator_key_path c) else True)
     \<and> 0 < proof_request_timeout c \<and> proof_request_timeout c < retrieval_timeout c
     \<and> 0 < retrieval_initial_backoff c \<and> retrieval_initial_backoff c \<le> retrieval_max_backoff c
     \<and> retrieval_max_backoff c \<le> retrieval_timeout c
     \<and> max_concurrent_retrievals c \<in> {1..256} \<and> 0 < max_availability_message_bytes c
     \<and> 0 < command_buffer c \<and> 0 < p2p_event_buffer c"

definition network_enabled :: "config \<Rightarrow> bool" where
  "network_enabled c \<longleftrightarrow>
     p2p_enabled (cfg_p2p c) \<or> listener_enabled (cfg_listener c) \<or> submission_enabled (cfg_submission c)"

definition sections_agree :: "config \<Rightarrow> bool" where
  "sections_agree c \<longleftrightarrow>
     p2p_chain_id (cfg_p2p c) = chain_id (cfg_chain c)
     \<and> p2p_max_proof_bytes (cfg_p2p c) = config_max_proof_bytes (cfg_proof_store c)
     \<and> (if network_enabled c then chain_id (cfg_chain c) \<noteq> [] else True)
     \<and> (if p2p_enabled (cfg_p2p c)
        then listener_enabled (cfg_listener c)
          \<and> proof_request_timeout (cfg_p2p c) < shutdown_timeout (cfg_runtime c)
        else True)
     \<and> (if submission_enabled (cfg_submission c)
        then listener_enabled (cfg_listener c) \<and> rpc_enabled (cfg_rpc c)
          \<and> submission_listen_address (cfg_submission c) \<noteq> rpc_listen_address (cfg_rpc c)
          \<and> request_timeout (cfg_chain c) < shutdown_timeout (cfg_runtime c)
        else True)"

definition config_ok :: "config \<Rightarrow> bool" where
  "config_ok c \<longleftrightarrow>
     is_absolute (control_socket (cfg_runtime c)) \<and> 0 < shutdown_timeout (cfg_runtime c)
     \<and> 0 < request_timeout (cfg_chain c)
     \<and> store_config_ok (cfg_proof_store c) \<and> listener_config_ok (cfg_listener c)
     \<and> served_address_ok (rpc_enabled (cfg_rpc c)) (rpc_listen_address (cfg_rpc c))
     \<and> submission_config_ok (cfg_submission c)
     \<and> verification_config_ok (cfg_verification c) \<and> noir_config_ok (cfg_noir c)
     \<and> p2p_config_ok (cfg_p2p c) \<and> sections_agree c"

lemma from_secs_pos [simp]: "0 < from_secs n \<longleftrightarrow> 0 < n"
  by (simp add: from_secs_def)

lemma from_millis_pos [simp]: "0 < from_millis n \<longleftrightarrow> 0 < n"
  by (simp add: from_millis_def)

lemma from_secs_0 [simp]: "from_secs n = 0 \<longleftrightarrow> n = 0"
  by (simp add: from_secs_def)

lemma from_millis_0 [simp]: "from_millis n = 0 \<longleftrightarrow> n = 0"
  by (simp add: from_millis_def)

lemma validate_proof_store_ok: "validate_proof_store f = Inr c \<Longrightarrow> store_config_ok c"
  unfolding validate_proof_store_def if_Inl_Inr_iff store_config_ok_def by auto

lemma validate_listener_ok:
  "validate_listener f = Inr c \<Longrightarrow>
     listener_config_ok c \<and> listener_enabled c = file_listener_enabled f"
  unfolding validate_listener_def Let_def if_Inl_Inr_iff listener_config_ok_def by auto

lemma validate_loopback_ok:
  "validate_loopback_address sec e v = Inr a \<Longrightarrow> served_address_ok e a"
  by (auto simp: validate_loopback_address_def served_address_ok_def split: option.splits if_splits)

lemma validate_rpc_ok:
  "validate_rpc f = Inr c \<Longrightarrow> served_address_ok (rpc_enabled c) (rpc_listen_address c)"
  by (auto simp: validate_rpc_def bind_res_Inr_iff dest: validate_loopback_ok)

lemma validate_submission_config_ok: "validate_submission_config f = Inr c \<Longrightarrow> submission_config_ok c"
  unfolding validate_submission_config_def if_Inl_Inr_iff bind_res_Inr_iff submission_config_ok_def
  by (auto dest: validate_loopback_ok)

lemma validate_verification_ok:
  "validate_verification f = Inr (v, n) \<Longrightarrow> verification_config_ok v \<and> noir_config_ok n"
  unfolding validate_verification_def if_Inl_Inr_iff verification_config_ok_def noir_config_ok_def
  by auto

lemma validate_chain_ok:
  "validate_chain E f required = Inr c \<Longrightarrow>
     0 < request_timeout c \<and> (required \<longrightarrow> chain_id c \<noteq> [])"
  unfolding validate_chain_def Let_def if_Inl_Inr_iff bind_res_Inr_iff by auto

lemma parse_multiaddrs_Nil: "parse_multiaddrs E fd vs = Inr as \<Longrightarrow> as = [] \<longleftrightarrow> vs = []"
  by (auto simp: parse_multiaddrs_def dest: collect_res_length)

lemma validate_p2p_ok:
  "validate_p2p E f m cid = Inr c \<Longrightarrow>
     p2p_config_ok c \<and> p2p_chain_id c = cid \<and> p2p_max_proof_bytes c = m
     \<and> p2p_enabled c = file_p2p_enabled f"
  unfolding validate_p2p_def Let_def if_Inl_Inr_iff bind_res_Inr_iff p2p_config_ok_def
  by (auto dest: parse_multiaddrs_Nil)

lemma cross_checks_Inr:
  "cross_checks c = Inr d \<Longrightarrow>
     d = c
     \<and> (p2p_enabled (cfg_p2p c) \<longrightarrow> listener_enabled (cfg_listener c)
          \<and> proof_request_timeout (cfg_p2p c) < shutdown_timeout (cfg_runtime c))
     \<and> (submission_enabled (cfg_submission c) \<longrightarrow>
          listener_enabled (cfg_listener c) \<and> rpc_enabled (cfg_rpc c)
          \<and> submission_listen_address (cfg_submission c) \<noteq> rpc_listen_address (cfg_rpc c)
          \<and> request_timeout (cfg_chain c) < shutdown_timeout (cfg_runtime c))"
  unfolding cross_checks_def if_Inl_Inr_iff by auto

lemma from_file_sections:
  assumes "from_file E p contents = Inr c"
  shows "\<exists>f :: file_config. is_absolute (control_socket (cfg_runtime c)) \<and> 0 < shutdown_timeout (cfg_runtime c)
     \<and> validate_proof_store (file_proof_store f) = Inr (cfg_proof_store c)
     \<and> validate_listener (file_listener f) = Inr (cfg_listener c)
     \<and> validate_submission_config (file_submission f) = Inr (cfg_submission c)
     \<and> validate_chain E (file_chain f) (file_p2p_enabled (file_p2p f)
          \<or> listener_enabled (cfg_listener c) \<or> submission_enabled (cfg_submission c)) = Inr (cfg_chain c)
     \<and> validate_p2p E (file_p2p f) (config_max_proof_bytes (cfg_proof_store c)) (chain_id (cfg_chain c))
          = Inr (cfg_p2p c)
     \<and> validate_verification (file_verification f) = Inr (cfg_verification c, cfg_noir c)
     \<and> validate_rpc (file_rpc f) = Inr (cfg_rpc c)
     \<and> cross_checks c = Inr c"
proof -
  from assms obtain body f where "toml_from_str E body = Inr f" and
    "\<exists>ps l sub ch p2 ver noir rp.
       is_absolute (file_control_socket (file_runtime f)) \<and> 0 < shutdown_timeout_secs (file_runtime f)
     \<and> validate_proof_store (file_proof_store f) = Inr ps
     \<and> validate_listener (file_listener f) = Inr l
     \<and> validate_submission_config (file_submission f) = Inr sub
     \<and> validate_chain E (file_chain f) (file_p2p_enabled (file_p2p f)
          \<or> listener_enabled l \<or> submission_enabled sub) = Inr ch
     \<and> validate_p2p E (file_p2p f) (config_max_proof_bytes ps) (chain_id ch) = Inr p2
     \<and> validate_verification (file_verification f) = Inr (ver, noir)
     \<and> validate_rpc (file_rpc f) = Inr rp
     \<and> cross_checks
         \<lparr>cfg_runtime = \<lparr>control_socket = file_control_socket (file_runtime f),
                         shutdown_timeout = from_secs (shutdown_timeout_secs (file_runtime f))\<rparr>,
          cfg_chain = ch, cfg_listener = l, cfg_proof_store = ps, cfg_p2p = p2,
          cfg_verification = ver, cfg_noir = noir, cfg_rpc = rp, cfg_submission = sub\<rparr> = Inr c"
    unfolding from_file_def if_Inl_Inr_iff bind_res_Inr_iff by (fastforce simp: bind_res_Inr_iff)
  from this(2) show ?thesis
    by (elim exE conjE, intro exI [of _ f]) (frule cross_checks_Inr, clarsimp)
qed

text \<open>
  C31. A configuration that loads is safe to run: every enabled gRPC listener is bound to a
  loopback address with a real port, P2P and submission are on only with the committed-block
  listener, the graceful shutdown budget exceeds the longest in-flight network request it has to wait
  for, backoffs are positive and ordered, retries stay below the width of the multiplier, and
  the store's proof limit fits its capacity.
\<close>

theorem from_file_config_ok:
  assumes "from_file E p contents = Inr c"
  shows "config_ok c"
proof -
  from from_file_sections [OF assms] obtain f :: file_config where
      "is_absolute (control_socket (cfg_runtime c))" "0 < shutdown_timeout (cfg_runtime c)"
    and v: "validate_proof_store (file_proof_store f) = Inr (cfg_proof_store c)"
      "validate_listener (file_listener f) = Inr (cfg_listener c)"
      "validate_submission_config (file_submission f) = Inr (cfg_submission c)"
      "validate_chain E (file_chain f) (file_p2p_enabled (file_p2p f)
          \<or> listener_enabled (cfg_listener c) \<or> submission_enabled (cfg_submission c)) = Inr (cfg_chain c)"
      "validate_p2p E (file_p2p f) (config_max_proof_bytes (cfg_proof_store c)) (chain_id (cfg_chain c))
          = Inr (cfg_p2p c)"
      "validate_verification (file_verification f) = Inr (cfg_verification c, cfg_noir c)"
      "validate_rpc (file_rpc f) = Inr (cfg_rpc c)"
    and x: "cross_checks c = Inr c"
    by blast
  with validate_proof_store_ok [OF v(1)] validate_listener_ok [OF v(2)]
    validate_submission_config_ok [OF v(3)] validate_chain_ok [OF v(4)] validate_p2p_ok [OF v(5)]
    validate_verification_ok [OF v(6)] validate_rpc_ok [OF v(7)] cross_checks_Inr [OF x]
  show ?thesis
    by (auto simp: config_ok_def sections_agree_def network_enabled_def)
qed

text \<open>
  The packaged settings: the defaults of every section, a control socket and a stop budget.
\<close>

definition demo_file :: file_config where
  "demo_file =
     \<lparr>file_runtime = \<lparr>file_control_socket = ''/run/pulsar/control.sock'', shutdown_timeout_secs = 20\<rparr>,
      file_chain = file_chain_default, file_listener = file_listener_default,
      file_proof_store = file_proof_store_default, file_p2p = file_p2p_default,
      file_verification = file_verification_default,
      file_rpc = file_rpc_default\<lparr>file_rpc_enabled := True\<rparr>,
      file_submission = file_submission_default\<rparr>"

definition demo_config_externs :: config_externs where
  "demo_config_externs =
     \<lparr>toml_from_str = (\<lambda>_. Inr demo_file), http_client_new = (\<lambda>_. Inr ()),
      parse_multiaddr = (\<lambda>_. Inr [])\<rparr>"

lemmas addr_eval = parse_socket_addr_def read_socket_addr_v4_def read_ipv4_addr_def read_octet_def
  read_separator_def read_number_def digit_of_def read_port_def read_char_def

lemma demo_addresses [simp]:
  "parse_socket_addr ''127.0.0.1:50051'' = Some (SocketAddr (IpV4 [127, 0, 0, 1]) 50051)"
  "parse_socket_addr ''127.0.0.1:50052'' = Some (SocketAddr (IpV4 [127, 0, 0, 1]) 50052)"
  by (simp_all add: addr_eval)

lemma demo_sections:
  "validate_proof_store file_proof_store_default =
     Inr \<lparr>max_capacity_bytes = 536870912, config_max_proof_bytes = 8388608,
          terminal_retention = from_secs 900, store_event_buffer = 256\<rparr>"
  "validate_listener file_listener_default =
     Inr \<lparr>listener_enabled = False, reconnect_initial_backoff = from_millis 250,
          reconnect_max_backoff = from_secs 30\<rparr>"
  "validate_rpc (file_rpc_default\<lparr>file_rpc_enabled := True\<rparr>) =
     Inr \<lparr>rpc_enabled = True, rpc_listen_address = SocketAddr (IpV4 [127, 0, 0, 1]) 50051\<rparr>"
  "validate_submission_config file_submission_default =
     Inr \<lparr>submission_enabled = False, submission_listen_address = SocketAddr (IpV4 [127, 0, 0, 1]) 50052,
          max_transaction_bytes = 1048576, max_concurrent_requests = 16\<rparr>"
  by (simp_all add: validate_proof_store_def file_proof_store_default_def validate_listener_def
      file_listener_default_def from_millis_def from_secs_def validate_rpc_def file_rpc_default_def
      validate_loopback_address_def is_loopback_def validate_submission_config_def
      file_submission_default_def)

lemma demo_sections2:
  "is_ok (validate_chain demo_config_externs file_chain_default False)"
  "is_ok (validate_p2p demo_config_externs file_p2p_default 8388608 [])"
  "is_ok (validate_verification file_verification_default)"
  by (simp_all add: validate_chain_def demo_config_externs_def file_chain_default_def Let_def
      starts_with_def validate_p2p_def file_p2p_default_def parse_multiaddrs_def from_millis_def
      from_secs_def validate_verification_def file_verification_default_def file_noir_default_def)

text \<open>The packaged settings load, and what they load to is safe to run.\<close>

theorem from_file_config_ok_witness:
  "\<exists>c. from_file demo_config_externs ''v.toml'' (Inr []) = Inr c \<and> config_ok c"
proof -
  obtain ch p2 ver noir where parts:
    "validate_chain demo_config_externs file_chain_default False = Inr ch"
    "validate_p2p demo_config_externs file_p2p_default 8388608 [] = Inr p2"
    "validate_verification file_verification_default = Inr (ver, noir)"
    using demo_sections2 by (auto simp: is_ok_def split: sum.splits)
  have "chain_id ch = []" "\<not> p2p_enabled p2"
    using parts(1) validate_p2p_ok [OF parts(2)]
    by (auto simp: validate_chain_def file_chain_default_def file_p2p_default_def trim_def
        Let_def bind_res_Inr_iff)
  then have "is_ok (from_file demo_config_externs ''v.toml'' (Inr []))"
    using parts
    by (simp add: from_file_def demo_config_externs_def demo_file_def demo_sections is_absolute_def
        starts_with_def cross_checks_def file_p2p_default_def)
  then obtain c where "from_file demo_config_externs ''v.toml'' (Inr []) = Inr c"
    by (auto simp: is_ok_def split: sum.splits)
  with from_file_config_ok [OF this] show ?thesis by blast
qed

end
