(* ===== verification/Proof_Identity.thy ===== *)
theory Proof_Identity
  imports Domain
begin

text \<open>
  \<open>src/proof.rs\<close>: the canonical identifier of a proof, the conversions between the proof and
  its wire message, and the size of its encoding. The lemmas show that the identifier
  binds every component of a proof up to a collision of the hash function, that the wire
  conversion is a round trip, and that the computed size is the size of the message
  prost writes.
\<close>

section \<open>Definitions\<close>

definition VERIFICATION_ID_LEN :: nat where "VERIFICATION_ID_LEN = 32"

definition VERIFICATION_ID_DOMAIN :: bytes where
  "VERIFICATION_ID_DOMAIN = ascii ''pulsar/verification/v1'' @ [0]"

definition proof_type_to_u32 :: "proof_type \<Rightarrow> 32 word" where
  "proof_type_to_u32 t = (case t of MinaPickles \<Rightarrow> 1 | NoirBarretenberg \<Rightarrow> 2)"

definition proof_type_to_i32 :: "proof_type \<Rightarrow> int" where
  "proof_type_to_i32 t = (case t of MinaPickles \<Rightarrow> 1 | NoirBarretenberg \<Rightarrow> 2)"

text \<open>
  The values of the generated enum \<open>pulsarchain.verification.v1.ProofType\<close> are 0
  (unspecified), 1 and 2.
\<close>

definition proof_type_try_from :: "int \<Rightarrow> proof_type res" where
  "proof_type_try_from v =
     (if v = 1 then Inr MinaPickles
      else if v = 2 then Inr NoirBarretenberg
      else Inl (UnsupportedProofType v))"

definition id_preimage :: "proof_type \<Rightarrow> bytes \<Rightarrow> bytes \<Rightarrow> bytes \<Rightarrow> bytes" where
  "id_preimage t ph ih kh =
     VERIFICATION_ID_DOMAIN @ u32_to_be_bytes (proof_type_to_u32 t) @ ph @ ih @ kh"

definition from_component_hashes ::
  "'x externs_scheme \<Rightarrow> proof_type \<Rightarrow> bytes \<Rightarrow> bytes \<Rightarrow> bytes \<Rightarrow> verification_id" where
  "from_component_hashes X t ph ih kh = VerificationId (sha256 X (id_preimage t ph ih kh))"

definition verification_id_try_from :: "bytes \<Rightarrow> verification_id res" where
  "verification_id_try_from b =
     (if length b = VERIFICATION_ID_LEN then Inr (VerificationId b)
      else Inl (InvalidVerificationId
        (''verification ID must be '' @ show_nat VERIFICATION_ID_LEN @ '' bytes, got ''
          @ show_nat (length b))))"

definition display_id :: "'x externs_scheme \<Rightarrow> verification_id \<Rightarrow> string" where
  "display_id X i = hex_encode X (as_bytes i)"

definition verification_id :: "'x externs_scheme \<Rightarrow> zk_proof \<Rightarrow> verification_id" where
  "verification_id X p =
     from_component_hashes X (proof_type p) (sha256 X (proof_bytes p))
       (sha256 X (public_inputs p)) (sha256 X (verification_key p))"

definition encoded_bytes_len :: "'x externs_scheme \<Rightarrow> bytes \<Rightarrow> nat" where
  "encoded_bytes_len X b =
     (if b = [] then 0
      else wrapping_add_usize (wrapping_add_usize 1 (encoded_len_varint X (length b))) (length b))"

definition encoded_len :: "'x externs_scheme \<Rightarrow> zk_proof \<Rightarrow> nat" where
  "encoded_len X p =
     wrapping_add_usize
       (wrapping_add_usize
         (wrapping_add_usize 2 (encoded_bytes_len X (proof_bytes p)))
         (encoded_bytes_len X (public_inputs p)))
       (encoded_bytes_len X (verification_key p))"

definition payload_len :: "zk_proof \<Rightarrow> nat option" where
  "payload_len p =
     Option.bind (checked_add_usize (length (proof_bytes p)) (length (public_inputs p)))
       (\<lambda>n. checked_add_usize n (length (verification_key p)))"

definition proof_to_wire :: "zk_proof \<Rightarrow> wire_proof" where
  "proof_to_wire p =
     \<lparr>wire_proof_type = proof_type_to_i32 (proof_type p),
      wire_proof_bytes = proof_bytes p,
      wire_public_inputs = public_inputs p,
      wire_verification_key = verification_key p\<rparr>"

definition proof_from_wire :: "wire_proof \<Rightarrow> zk_proof res" where
  "proof_from_wire w =
     bind_res (proof_type_try_from (wire_proof_type w)) (\<lambda>t.
       Inr \<lparr>proof_type = t, proof_bytes = wire_proof_bytes w,
            public_inputs = wire_public_inputs w,
            verification_key = wire_verification_key w\<rparr>)"

text \<open>
  The three buffers of a proof are alive in one address space, so their lengths add up to
  less than half of it; no sum in \<open>encoded_len\<close> wraps around then.
\<close>

definition in_memory :: "zk_proof \<Rightarrow> bool" where
  "in_memory p \<longleftrightarrow>
     length (proof_bytes p) + length (public_inputs p) + length (verification_key p)
       < usize_bound div 2"

section \<open>The identifier\<close>

lemma id_preimage_inject:
  assumes "length ph = 32" "length ih = 32" "length ph' = 32" "length ih' = 32"
  shows "id_preimage t ph ih kh = id_preimage t' ph' ih' kh' \<longleftrightarrow>
           t = t' \<and> ph = ph' \<and> ih = ih' \<and> kh = kh'"
proof -
  have "u32_to_be_bytes (proof_type_to_u32 t) = u32_to_be_bytes (proof_type_to_u32 t') \<longleftrightarrow> t = t'"
    by (cases t; cases t') (simp_all add: proof_type_to_u32_def u32_to_be_bytes_def)
  then show ?thesis using assms by (simp add: id_preimage_def)
qed

lemma verification_id_wf: "sha256_len X \<Longrightarrow> length (as_bytes (verification_id X p)) = 32"
  by (simp add: verification_id_def from_component_hashes_def)

text \<open>The messages hashed to compute the identifier of a proof.\<close>

definition hashed_messages :: "'x externs_scheme \<Rightarrow> zk_proof \<Rightarrow> bytes set" where
  "hashed_messages X p =
     {id_preimage (proof_type p) (sha256 X (proof_bytes p)) (sha256 X (public_inputs p))
        (sha256 X (verification_key p)),
      proof_bytes p, public_inputs p, verification_key p}"

lemma zk_proof_eqI:
  fixes p q :: zk_proof
  assumes "proof_type p = proof_type q" "proof_bytes p = proof_bytes q"
    "public_inputs p = public_inputs q" "verification_key p = verification_key q"
  shows "p = q"
  using assms by simp

text \<open>
  C25. The identifier binds the proof: two different proofs with the same identifier exhibit
  a collision of SHA-256 among the messages hashed for them. So whoever finds different
  content for an identifier has broken the hash function.
\<close>

theorem verification_id_binding:
  fixes p q :: zk_proof
  assumes sha: "sha256_len X"
    and same: "verification_id X p = verification_id X q"
    and diff: "p \<noteq> q"
  shows "\<exists>m \<in> hashed_messages X p. \<exists>m' \<in> hashed_messages X q. m \<noteq> m' \<and> sha256 X m = sha256 X m'"
proof -
  let ?pre = "\<lambda>p. id_preimage (proof_type p) (sha256 X (proof_bytes p)) (sha256 X (public_inputs p))
        (sha256 X (verification_key p))"
  have eq: "sha256 X (?pre p) = sha256 X (?pre q)"
    using same by (simp add: verification_id_def from_component_hashes_def)
  show ?thesis
  proof (cases "?pre p = ?pre q")
    case False
    with eq show ?thesis by (auto simp: hashed_messages_def)
  next
    case True
    then have "proof_type p = proof_type q"
      and "sha256 X (proof_bytes p) = sha256 X (proof_bytes q)"
      and "sha256 X (public_inputs p) = sha256 X (public_inputs q)"
      and "sha256 X (verification_key p) = sha256 X (verification_key q)"
      using sha by (simp_all add: id_preimage_inject)
    with diff show ?thesis by (auto simp: hashed_messages_def intro!: zk_proof_eqI)
  qed
qed

theorem verification_id_binding_witness:
  "\<exists>(X :: externs) (p :: zk_proof) q. sha256_len X \<and> verification_id X p = verification_id X q \<and> p \<noteq> q \<and>
     (\<exists>m \<in> hashed_messages X p. \<exists>m' \<in> hashed_messages X q. m \<noteq> m' \<and> sha256 X m = sha256 X m')"
proof -
  let ?X = "demo_externs\<lparr>sha256 := \<lambda>_. replicate 32 7\<rparr>"
  let ?p = "\<lparr>proof_type = MinaPickles, proof_bytes = [1], public_inputs = [2], verification_key = [3]\<rparr>"
  let ?q = "\<lparr>proof_type = MinaPickles, proof_bytes = [9], public_inputs = [2], verification_key = [3]\<rparr>"
  have h: "sha256_len ?X" "verification_id ?X ?p = verification_id ?X ?q" "?p \<noteq> ?q"
    by (simp_all add: sha256_len_def verification_id_def from_component_hashes_def id_preimage_def)
  show ?thesis using h verification_id_binding [OF h] by blast
qed

section \<open>Conversions\<close>

lemma proof_type_try_from_Inr [simp]:
  "proof_type_try_from v = Inr t \<longleftrightarrow> v = proof_type_to_i32 t"
  by (cases t) (auto simp: proof_type_try_from_def proof_type_to_i32_def)

lemma proof_type_to_i32_range: "proof_type_to_i32 t \<in> {1, 2}"
  by (cases t) (auto simp: proof_type_to_i32_def)

lemma verification_id_try_from_Inr [simp]:
  "verification_id_try_from b = Inr i \<longleftrightarrow> as_bytes i = b \<and> length b = 32"
  by (cases i) (auto simp: verification_id_try_from_def VERIFICATION_ID_LEN_def)

text \<open>
  The wire conversion is a round trip: decoding an encoded proof gives it back, and a
  message decodes exactly when it is the encoding of the proof it decodes to, so a message
  with an unknown proof type is never read as a proof.
\<close>

lemma wire_round_trip:
  "proof_from_wire (proof_to_wire p) = Inr p \<and>
   (proof_from_wire w = Inr q \<longleftrightarrow> w = proof_to_wire q) \<and>
   (proof_from_wire w = Inl e \<longleftrightarrow>
      wire_proof_type w \<notin> {1, 2} \<and> e = UnsupportedProofType (wire_proof_type w))"
proof (intro conjI)
  show "proof_from_wire (proof_to_wire p) = Inr p"
    by (cases "proof_type p")
       (simp_all add: proof_from_wire_def proof_to_wire_def proof_type_try_from_def
          proof_type_to_i32_def zk_proof_eqI)
  show "proof_from_wire w = Inr q \<longleftrightarrow> w = proof_to_wire q"
    by (cases w; cases q) (auto simp: proof_from_wire_def proof_to_wire_def bind_res_Inr_iff)
  show "proof_from_wire w = Inl e \<longleftrightarrow>
      wire_proof_type w \<notin> {1, 2} \<and> e = UnsupportedProofType (wire_proof_type w)"
    by (auto simp: proof_from_wire_def proof_type_try_from_def)
qed

section \<open>Sizes\<close>

lemma encoded_bytes_len_exact:
  assumes "varint_len X" "length b < usize_bound div 2"
  shows "encoded_bytes_len X b = wire_field_len X b"
proof -
  have "1 + encoded_len_varint X (length b) + length b < usize_bound"
    using varint_len_le [OF assms(1), of "length b"] assms(2) by (simp add: word_bounds)
  then show ?thesis
    by (simp add: encoded_bytes_len_def wire_field_len_def wrapping_add_usize_exact)
qed

lemma wire_field_len_bounds:
  assumes "varint_len X"
  shows "length b \<le> wire_field_len X b" and "wire_field_len X b \<le> length b + 11"
  using varint_len_le [OF assms, of "length b"] by (auto simp: wire_field_len_def)

lemma encoded_len_exact:
  assumes X: "varint_len X" and mem: "in_memory p"
  shows "encoded_len X p =
    2 + wire_field_len X (proof_bytes p) + wire_field_len X (public_inputs p)
      + wire_field_len X (verification_key p)"
proof -
  let ?a = "wire_field_len X (proof_bytes p)"
  let ?b = "wire_field_len X (public_inputs p)"
  let ?c = "wire_field_len X (verification_key p)"
  have "?a \<le> length (proof_bytes p) + 11" "?b \<le> length (public_inputs p) + 11"
    "?c \<le> length (verification_key p) + 11"
    using wire_field_len_bounds(2) [OF X] by blast+
  then have "2 + ?a + ?b + ?c < usize_bound"
    using mem by (simp add: in_memory_def word_bounds)
  then show ?thesis
    using mem X unfolding encoded_len_def in_memory_def
    by (simp add: encoded_bytes_len_exact wrapping_add_usize_exact)
qed

lemma encoded_len_wire:
  assumes "varint_len X" "wire_proof_len X" "in_memory p"
  shows "wire_proof_encoded_len X (proof_to_wire p) = encoded_len X p"
  using assms(2) varint_len_small [OF assms(1)] proof_type_to_i32_range [of "proof_type p"]
  by (auto simp: wire_proof_len_def encoded_len_exact [OF assms(1,3)] proof_to_wire_def)

text \<open>
  C40. The size computed before a proof is accepted is the size prost gives to its message:
  the limits of the store, the submission service and the exchange protocol measure
  the same quantity, and it is at least the payload that the cache charges for.
\<close>

theorem encoded_len_is_wire_len:
  assumes X: "varint_len X" "wire_proof_len X" and mem: "in_memory p"
  shows "encoded_len X p = wire_proof_encoded_len X (proof_to_wire p) \<and>
         (\<exists>n. payload_len p = Some n \<and> n < encoded_len X p)"
proof
  show "encoded_len X p = wire_proof_encoded_len X (proof_to_wire p)"
    using encoded_len_wire [OF X mem] by simp
  have "payload_len p = Some
      (length (proof_bytes p) + length (public_inputs p) + length (verification_key p))"
    using mem by (auto simp: payload_len_def in_memory_def word_bounds checked_add_usize_def)
  moreover have "length (proof_bytes p) + length (public_inputs p) + length (verification_key p)
      < encoded_len X p"
    using wire_field_len_bounds(1) [OF X(1), of "proof_bytes p"]
      wire_field_len_bounds(1) [OF X(1), of "public_inputs p"]
      wire_field_len_bounds(1) [OF X(1), of "verification_key p"]
    unfolding encoded_len_exact [OF X(1) mem] by linarith
  ultimately show "\<exists>n. payload_len p = Some n \<and> n < encoded_len X p" by blast
qed

definition demo_proof :: zk_proof where
  "demo_proof = \<lparr>proof_type = NoirBarretenberg, proof_bytes = replicate 32 1, public_inputs = [],
      verification_key = [7]\<rparr>"

lemma demo_proof_in_memory: "in_memory demo_proof"
  by (simp add: demo_proof_def in_memory_def word_bounds)

theorem encoded_len_is_wire_len_witness:
  "varint_len demo_externs \<and> wire_proof_len demo_externs \<and> in_memory demo_proof \<and>
   encoded_len demo_externs demo_proof = 39 \<and>
   wire_proof_encoded_len demo_externs (proof_to_wire demo_proof) = 39 \<and>
   payload_len demo_proof = Some 33"
proof -
  have e: "encoded_len demo_externs demo_proof = 39"
    by (simp add: encoded_len_def encoded_bytes_len_def demo_proof_def wrapping_add_usize_def
        usize_bound_def)
  have l: "payload_len demo_proof = Some 33"
    by (simp add: payload_len_def demo_proof_def checked_add_usize_def usize_bound_def)
  show ?thesis
    using encoded_len_is_wire_len [OF demo_externs_ok(2,3) demo_proof_in_memory]
      demo_externs_ok demo_proof_in_memory e l by simp
qed

end
