(* ===== verification/Proof_Store.thy ===== *)
theory Proof_Store
  imports Config Proof_Identity
begin

text \<open>
  \<open>src/store/\<close>: the process-local store of verification records. Its state is the content of the
  Moka cache, and every operation is one atomic \<open>and_try_compute_with\<close> on the entry of one
  identifier followed by the publication of events. An operation takes the store and returns the
  new store, the events it publishes in order, and its result. Moka's eviction of an entry is
  a step of its own, since it may happen between any two operations.
\<close>

section \<open>Failure diagnostics (\<open>src/store/record.rs\<close>)\<close>

definition FAILURE_CODE_MAX_BYTES :: nat where "FAILURE_CODE_MAX_BYTES = 64"

definition FAILURE_MESSAGE_MAX_BYTES :: nat where "FAILURE_MESSAGE_MAX_BYTES = 256"

definition is_ascii_lowercase :: "char \<Rightarrow> bool" where
  "is_ascii_lowercase c \<longleftrightarrow> 97 \<le> (of_char c :: nat) \<and> (of_char c :: nat) \<le> 122"

definition is_ascii_digit :: "char \<Rightarrow> bool" where
  "is_ascii_digit c \<longleftrightarrow> 48 \<le> (of_char c :: nat) \<and> (of_char c :: nat) \<le> 57"

definition failure_code_chars :: "string \<Rightarrow> bool" where
  "failure_code_chars code \<longleftrightarrow>
     list_all (\<lambda>(i, c). is_ascii_lowercase c \<or> (0 < i \<and> (is_ascii_digit c \<or> c = CHR ''_'')))
       (enumerate 0 code)"

definition verification_failure_new :: "string \<Rightarrow> string \<Rightarrow> bool \<Rightarrow> verification_failure res" where
  "verification_failure_new code msg retryable =
     (if code = [] \<or> length code > FAILURE_CODE_MAX_BYTES
      then Inl (InvalidVerificationFailure
        (''code must contain 1 to '' @ show_nat FAILURE_CODE_MAX_BYTES @ '' bytes''))
      else if \<not> failure_code_chars code
      then Inl (InvalidVerificationFailure ''code must start with a lowercase ASCII letter and contain only lowercase ASCII letters, digits, or underscores'')
      else if length msg > FAILURE_MESSAGE_MAX_BYTES
      then Inl (InvalidVerificationFailure
        (''message must contain at most '' @ show_nat FAILURE_MESSAGE_MAX_BYTES @ '' bytes''))
      else Inr \<lparr>failure_code = code, failure_message = msg, failure_retryable = retryable\<rparr>)"

text \<open>What the constructor guarantees of every failure, whose fields are private in Rust.\<close>

definition failure_ok :: "verification_failure \<Rightarrow> bool" where
  "failure_ok f \<longleftrightarrow>
     failure_code f \<noteq> [] \<and> length (failure_code f) \<le> FAILURE_CODE_MAX_BYTES
     \<and> failure_code_chars (failure_code f)
     \<and> length (failure_message f) \<le> FAILURE_MESSAGE_MAX_BYTES"

lemma verification_failure_new_Inr:
  "verification_failure_new c m r = Inr f \<longleftrightarrow>
     failure_ok f \<and> f = \<lparr>failure_code = c, failure_message = m, failure_retryable = r\<rparr>"
  unfolding verification_failure_new_def if_Inl_Inr_iff failure_ok_def by auto

section \<open>The cache\<close>

text \<open>
  \<open>moka::ops::compute\<close>: what a closure decides for an entry, and what the cache reports back.
\<close>

datatype 'v op = Put 'v | Remove | Nop

datatype 'v comp_result =
    Inserted 'v
  | ReplacedWith 'v
  | Removed 'v
  | Unchanged 'v
  | StillNone

datatype removal_cause = CauseExpired | CauseExplicit | CauseReplaced | CauseSize

type_synonym cache = "verification_id \<rightharpoonup> proof_record arc"

text \<open>
  Moka is outside the repository: its operations on the cache content are parameters.
  \<open>cache_invalidate\<close> returns the notifications it gives to the eviction listener.
\<close>

record store_externs = externs +
  cache_get :: "cache \<Rightarrow> verification_id \<Rightarrow> proof_record arc option"
  and_try_compute_with ::
    "cache \<Rightarrow> verification_id \<Rightarrow> (proof_record arc option \<Rightarrow> proof_record arc op res)
      \<Rightarrow> cache \<times> proof_record arc comp_result res"
  cache_iter :: "cache \<Rightarrow> (verification_id \<times> proof_record arc) list"
  cache_invalidate :: "cache \<Rightarrow> verification_id \<Rightarrow> cache \<times> (verification_id \<times> removal_cause) list"

text \<open>
  The documented behaviour of these operations: \<open>get\<close> returns the entry; a compute operation runs the closure on the
  current entry and applies its decision to that entry alone, an error leaves the cache as it
  was; the iterator visits each entry once; an explicit invalidation removes the entry
  and reports it.
\<close>

definition moka_get :: "'x store_externs_scheme \<Rightarrow> bool" where
  "moka_get X \<longleftrightarrow> (\<forall>m k. cache_get X m k = m k)"

definition moka_compute :: "'x store_externs_scheme \<Rightarrow> bool" where
  "moka_compute X \<longleftrightarrow> (\<forall>m k f. and_try_compute_with X m k f =
     (case f (m k) of
        Inl e \<Rightarrow> (m, Inl e)
      | Inr (Put v) \<Rightarrow> (m(k \<mapsto> v), Inr (case m k of None \<Rightarrow> Inserted v | Some _ \<Rightarrow> ReplacedWith v))
      | Inr Remove \<Rightarrow> (m(k := None), Inr (case m k of None \<Rightarrow> StillNone | Some v \<Rightarrow> Removed v))
      | Inr Nop \<Rightarrow> (m, Inr (case m k of None \<Rightarrow> StillNone | Some v \<Rightarrow> Unchanged v))))"

definition moka_iter :: "'x store_externs_scheme \<Rightarrow> bool" where
  "moka_iter X \<longleftrightarrow> (\<forall>m. finite (dom m) \<longrightarrow>
     distinct (map fst (cache_iter X m)) \<and> (\<forall>k v. (k, v) \<in> set (cache_iter X m) \<longleftrightarrow> m k = Some v))"

definition moka_invalidate :: "'x store_externs_scheme \<Rightarrow> bool" where
  "moka_invalidate X \<longleftrightarrow> (\<forall>m k. cache_invalidate X m k =
     (m(k := None), case m k of None \<Rightarrow> [] | Some _ \<Rightarrow> [(k, CauseExplicit)]))"

definition moka :: "'x store_externs_scheme \<Rightarrow> bool" where
  "moka X \<longleftrightarrow> moka_get X \<and> moka_compute X \<and> moka_iter X \<and> moka_invalidate X"

section \<open>The store and its operations (\<open>src/store/mod.rs\<close>)\<close>

text \<open>
  \<open>next_ptr\<close> numbers the allocations of \<open>Arc::new\<close>: an operation allocates at most
  once, and never reuses a number. \<open>terminal_expiry\<close> is the retention held by the cache's expiry policy.
\<close>

record store =
  records :: cache
  next_ptr :: nat
  max_proof_bytes :: nat
  terminal_expiry :: duration

definition METADATA_WEIGHT_BYTES :: nat where "METADATA_WEIGHT_BYTES = 256"

definition store_new :: "proof_store_config \<Rightarrow> store res" where
  "store_new c =
     (if max_capacity_bytes c = 0 \<or> config_max_proof_bytes c = 0 \<or> terminal_retention c = 0
         \<or> store_event_buffer c = 0
      then Inl (ProofStoreError ''capacity, proof limit, retention, and event buffer must be positive'')
      else if config_max_proof_bytes c > max_capacity_bytes c
      then Inl (ProofStoreError ''maximum proof size must not exceed cache capacity'')
      else
        let maximum_weight =
          Option.bind (u32_try_from (config_max_proof_bytes c)) (\<lambda>w.
          Option.bind (checked_add_u32 w METADATA_WEIGHT_BYTES) (\<lambda>w.
          Option.bind (checked_add_usize FAILURE_CODE_MAX_BYTES FAILURE_MESSAGE_MAX_BYTES) (\<lambda>f.
          Option.bind (u32_try_from f) (\<lambda>f. checked_add_u32 w f))))
        in if maximum_weight = None
        then Inl (ProofStoreError ''maximum proof size exceeds Moka's per-entry weight range'')
        else Inr \<lparr>records = Map.empty, next_ptr = 0, max_proof_bytes = config_max_proof_bytes c,
                  terminal_expiry = terminal_retention c\<rparr>)"

text \<open>The closure given to Moka's eviction listener: the events of one removal.\<close>

definition eviction_listener :: "verification_id \<Rightarrow> removal_cause \<Rightarrow> proof_store_event list" where
  "eviction_listener i cause =
     (case cause of
        CauseExpired \<Rightarrow> [ProofEvicted i EvictExpired]
      | CauseExplicit \<Rightarrow> [ProofEvicted i EvictExplicit]
      | CauseSize \<Rightarrow> [ProofEvicted i EvictSize]
      | CauseReplaced \<Rightarrow> [])"

definition store_change :: "proof_record arc comp_result \<Rightarrow> store_change" where
  "store_change r =
     (case r of
        Inserted _ \<Rightarrow> ChangeInserted
      | ReplacedWith _ \<Rightarrow> ChangeUpdated
      | Unchanged _ \<Rightarrow> ChangeUnchanged
      | StillNone \<Rightarrow> ChangeUnchanged
      | Removed _ \<Rightarrow> ChangeUnchanged)"

definition result_state :: "proof_record arc comp_result \<Rightarrow> verification_state option" where
  "result_state r =
     (case r of
        Inserted a \<Rightarrow> verification (metadata (arc_val a))
      | ReplacedWith a \<Rightarrow> verification (metadata (arc_val a))
      | Unchanged a \<Rightarrow> verification (metadata (arc_val a))
      | StillNone \<Rightarrow> None
      | Removed _ \<Rightarrow> None)"

definition queue_if_ready :: "proof_record \<Rightarrow> proof_record" where
  "queue_if_ready r =
     (if chain_observed_at (metadata r) \<noteq> None \<and> record_proof r \<noteq> None
         \<and> verification (metadata r) = None
      then r\<lparr>metadata := (metadata r)\<lparr>verification := Some Queued\<rparr>\<rparr>
      else r)"

text \<open>\<open>None\<close> is a panic of one of the three \<open>expect\<close> calls.\<close>

definition proof_weight :: "proof_record \<Rightarrow> nat option" where
  "proof_weight r =
     Option.bind (case record_proof r of None \<Rightarrow> Some 0 | Some p \<Rightarrow> payload_len p) (\<lambda>payload.
     let failure = (case verification (metadata r) of
           Some (Failed f) \<Rightarrow> length (failure_code f) + length (failure_message f)
         | _ \<Rightarrow> 0) in
     Option.bind (u32_try_from payload) (\<lambda>p.
     Option.bind (checked_add_u32 p METADATA_WEIGHT_BYTES) (\<lambda>w.
     Option.bind (u32_try_from failure) (\<lambda>f. checked_add_u32 w f))))"

definition validate_proof :: "'x store_externs_scheme \<Rightarrow> store \<Rightarrow> verification_id \<Rightarrow> zk_proof \<Rightarrow> unit res" where
  "validate_proof X s expected p =
     (let actual = encoded_len X p in
      if actual > max_proof_bytes s then Inl (ProofTooLarge expected actual (max_proof_bytes s))
      else if verification_id X p \<noteq> expected then Inl (VerificationIdMismatch expected)
      else Inr ())"

text \<open>One atomic update of the entry of \<open>i\<close>; the closure may allocate with the next pointer.\<close>

definition compute ::
  "'x store_externs_scheme \<Rightarrow> store \<Rightarrow> verification_id
    \<Rightarrow> (nat \<Rightarrow> proof_record arc option \<Rightarrow> proof_record arc op res)
    \<Rightarrow> store \<times> proof_record arc comp_result res" where
  "compute X s i f =
     (let (m, r) = and_try_compute_with X (records s) i (f (next_ptr s))
      in (s\<lparr>records := m, next_ptr := Suc (next_ptr s)\<rparr>, r))"

definition observe_entry ::
  "instant \<Rightarrow> nat \<Rightarrow> proof_record arc option \<Rightarrow> proof_record arc op res" where
  "observe_entry observed_at ptr entry =
     (case entry of
        None \<Rightarrow> Inr (Put (Arc ptr
          \<lparr>metadata = \<lparr>chain_observed_at = Some observed_at, content_source = None,
             content_stored_at = None, verification = None, completed_at = None\<rparr>,
           record_proof = None\<rparr>))
      | Some a \<Rightarrow>
          let current = arc_val a in
          if chain_observed_at (metadata current) \<noteq> None then Inr Nop
          else Inr (Put (Arc ptr (queue_if_ready
            (current\<lparr>metadata := (metadata current)\<lparr>chain_observed_at := Some observed_at\<rparr>\<rparr>)))))"

definition publish_stored ::
  "proof_store_event \<Rightarrow> verification_id \<Rightarrow> proof_record arc comp_result \<Rightarrow> proof_store_event list" where
  "publish_stored e i r =
     (if store_change r \<noteq> ChangeUnchanged
      then e # (if result_state r = Some Queued then [VerificationChanged i Queued] else [])
      else [])"

definition observe_chain_verification ::
  "'x store_externs_scheme \<Rightarrow> instant \<Rightarrow> store \<Rightarrow> verification_id
    \<Rightarrow> store \<times> proof_store_event list \<times> store_change res" where
  "observe_chain_verification X now s i =
     (case compute X s i (observe_entry now) of
        (s', Inl e) \<Rightarrow> (s', [], Inl e)
      | (s', Inr r) \<Rightarrow> (s', publish_stored (VerificationObserved i) i r, Inr (store_change r)))"

definition with_content :: "zk_proof \<Rightarrow> proof_source \<Rightarrow> instant \<Rightarrow> proof_record \<Rightarrow> proof_record" where
  "with_content p source stored_at r =
     r\<lparr>record_proof := Some p,
       metadata := (metadata r)\<lparr>content_source := Some source, content_stored_at := Some stored_at\<rparr>\<rparr>"

definition insert_entry ::
  "zk_proof \<Rightarrow> proof_source \<Rightarrow> instant \<Rightarrow> nat \<Rightarrow> proof_record arc option \<Rightarrow> proof_record arc op res" where
  "insert_entry p source stored_at ptr entry =
     (case entry of
        None \<Rightarrow> Inr (Put (Arc ptr
          \<lparr>metadata = \<lparr>chain_observed_at = None, content_source = Some source,
             content_stored_at = Some stored_at, verification = None, completed_at = None\<rparr>,
           record_proof = Some p\<rparr>))
      | Some a \<Rightarrow>
          if record_proof (arc_val a) \<noteq> None then Inr Nop
          else Inr (Put (Arc ptr (queue_if_ready (with_content p source stored_at (arc_val a))))))"

definition insert_local_proof ::
  "'x store_externs_scheme \<Rightarrow> instant \<Rightarrow> store \<Rightarrow> zk_proof \<Rightarrow> proof_source
    \<Rightarrow> store \<times> proof_store_event list \<times> (verification_id \<times> store_change) res" where
  "insert_local_proof X now s p source =
     (let i = verification_id X p in
      case validate_proof X s i p of
        Inl e \<Rightarrow> (s, [], Inl e)
      | Inr _ \<Rightarrow>
          (case compute X s i (insert_entry p source now) of
             (s', Inl e) \<Rightarrow> (s', [], Inl e)
           | (s', Inr r) \<Rightarrow> (s', publish_stored (ProofStored i source) i r, Inr (i, store_change r))))"

definition attach_entry ::
  "verification_id \<Rightarrow> zk_proof \<Rightarrow> proof_source \<Rightarrow> instant \<Rightarrow> nat \<Rightarrow> proof_record arc option
    \<Rightarrow> proof_record arc op res" where
  "attach_entry expected p source stored_at ptr entry =
     (case entry of
        None \<Rightarrow> Inl (ProofNotObserved expected)
      | Some a \<Rightarrow>
          if chain_observed_at (metadata (arc_val a)) = None then Inl (ProofNotObserved expected)
          else if record_proof (arc_val a) \<noteq> None then Inr Nop
          else Inr (Put (Arc ptr (queue_if_ready (with_content p source stored_at (arc_val a))))))"

definition attach_downloaded_proof ::
  "'x store_externs_scheme \<Rightarrow> instant \<Rightarrow> store \<Rightarrow> verification_id \<Rightarrow> zk_proof \<Rightarrow> peer_id
    \<Rightarrow> store \<times> proof_store_event list \<times> store_change res" where
  "attach_downloaded_proof X now s expected p peer =
     (case validate_proof X s expected p of
        Inl e \<Rightarrow> (s, [], Inl e)
      | Inr _ \<Rightarrow>
          (case compute X s expected (attach_entry expected p (Peer peer) now) of
             (s', Inl e) \<Rightarrow> (s', [], Inl e)
           | (s', Inr r) \<Rightarrow>
               (s', publish_stored (ProofStored expected (Peer peer)) expected r, Inr (store_change r))))"

definition store_get ::
  "'x store_externs_scheme \<Rightarrow> store \<Rightarrow> verification_id \<Rightarrow> proof_record arc option" where
  "store_get X s i = cache_get X (records s) i"

definition get_proof :: "'x store_externs_scheme \<Rightarrow> store \<Rightarrow> verification_id \<Rightarrow> zk_proof option" where
  "get_proof X s i = Option.bind (store_get X s i) (\<lambda>a. record_proof (arc_val a))"

definition begin_entry :: "nat \<Rightarrow> proof_record arc option \<Rightarrow> proof_record arc op res" where
  "begin_entry ptr entry =
     (case entry of
        None \<Rightarrow> Inr Nop
      | Some a \<Rightarrow>
          let current = arc_val a in
          if chain_observed_at (metadata current) = None \<or> record_proof current = None
             \<or> verification (metadata current) \<noteq> Some Queued
          then Inr Nop
          else Inr (Put (Arc ptr
            (current\<lparr>metadata := (metadata current)\<lparr>verification := Some Verifying\<rparr>\<rparr>))))"

definition begin_verification ::
  "'x store_externs_scheme \<Rightarrow> store \<Rightarrow> verification_id
    \<Rightarrow> store \<times> proof_store_event list \<times> verification_job option res" where
  "begin_verification X s i =
     (case compute X s i begin_entry of
        (s', Inl e) \<Rightarrow> (s', [], Inl e)
      | (s', Inr (ReplacedWith claim)) \<Rightarrow>
          (case record_proof (arc_val claim) of
             None \<Rightarrow> (s', [], Inl (InvalidVerificationTransition i ClaimedWithoutProof))
           | Some p \<Rightarrow>
               (s', [VerificationChanged i Verifying],
                Inr (Some \<lparr>job_id = i, job_proof = p, job_claim = claim\<rparr>)))
      | (s', Inr _) \<Rightarrow> (s', [], Inr None))"

definition outcome_state :: "verification_outcome \<Rightarrow> verification_state" where
  "outcome_state oc =
     (case oc of OutcomeCompleted v \<Rightarrow> Completed v | OutcomeFailed f \<Rightarrow> Failed f)"

definition finish_entry ::
  "verification_job \<Rightarrow> verification_state \<Rightarrow> instant option \<Rightarrow> nat \<Rightarrow> proof_record arc option
    \<Rightarrow> proof_record arc op res" where
  "finish_entry job committed done_at ptr entry =
     (case entry of
        None \<Rightarrow> Inr Nop
      | Some a \<Rightarrow>
          if arc_ptr a \<noteq> arc_ptr (job_claim job) then Inr Nop
          else let current = arc_val a in
          if verification (metadata current) \<noteq> Some Verifying
          then Inl (InvalidVerificationTransition (job_id job)
                 (ExpectedVerifying (verification (metadata current))))
          else Inr (Put (Arc ptr (current\<lparr>metadata :=
                 (metadata current)\<lparr>verification := Some committed, completed_at := done_at\<rparr>\<rparr>))))"

definition finish_verification ::
  "'x store_externs_scheme \<Rightarrow> instant \<Rightarrow> store \<Rightarrow> verification_job \<Rightarrow> verification_outcome
    \<Rightarrow> store \<times> proof_store_event list \<times> store_change res" where
  "finish_verification X now s job oc =
     (let nxt = outcome_state oc;
          done_at = (case nxt of Completed _ \<Rightarrow> Some now | _ \<Rightarrow> None)
      in case compute X s (job_id job) (finish_entry job nxt done_at) of
        (s', Inl e) \<Rightarrow> (s', [], Inl e)
      | (s', Inr r) \<Rightarrow>
          (s', if store_change r \<noteq> ChangeUnchanged then [VerificationChanged (job_id job) nxt] else [],
           Inr (store_change r)))"

definition retry_entry ::
  "verification_id \<Rightarrow> nat \<Rightarrow> proof_record arc option \<Rightarrow> proof_record arc op res" where
  "retry_entry i ptr entry =
     (case entry of
        None \<Rightarrow> Inl (InvalidVerificationTransition i RecordMissing)
      | Some a \<Rightarrow>
          let current = arc_val a;
              put = Inr (Put (Arc ptr (current\<lparr>metadata :=
                 (metadata current)\<lparr>verification := Some Queued, completed_at := None\<rparr>\<rparr>)));
              err = Inl (InvalidVerificationTransition i
                 (ExpectedRetryableFailed (verification (metadata current))))
          in case verification (metadata current) of
               Some (Failed f) \<Rightarrow> if failure_retryable f then put else err
             | Some Queued \<Rightarrow> Inr Nop
             | _ \<Rightarrow> err)"

definition retry_verification ::
  "'x store_externs_scheme \<Rightarrow> store \<Rightarrow> verification_id
    \<Rightarrow> store \<times> proof_store_event list \<times> store_change res" where
  "retry_verification X s i =
     (case compute X s i (retry_entry i) of
        (s', Inl e) \<Rightarrow> (s', [], Inl e)
      | (s', Inr r) \<Rightarrow>
          (s', if store_change r \<noteq> ChangeUnchanged then [VerificationChanged i Queued] else [],
           Inr (store_change r)))"

definition status_of :: "proof_record arc option \<Rightarrow> verification_status" where
  "status_of entry =
     (case entry of
        None \<Rightarrow> StatusUnavailable
      | Some a \<Rightarrow>
          (case verification (metadata (arc_val a)) of
             None \<Rightarrow> StatusUnavailable
           | Some Queued \<Rightarrow> StatusQueued
           | Some Verifying \<Rightarrow> StatusVerifying
           | Some (Completed v) \<Rightarrow> StatusCompleted v
           | Some (Failed f) \<Rightarrow> StatusFailed f))"

definition statuses ::
  "'x store_externs_scheme \<Rightarrow> store \<Rightarrow> verification_id list \<Rightarrow> stored_status list" where
  "statuses X s is = map (\<lambda>i. \<lparr>status_id = i, status = status_of (store_get X s i)\<rparr>) is"

fun completed_results ::
  "'x store_externs_scheme \<Rightarrow> store \<Rightarrow> verification_id list \<Rightarrow> completed_verification list" where
  "completed_results X s [] = []"
| "completed_results X s (i # is) =
     (case store_get X s i of
        None \<Rightarrow> completed_results X s is
      | Some a \<Rightarrow>
          (case verification (metadata (arc_val a)) of
             Some (Completed v) \<Rightarrow>
               \<lparr>completed_id = i, completed_verdict = v\<rparr> # completed_results X s is
           | _ \<Rightarrow> completed_results X s is))"

definition invalidate ::
  "'x store_externs_scheme \<Rightarrow> store \<Rightarrow> verification_id \<Rightarrow> store \<times> proof_store_event list" where
  "invalidate X s i =
     (let (m, ns) = cache_invalidate X (records s) i
      in (s\<lparr>records := m\<rparr>, concat (map (\<lambda>(k, c). eviction_listener k c) ns)))"

definition snapshot ::
  "'x store_externs_scheme \<Rightarrow> store \<Rightarrow> (proof_record \<Rightarrow> bool) \<Rightarrow> stored_proof list" where
  "snapshot X s P =
     map (\<lambda>(i, a). \<lparr>stored_id = i, stored_record = a\<rparr>)
       (filter (\<lambda>(i, a). P (arc_val a)) (cache_iter X (records s)))"

definition waiting_for_content :: "proof_record \<Rightarrow> bool" where
  "waiting_for_content r \<longleftrightarrow> chain_observed_at (metadata r) \<noteq> None \<and> record_proof r = None"

definition ready_for_verification :: "proof_record \<Rightarrow> bool" where
  "ready_for_verification r \<longleftrightarrow>
     chain_observed_at (metadata r) \<noteq> None \<and> record_proof r \<noteq> None
     \<and> verification (metadata r) = Some Queued"

definition records_waiting_for_content :: "'x store_externs_scheme \<Rightarrow> store \<Rightarrow> stored_proof list" where
  "records_waiting_for_content X s = snapshot X s waiting_for_content"

definition records_ready_for_verification :: "'x store_externs_scheme \<Rightarrow> store \<Rightarrow> stored_proof list" where
  "records_ready_for_verification X s = snapshot X s ready_for_verification"

definition locally_available_proofs :: "'x store_externs_scheme \<Rightarrow> store \<Rightarrow> stored_proof list" where
  "locally_available_proofs X s = snapshot X s (\<lambda>r. record_proof r \<noteq> None)"

section \<open>Retention (\<open>src/store/expiry.rs\<close>)\<close>

text \<open>\<open>None\<close> is an entry that does not expire.\<close>

definition expiry_duration :: "duration \<Rightarrow> proof_record \<Rightarrow> duration option" where
  "expiry_duration retention r =
     (case verification (metadata r) of Some (Completed _) \<Rightarrow> Some retention | _ \<Rightarrow> None)"

definition expire_after_create :: "duration \<Rightarrow> proof_record \<Rightarrow> duration option" where
  "expire_after_create retention r = expiry_duration retention r"

definition expire_after_read :: "duration option \<Rightarrow> duration option" where
  "expire_after_read until_expiry = until_expiry"

definition expire_after_update :: "duration \<Rightarrow> proof_record \<Rightarrow> duration option \<Rightarrow> duration option" where
  "expire_after_update retention r until_expiry = expiry_duration retention r"

section \<open>One operation on one entry\<close>

lemma mokaD:
  assumes "moka X"
  shows moka_getD: "store_get X s i = records s i"
    and moka_invalidateD: "invalidate X s i =
      (s\<lparr>records := (records s)(i := None)\<rparr>,
       case records s i of None \<Rightarrow> [] | Some _ \<Rightarrow> [ProofEvicted i EvictExplicit])"
  using assms
  by (auto simp: moka_def moka_get_def moka_invalidate_def store_get_def invalidate_def
      eviction_listener_def split: option.splits)

text \<open>The store after an operation that replaces the entry of \<open>i\<close>, and after one that does not.\<close>

definition put_record :: "store \<Rightarrow> verification_id \<Rightarrow> proof_record \<Rightarrow> store" where
  "put_record s i r =
     s\<lparr>records := (records s)(i \<mapsto> Arc (next_ptr s) r), next_ptr := Suc (next_ptr s)\<rparr>"

definition skip_record :: "store \<Rightarrow> store" where
  "skip_record s = s\<lparr>next_ptr := Suc (next_ptr s)\<rparr>"

definition put_result :: "store \<Rightarrow> verification_id \<Rightarrow> proof_record \<Rightarrow> proof_record arc comp_result" where
  "put_result s i r =
     (case records s i of
        None \<Rightarrow> Inserted (Arc (next_ptr s) r)
      | Some _ \<Rightarrow> ReplacedWith (Arc (next_ptr s) r))"

definition nop_result :: "store \<Rightarrow> verification_id \<Rightarrow> proof_record arc comp_result" where
  "nop_result s i = (case records s i of None \<Rightarrow> StillNone | Some a \<Rightarrow> Unchanged a)"

lemma compute_eq:
  assumes "moka X"
  shows "f (next_ptr s) (records s i) = Inl e \<Longrightarrow> compute X s i f = (skip_record s, Inl e)"
    and "f (next_ptr s) (records s i) = Inr Nop \<Longrightarrow>
           compute X s i f = (skip_record s, Inr (nop_result s i))"
    and "f (next_ptr s) (records s i) = Inr (Put (Arc (next_ptr s) r)) \<Longrightarrow>
           compute X s i f = (put_record s i r, Inr (put_result s i r))"
  using assms
  by (simp_all add: moka_def moka_compute_def compute_def skip_record_def put_record_def
      put_result_def nop_result_def split: option.splits)

lemma record_sel [simp]:
  "records (put_record s i r) = (records s)(i \<mapsto> Arc (next_ptr s) r)"
  "next_ptr (put_record s i r) = Suc (next_ptr s)"
  "max_proof_bytes (put_record s i r) = max_proof_bytes s"
  "terminal_expiry (put_record s i r) = terminal_expiry s"
  "records (skip_record s) = records s"
  "next_ptr (skip_record s) = Suc (next_ptr s)"
  "max_proof_bytes (skip_record s) = max_proof_bytes s"
  "terminal_expiry (skip_record s) = terminal_expiry s"
  by (simp_all add: put_record_def skip_record_def)

lemma result_facts [simp]:
  "store_change (nop_result s i) = ChangeUnchanged"
  "store_change (put_result s i r) = (if records s i = None then ChangeInserted else ChangeUpdated)"
  "result_state (put_result s i r) = verification (metadata r)"
  "publish_stored e i (nop_result s i) = []"
  by (auto simp: store_change_def result_state_def nop_result_def put_result_def publish_stored_def
      split: option.splits)

end
