(* ===== verification/Store_Lifecycle.thy ===== *)
theory Store_Lifecycle
  imports Proof_Store
begin

text \<open>
  What the store promises. \<open>record_step\<close> is the contract of one entry: the legal replacements of
  its record and the events each of them publishes. Every operation of the store is shown to
  be one such replacement of one entry, the removal of one entry, or no change at all; the
  invariant of the records, the life cycle of a verification and the exactness of the
  events follow from the contract alone.
\<close>

section \<open>Contract of one entry\<close>

definition queued_event :: "verification_id \<Rightarrow> proof_record \<Rightarrow> proof_store_event list" where
  "queued_event i r =
     (if verification (metadata r) = Some Queued then [VerificationChanged i Queued] else [])"

definition outcome_ok :: "verification_outcome \<Rightarrow> bool" where
  "outcome_ok oc = (case oc of OutcomeCompleted _ \<Rightarrow> True | OutcomeFailed f \<Rightarrow> failure_ok f)"

text \<open>A proof that passed the store's validation for the identifier.\<close>

definition content_ok :: "'x externs_scheme \<Rightarrow> nat \<Rightarrow> verification_id \<Rightarrow> zk_proof \<Rightarrow> bool" where
  "content_ok X m i p \<longleftrightarrow> in_memory p \<and> encoded_len X p \<le> m \<and> verification_id X p = i"

inductive record_step ::
  "'x externs_scheme \<Rightarrow> nat \<Rightarrow> verification_id \<Rightarrow> proof_record option \<Rightarrow> proof_record
    \<Rightarrow> proof_store_event list \<Rightarrow> bool"
  for X m i where
  observe_new:
    "record_step X m i None
       \<lparr>metadata = \<lparr>chain_observed_at = Some now, content_source = None, content_stored_at = None,
          verification = None, completed_at = None\<rparr>, record_proof = None\<rparr>
       [VerificationObserved i]"
| observe_known:
    "chain_observed_at (metadata r) = None \<Longrightarrow>
     r' = queue_if_ready (r\<lparr>metadata := (metadata r)\<lparr>chain_observed_at := Some now\<rparr>\<rparr>) \<Longrightarrow>
     record_step X m i (Some r) r' (VerificationObserved i # queued_event i r')"
| store_new:
    "content_ok X m i p \<Longrightarrow>
     record_step X m i None
       \<lparr>metadata = \<lparr>chain_observed_at = None, content_source = Some source,
          content_stored_at = Some now, verification = None, completed_at = None\<rparr>,
        record_proof = Some p\<rparr>
       [ProofStored i source]"
| store_known:
    "content_ok X m i p \<Longrightarrow> record_proof r = None \<Longrightarrow>
     r' = queue_if_ready (with_content p source now r) \<Longrightarrow>
     record_step X m i (Some r) r' (ProofStored i source # queued_event i r')"
| claim:
    "chain_observed_at (metadata r) \<noteq> None \<Longrightarrow> record_proof r \<noteq> None \<Longrightarrow>
     verification (metadata r) = Some Queued \<Longrightarrow>
     record_step X m i (Some r) (r\<lparr>metadata := (metadata r)\<lparr>verification := Some Verifying\<rparr>\<rparr>)
       [VerificationChanged i Verifying]"
| commit:
    "verification (metadata r) = Some Verifying \<Longrightarrow> outcome_ok oc \<Longrightarrow>
     done_at = (case oc of OutcomeCompleted _ \<Rightarrow> Some now | OutcomeFailed _ \<Rightarrow> None) \<Longrightarrow>
     record_step X m i (Some r)
       (r\<lparr>metadata := (metadata r)\<lparr>verification := Some (outcome_state oc), completed_at := done_at\<rparr>\<rparr>)
       [VerificationChanged i (outcome_state oc)]"
| requeue:
    "verification (metadata r) = Some (Failed f) \<Longrightarrow> failure_retryable f \<Longrightarrow>
     record_step X m i (Some r)
       (r\<lparr>metadata := (metadata r)\<lparr>verification := Some Queued, completed_at := None\<rparr>\<rparr>)
       [VerificationChanged i Queued]"

section \<open>Steps of the store\<close>

text \<open>
  Calls of the store's operations in any order with any arguments at the time \<open>now\<close>, and the
  removals the cache decides by itself: by size at any time, by expiry no earlier than the
  retention after the completion and only where the expiry policy gives a duration. The
  operations only the verification worker calls, \<open>begin_verification\<close> and \<open>finish_verification\<close>,
  come on top of the steps of its environment.
\<close>

inductive env_step ::
  "'x store_externs_scheme \<Rightarrow> instant \<Rightarrow> store \<Rightarrow> proof_store_event list \<Rightarrow> store \<Rightarrow> bool"
  for X now where
  step_observe: "observe_chain_verification X now s i = (t, evs, res) \<Longrightarrow> env_step X now s evs t"
| step_insert:
    "in_memory p \<Longrightarrow> insert_local_proof X now s p source = (t, evs, res) \<Longrightarrow> env_step X now s evs t"
| step_attach:
    "in_memory p \<Longrightarrow> attach_downloaded_proof X now s i p peer = (t, evs, res) \<Longrightarrow> env_step X now s evs t"
| step_retry: "retry_verification X s i = (t, evs, res) \<Longrightarrow> env_step X now s evs t"
| step_invalidate: "invalidate X s i = (t, evs) \<Longrightarrow> env_step X now s evs t"
| step_size:
    "records s i = Some a \<Longrightarrow>
     env_step X now s (eviction_listener i CauseSize) (s\<lparr>records := (records s)(i := None)\<rparr>)"
| step_expired:
    "records s i = Some a \<Longrightarrow> expiry_duration (terminal_expiry s) (arc_val a) = Some d \<Longrightarrow>
     completed_at (metadata (arc_val a)) = Some done_at \<Longrightarrow> done_at + d \<le> now \<Longrightarrow>
     env_step X now s (eviction_listener i CauseExpired) (s\<lparr>records := (records s)(i := None)\<rparr>)"

inductive store_step ::
  "'x store_externs_scheme \<Rightarrow> instant \<Rightarrow> store \<Rightarrow> proof_store_event list \<Rightarrow> store \<Rightarrow> bool"
  for X now where
  step_env: "env_step X now s evs t \<Longrightarrow> store_step X now s evs t"
| step_begin: "begin_verification X s i = (t, evs, res) \<Longrightarrow> store_step X now s evs t"
| step_finish:
    "outcome_ok oc \<Longrightarrow> finish_verification X now s job oc = (t, evs, res) \<Longrightarrow> store_step X now s evs t"

text \<open>What a step does: nothing, the replacement of one record, or the removal of one record.\<close>

definition no_effect :: "store \<Rightarrow> proof_store_event list \<Rightarrow> store \<Rightarrow> bool" where
  "no_effect s evs t \<longleftrightarrow> (t = s \<or> t = skip_record s) \<and> evs = []"

definition replaces ::
  "'x store_externs_scheme \<Rightarrow> store \<Rightarrow> verification_id \<Rightarrow> proof_store_event list \<Rightarrow> store \<Rightarrow> bool" where
  "replaces X s i evs t \<longleftrightarrow>
     (\<exists>r. t = put_record s i r \<and>
        record_step X (max_proof_bytes s) i (map_option arc_val (records s i)) r evs)"

definition removes :: "instant \<Rightarrow> store \<Rightarrow> verification_id \<Rightarrow> proof_store_event list \<Rightarrow> store \<Rightarrow> bool" where
  "removes now s i evs t \<longleftrightarrow>
     t = s\<lparr>records := (records s)(i := None)\<rparr> \<and>
     (\<exists>a c. records s i = Some a \<and> evs = [ProofEvicted i c] \<and>
        (c \<noteq> EvictExpired \<or> (\<exists>d done_at. expiry_duration (terminal_expiry s) (arc_val a) = Some d \<and>
           completed_at (metadata (arc_val a)) = Some done_at \<and> done_at + d \<le> now)))"

section \<open>Every step is an instance of the contract\<close>

lemma validate_proof_Inr:
  "validate_proof X s i p = Inr u \<longleftrightarrow> encoded_len X p \<le> max_proof_bytes s \<and> verification_id X p = i"
  by (auto simp: validate_proof_def Let_def)

lemma publish_stored_put [simp]:
  "publish_stored e i (put_result s i r) = e # queued_event i r"
  by (simp add: publish_stored_def queued_event_def)

lemma no_effectI: "no_effect s [] (skip_record s)" "no_effect s [] s"
  by (simp_all add: no_effect_def)

lemma replacesI:
  "record_step X (max_proof_bytes s) i (map_option arc_val (records s i)) r evs \<Longrightarrow>
     replaces X s i evs (put_record s i r)"
  by (auto simp: replaces_def)

lemma observe_effect:
  assumes "moka X" "observe_chain_verification X now s i = (t, evs, res)"
  shows "no_effect s evs t \<or> replaces X s i evs t"
proof (cases "records s i")
  case None
  then show ?thesis
    using assms(2) record_step.observe_new [of X "max_proof_bytes s" i now]
    by (auto simp: Let_def observe_chain_verification_def observe_entry_def compute_eq(3) [OF assms(1)]
        queued_event_def intro!: replacesI)
next
  case (Some a)
  then show ?thesis
    using assms(2) record_step.observe_known [of "arc_val a" _ now X "max_proof_bytes s" i]
    by (cases "chain_observed_at (metadata (arc_val a))")
       (auto simp: Let_def observe_chain_verification_def observe_entry_def compute_eq(2,3) [OF assms(1)]
          no_effectI intro!: replacesI)
qed

lemma insert_effect:
  assumes "moka X" "insert_local_proof X now s p source = (t, evs, res)" "in_memory p"
  shows "no_effect s evs t \<or> replaces X s (verification_id X p) evs t"
proof (cases "validate_proof X s (verification_id X p) p")
  case (Inl e)
  then show ?thesis using assms(2) by (auto simp: Let_def insert_local_proof_def no_effectI)
next
  case (Inr u)
  let ?i = "verification_id X p"
  have ok: "content_ok X (max_proof_bytes s) ?i p"
    using Inr assms(3) by (simp add: validate_proof_Inr content_ok_def)
  show ?thesis
  proof (cases "records s ?i")
    case None
    then show ?thesis
      using assms(2) Inr record_step.store_new [OF ok, of source now]
      by (auto simp: Let_def insert_local_proof_def insert_entry_def compute_eq(3) [OF assms(1)]
          queued_event_def intro!: replacesI)
  next
    case (Some a)
    then show ?thesis
      using assms(2) Inr record_step.store_known [OF ok, of "arc_val a" _ source now]
      by (cases "record_proof (arc_val a)")
         (auto simp: Let_def insert_local_proof_def insert_entry_def compute_eq(2,3) [OF assms(1)]
            no_effectI intro!: replacesI)
  qed
qed

lemma attach_effect:
  assumes "moka X" "attach_downloaded_proof X now s i p peer = (t, evs, res)" "in_memory p"
  shows "no_effect s evs t \<or> replaces X s i evs t"
proof (cases "validate_proof X s i p")
  case (Inl e)
  then show ?thesis using assms(2) by (auto simp: Let_def attach_downloaded_proof_def no_effectI)
next
  case (Inr u)
  have ok: "content_ok X (max_proof_bytes s) i p"
    using Inr assms(3) by (simp add: validate_proof_Inr content_ok_def)
  show ?thesis
  proof (cases "records s i")
    case None
    then show ?thesis
      using assms(2) Inr
      by (auto simp: Let_def attach_downloaded_proof_def attach_entry_def compute_eq(1) [OF assms(1)] no_effectI)
  next
    case (Some a)
    then show ?thesis
      using assms(2) Inr record_step.store_known [OF ok, of "arc_val a" _ "Peer peer" now]
      by (cases "record_proof (arc_val a)"; cases "chain_observed_at (metadata (arc_val a))")
         (auto simp: Let_def attach_downloaded_proof_def attach_entry_def compute_eq [OF assms(1)]
            no_effectI intro!: replacesI)
  qed
qed

definition verifying_record :: "proof_record \<Rightarrow> proof_record" where
  "verifying_record r = r\<lparr>metadata := (metadata r)\<lparr>verification := Some Verifying\<rparr>\<rparr>"

lemma begin_verification_eq:
  assumes "moka X"
  shows "begin_verification X s i =
    (case records s i of
       Some a \<Rightarrow>
         if ready_for_verification (arc_val a)
         then (put_record s i (verifying_record (arc_val a)), [VerificationChanged i Verifying],
               Inr (Some \<lparr>job_id = i, job_proof = the (record_proof (arc_val a)),
                 job_claim = Arc (next_ptr s) (verifying_record (arc_val a))\<rparr>))
         else (skip_record s, [], Inr None)
     | None \<Rightarrow> (skip_record s, [], Inr None))"
  using compute_eq [OF assms, of begin_entry s i]
  by (auto simp: Let_def begin_verification_def begin_entry_def ready_for_verification_def
      nop_result_def put_result_def verifying_record_def split: option.splits)

lemma begin_effect:
  assumes "moka X" "begin_verification X s i = (t, evs, res)"
  shows "no_effect s evs t \<or> replaces X s i evs t"
  using assms(2) record_step.claim [of _ X "max_proof_bytes s" i]
  by (auto simp: begin_verification_eq [OF assms(1)] no_effectI ready_for_verification_def
      verifying_record_def intro!: replacesI split: option.splits if_splits)

definition finished_record :: "instant \<Rightarrow> verification_outcome \<Rightarrow> proof_record \<Rightarrow> proof_record" where
  "finished_record now oc r =
     r\<lparr>metadata := (metadata r)\<lparr>verification := Some (outcome_state oc),
        completed_at := (case oc of OutcomeCompleted _ \<Rightarrow> Some now | OutcomeFailed _ \<Rightarrow> None)\<rparr>\<rparr>"

lemma outcome_state_completed [simp]:
  "(case outcome_state oc of Completed _ \<Rightarrow> Some now | _ \<Rightarrow> None) =
   (case oc of OutcomeCompleted _ \<Rightarrow> Some now | OutcomeFailed _ \<Rightarrow> None)"
  by (cases oc) (simp_all add: outcome_state_def)

lemma finish_verification_eq:
  assumes "moka X"
  shows "finish_verification X now s job oc =
    (case records s (job_id job) of
       Some a \<Rightarrow>
         if arc_ptr a \<noteq> arc_ptr (job_claim job) then (skip_record s, [], Inr ChangeUnchanged)
         else if verification (metadata (arc_val a)) \<noteq> Some Verifying
         then (skip_record s, [], Inl (InvalidVerificationTransition (job_id job)
                 (ExpectedVerifying (verification (metadata (arc_val a))))))
         else (put_record s (job_id job) (finished_record now oc (arc_val a)),
               [VerificationChanged (job_id job) (outcome_state oc)], Inr ChangeUpdated)
     | None \<Rightarrow> (skip_record s, [], Inr ChangeUnchanged))"
  using compute_eq [OF assms, of "finish_entry job (outcome_state oc)
    (case oc of OutcomeCompleted _ \<Rightarrow> Some now | OutcomeFailed _ \<Rightarrow> None)" s "job_id job"]
  by (auto simp: Let_def finish_verification_def finish_entry_def finished_record_def
      split: option.splits)

lemma finish_effect:
  assumes "moka X" "finish_verification X now s job oc = (t, evs, res)" "outcome_ok oc"
  shows "no_effect s evs t \<or> replaces X s (job_id job) evs t"
  using assms(2) record_step.commit [OF _ assms(3) refl, of _ X "max_proof_bytes s" "job_id job" now]
  by (auto simp: finish_verification_eq [OF assms(1)] no_effectI finished_record_def
      intro!: replacesI split: option.splits if_splits)

definition requeued_record :: "proof_record \<Rightarrow> proof_record" where
  "requeued_record r = r\<lparr>metadata := (metadata r)\<lparr>verification := Some Queued, completed_at := None\<rparr>\<rparr>"

lemma retry_verification_eq:
  assumes "moka X"
  shows "retry_verification X s i =
    (case records s i of
       None \<Rightarrow> (skip_record s, [], Inl (InvalidVerificationTransition i RecordMissing))
     | Some a \<Rightarrow>
         (case verification (metadata (arc_val a)) of
            Some Queued \<Rightarrow> (skip_record s, [], Inr ChangeUnchanged)
          | Some (Failed f) \<Rightarrow>
              if failure_retryable f
              then (put_record s i (requeued_record (arc_val a)), [VerificationChanged i Queued],
                    Inr ChangeUpdated)
              else (skip_record s, [], Inl (InvalidVerificationTransition i
                      (ExpectedRetryableFailed (Some (Failed f)))))
          | state \<Rightarrow> (skip_record s, [], Inl (InvalidVerificationTransition i
                      (ExpectedRetryableFailed state)))))"
proof (cases "records s i")
  case None
  then show ?thesis
    by (simp add: retry_verification_def retry_entry_def compute_eq(1) [OF assms])
next
  case (Some a)
  then show ?thesis
    by (simp add: retry_verification_def retry_entry_def Let_def compute_eq [OF assms]
        requeued_record_def split: option.split verification_state.split)
qed

lemma retry_effect:
  assumes "moka X" "retry_verification X s i = (t, evs, res)"
  shows "no_effect s evs t \<or> replaces X s i evs t"
  using assms(2) record_step.requeue [of _ _ X "max_proof_bytes s" i]
  by (auto simp: retry_verification_eq [OF assms(1)] no_effectI requeued_record_def
      intro!: replacesI split: option.splits verification_state.splits if_splits)

lemma invalidate_effect:
  assumes "moka X" "invalidate X s i = (t, evs)"
  shows "no_effect s evs t \<or> removes now s i evs t"
proof (cases "records s i")
  case None
  then have "(records s)(i := None) = records s" by auto
  with None assms(2) show ?thesis
    by (auto simp: moka_invalidateD [OF assms(1)] no_effect_def)
next
  case (Some a)
  with assms(2) show ?thesis by (auto simp: moka_invalidateD [OF assms(1)] removes_def)
qed

lemma env_step_effect:
  assumes "moka X" "env_step X now s evs t"
  shows "no_effect s evs t \<or> (\<exists>i. replaces X s i evs t) \<or> (\<exists>i. removes now s i evs t)"
  using assms(2)
proof cases
  case step_observe
  then show ?thesis using observe_effect [OF assms(1)] by blast
next
  case step_insert
  then show ?thesis using insert_effect [OF assms(1)] by blast
next
  case step_attach
  then show ?thesis using attach_effect [OF assms(1)] by blast
next
  case step_retry
  then show ?thesis using retry_effect [OF assms(1)] by blast
next
  case step_invalidate
  then show ?thesis using invalidate_effect [OF assms(1)] by blast
next
  case step_size
  then show ?thesis by (auto simp: removes_def eviction_listener_def)
next
  case step_expired
  then show ?thesis by (auto simp: removes_def eviction_listener_def)
qed

lemma store_step_effect:
  assumes "moka X" "store_step X now s evs t"
  obtains "no_effect s evs t"
    | i where "replaces X s i evs t"
    | i where "removes now s i evs t"
  using assms(2)
proof cases
  case step_env
  then show thesis using env_step_effect [OF assms(1)] that by blast
next
  case step_begin
  then show thesis using begin_effect [OF assms(1)] that by blast
next
  case step_finish
  then show thesis using finish_effect [OF assms(1)] that by blast
qed

section \<open>Invariant\<close>

text \<open>
  A record has content or was observed on the chain; its content is validated for its
  identifier; a verification state exists exactly when both prerequisites are there; the
  bookkeeping fields agree with the state; a stored failure respects the wire bounds.
\<close>

definition record_ok :: "'x externs_scheme \<Rightarrow> nat \<Rightarrow> verification_id \<Rightarrow> proof_record \<Rightarrow> bool" where
  "record_ok X m i r \<longleftrightarrow>
     (chain_observed_at (metadata r) \<noteq> None \<or> record_proof r \<noteq> None) \<and>
     (\<forall>p. record_proof r = Some p \<longrightarrow> content_ok X m i p) \<and>
     (verification (metadata r) \<noteq> None \<longleftrightarrow>
        chain_observed_at (metadata r) \<noteq> None \<and> record_proof r \<noteq> None) \<and>
     (content_source (metadata r) \<noteq> None \<longleftrightarrow> record_proof r \<noteq> None) \<and>
     (content_stored_at (metadata r) \<noteq> None \<longleftrightarrow> record_proof r \<noteq> None) \<and>
     (completed_at (metadata r) \<noteq> None \<longleftrightarrow> (\<exists>v. verification (metadata r) = Some (Completed v))) \<and>
     (\<forall>f. verification (metadata r) = Some (Failed f) \<longrightarrow> failure_ok f)"

lemma record_step_ok:
  assumes "record_step X m i old r evs" "pred_option (record_ok X m i) old"
  shows "record_ok X m i r"
  using assms
  by cases
     (auto simp: record_ok_def queue_if_ready_def with_content_def outcome_state_def outcome_ok_def
       split: verification_outcome.splits)

text \<open>
  The store keeps finitely many records, each valid; allocations are numbered below
  \<open>next_ptr\<close> and never shared by two entries; the size limit leaves room for the
  weight of a record in 32 bits.
\<close>

definition store_inv :: "'x store_externs_scheme \<Rightarrow> store \<Rightarrow> bool" where
  "store_inv X s \<longleftrightarrow>
     finite (dom (records s)) \<and>
     (\<forall>i a. records s i = Some a \<longrightarrow>
        arc_ptr a < next_ptr s \<and> record_ok X (max_proof_bytes s) i (arc_val a)) \<and>
     (\<forall>i j a b. records s i = Some a \<and> records s j = Some b \<and> arc_ptr a = arc_ptr b \<longrightarrow> i = j) \<and>
     max_proof_bytes s + METADATA_WEIGHT_BYTES + (FAILURE_CODE_MAX_BYTES + FAILURE_MESSAGE_MAX_BYTES)
       < u32_bound"

lemma store_invD:
  assumes "store_inv X s" "records s i = Some a"
  shows "arc_ptr a < next_ptr s" "record_ok X (max_proof_bytes s) i (arc_val a)"
  using assms by (auto simp: store_inv_def)

lemma store_inv_skip: "store_inv X s \<Longrightarrow> store_inv X (skip_record s)"
  by (auto simp: store_inv_def less_Suc_eq)

lemma store_inv_put:
  assumes "store_inv X s" "record_ok X (max_proof_bytes s) i r"
  shows "store_inv X (put_record s i r)"
proof -
  have fresh: "arc_ptr b \<noteq> next_ptr s" "next_ptr s \<noteq> arc_ptr b" if "records s j = Some b" for j b
    using store_invD(1) [OF assms(1) that] by auto
  show ?thesis
    using assms unfolding store_inv_def
    by (auto simp: less_Suc_eq dest: fresh split: if_splits)
qed

lemma store_inv_remove: "store_inv X s \<Longrightarrow> store_inv X (s\<lparr>records := (records s)(i := None)\<rparr>)"
  unfolding store_inv_def by (auto split: if_splits)

lemma store_step_inv:
  assumes "moka X" "store_inv X s" "store_step X now s evs t"
  shows "store_inv X t"
  using assms(1,3)
proof (cases rule: store_step_effect)
  case 1
  then show ?thesis using assms(2) by (auto simp: no_effect_def store_inv_skip)
next
  case (2 i)
  have "pred_option (record_ok X (max_proof_bytes s) i) (map_option arc_val (records s i))"
    using store_invD(2) [OF assms(2), of i] by (cases "records s i") auto
  with 2 show ?thesis
    by (auto simp: replaces_def intro: store_inv_put [OF assms(2)] dest: record_step_ok)
next
  case (3 i)
  then show ?thesis using store_inv_remove [OF assms(2)] by (auto simp: removes_def)
qed

lemma store_step_limits:
  assumes "moka X" "store_step X now s evs t"
  shows "max_proof_bytes t = max_proof_bytes s" "terminal_expiry t = terminal_expiry s"
  using assms
  by (auto elim!: store_step_effect simp: no_effect_def replaces_def removes_def)

lemma store_new_inv: "store_new c = Inr s \<Longrightarrow> store_inv X s"
  unfolding store_new_def if_Inl_Inr_iff
  by (auto simp: Let_def store_inv_def u32_try_from_def checked_add_u32_def checked_add_usize_def
      split: if_splits bind_splits option.splits)

definition store_init :: "'x store_externs_scheme \<Rightarrow> store \<Rightarrow> bool" where
  "store_init X s \<longleftrightarrow> moka X \<and> varint_len X \<and> (\<exists>c. store_new c = Inr s)"

definition store_moves :: "'x store_externs_scheme \<Rightarrow> store \<Rightarrow> store \<Rightarrow> bool" where
  "store_moves X s t \<longleftrightarrow> (\<exists>now evs. store_step X now s evs t)"

definition store_good :: "'x store_externs_scheme \<Rightarrow> store \<Rightarrow> bool" where
  "store_good X s \<longleftrightarrow> moka X \<and> varint_len X \<and> store_inv X s"

interpretation proof_store: transition_system "store_init X" "store_moves X" "store_good X" for X
  by unfold_locales
     (auto simp: store_init_def store_moves_def store_good_def store_new_inv intro: store_step_inv)

section \<open>Life cycle\<close>

datatype phase = Absent | AwaitingContent | AwaitingChain | InState verification_state

definition phase_of :: "proof_record option \<Rightarrow> phase" where
  "phase_of e =
     (case e of
        None \<Rightarrow> Absent
      | Some r \<Rightarrow>
          (case verification (metadata r) of
             Some st \<Rightarrow> InState st
           | None \<Rightarrow> if chain_observed_at (metadata r) \<noteq> None then AwaitingContent else AwaitingChain))"

text \<open>
  The documented transitions. A verdict has no successor but removal, and a failure
  is left only when it is retryable.
\<close>

inductive lifecycle :: "phase \<Rightarrow> phase \<Rightarrow> bool" where
  "lifecycle Absent AwaitingContent"
| "lifecycle Absent AwaitingChain"
| "lifecycle AwaitingContent (InState Queued)"
| "lifecycle AwaitingChain (InState Queued)"
| "lifecycle (InState Queued) (InState Verifying)"
| "lifecycle (InState Verifying) (InState (Completed v))"
| "lifecycle (InState Verifying) (InState (Failed f))"
| "failure_retryable f \<Longrightarrow> lifecycle (InState (Failed f)) (InState Queued)"
| "ph \<noteq> Absent \<Longrightarrow> lifecycle ph Absent"

inductive_cases lifecycle_CompletedE: "lifecycle (InState (Completed v)) ph"

definition entry :: "store \<Rightarrow> verification_id \<Rightarrow> proof_record option" where
  "entry s i = map_option arc_val (records s i)"

lemma entry_upd [simp]:
  "entry (put_record s i r) j = (if j = i then Some r else entry s j)"
  "entry (skip_record s) = entry s"
  "entry (s\<lparr>records := (records s)(i := None)\<rparr>) j = (if j = i then None else entry s j)"
  by (auto simp: entry_def)

lemma store_inv_entry: "store_inv X s \<Longrightarrow> pred_option (record_ok X (max_proof_bytes s) i) (entry s i)"
  using store_invD(2) [of X s i] by (cases "records s i") (auto simp: entry_def)

lemma record_step_lifecycle:
  assumes "record_step X m i old r evs" "pred_option (record_ok X m i) old"
  shows "lifecycle (phase_of old) (phase_of (Some r))"
  using assms
  by cases
     (auto simp: phase_of_def record_ok_def queue_if_ready_def with_content_def outcome_state_def
        intro: lifecycle.intros split: verification_outcome.splits option.splits)

section \<open>Events\<close>

text \<open>
  The events that tell a subscriber how the entry of \<open>i\<close> changed: first a new observation or
  new content, then a new verification state, and a removal with its cause.
\<close>

definition diff_events ::
  "eviction_cause \<Rightarrow> verification_id \<Rightarrow> proof_record option \<Rightarrow> proof_record option
    \<Rightarrow> proof_store_event list" where
  "diff_events c i old new =
     (case new of
        None \<Rightarrow> if old = None then [] else [ProofEvicted i c]
      | Some r \<Rightarrow>
          (if Option.bind old (\<lambda>r. chain_observed_at (metadata r)) = None
              \<and> chain_observed_at (metadata r) \<noteq> None
           then [VerificationObserved i] else []) @
          (case content_source (metadata r) of
             Some source \<Rightarrow>
               if Option.bind old (\<lambda>r. content_source (metadata r)) = None then [ProofStored i source] else []
           | None \<Rightarrow> []) @
          (case verification (metadata r) of
             Some st \<Rightarrow>
               if Option.bind old (\<lambda>r. verification (metadata r)) \<noteq> Some st
               then [VerificationChanged i st] else []
           | None \<Rightarrow> []))"

definition event_id :: "proof_store_event \<Rightarrow> verification_id" where
  "event_id e =
     (case e of
        VerificationObserved i \<Rightarrow> i
      | ProofStored i _ \<Rightarrow> i
      | VerificationChanged i _ \<Rightarrow> i
      | ProofEvicted i _ \<Rightarrow> i)"

lemma diff_events_same [simp]: "diff_events c i e e = []"
  by (auto simp: diff_events_def split: option.split)

lemma diff_events_id: "e \<in> set (diff_events c i old new) \<Longrightarrow> event_id e = i"
  by (auto simp: diff_events_def event_id_def split: option.splits if_splits)

lemma record_step_events:
  assumes "record_step X m i old r evs" "pred_option (record_ok X m i) old"
  shows "evs = diff_events c i old (Some r)"
  using assms
proof cases
  case (observe_known r0 now)
  with assms(2) show ?thesis
    by (auto simp: diff_events_def record_ok_def queue_if_ready_def queued_event_def split: option.splits)
next
  case (store_known p r0 source now)
  with assms(2) show ?thesis
    by (auto simp: diff_events_def record_ok_def queue_if_ready_def queued_event_def with_content_def
        split: option.splits)
qed (use assms(2) in \<open>auto simp: diff_events_def record_ok_def outcome_state_def
        split: option.splits verification_outcome.splits\<close>)

section \<open>Claims\<close>

text \<open>
  A claim stays the only value ever stored under its allocation number: after any steps, an
  entry with that number is the claimed record itself.
\<close>

definition claim_ok :: "verification_job \<Rightarrow> store \<Rightarrow> bool" where
  "claim_ok job s \<longleftrightarrow>
     arc_ptr (job_claim job) < next_ptr s \<and>
     (\<forall>i a. records s i = Some a \<and> arc_ptr a = arc_ptr (job_claim job) \<longrightarrow>
        i = job_id job \<and> a = job_claim job)"

lemma claim_ok_step:
  assumes "moka X" "claim_ok job s" "store_step X now s evs t"
  shows "claim_ok job t"
  using assms(1,3)
proof (cases rule: store_step_effect)
  case 1
  then show ?thesis using assms(2) by (auto simp: no_effect_def claim_ok_def)
next
  case (2 i)
  then show ?thesis
    using assms(2) by (auto simp: replaces_def claim_ok_def split: if_splits)
next
  case (3 i)
  then show ?thesis using assms(2) by (auto simp: removes_def claim_ok_def split: if_splits)
qed

lemma claim_ok_moves:
  assumes "moka X" "claim_ok job s" "(store_moves X)\<^sup>*\<^sup>* s t"
  shows "claim_ok job t"
  using assms(3,2)
  by (induction rule: rtranclp_induct) (auto simp: store_moves_def intro: claim_ok_step [OF assms(1)])

lemma begin_claim:
  assumes "moka X" "store_inv X s" "begin_verification X s i = (t, evs, Inr (Some job))"
  shows "records t i = Some (job_claim job)" "job_id job = i" "claim_ok job t"
    "verification (metadata (arc_val (job_claim job))) = Some Verifying"
    "record_proof (arc_val (job_claim job)) = Some (job_proof job)"
    "\<exists>a. records s i = Some a \<and> ready_for_verification (arc_val a)"
proof -
  obtain a where a: "records s i = Some a" "ready_for_verification (arc_val a)"
    "t = put_record s i (verifying_record (arc_val a))"
    "job = \<lparr>job_id = i, job_proof = the (record_proof (arc_val a)),
        job_claim = Arc (next_ptr s) (verifying_record (arc_val a))\<rparr>"
    using assms(3) by (auto simp: begin_verification_eq [OF assms(1)] split: option.splits if_splits)
  have "arc_ptr b \<noteq> next_ptr s" if "records s j = Some b" for j b
    using store_invD(1) [OF assms(2) that] by auto
  then show "claim_ok job t" using a by (auto simp: claim_ok_def)
  show "records t i = Some (job_claim job)" "job_id job = i"
    "verification (metadata (arc_val (job_claim job))) = Some Verifying"
    "record_proof (arc_val (job_claim job)) = Some (job_proof job)"
    "\<exists>a. records s i = Some a \<and> ready_for_verification (arc_val a)"
    using a by (auto simp: verifying_record_def ready_for_verification_def)
qed

section \<open>A concrete cache\<close>

text \<open>
  A cache that does exactly what Moka documents, a store over it, and a proof taken through
  its whole life: the closed instances of the properties below use them.
\<close>

definition demo_compute ::
  "cache \<Rightarrow> verification_id \<Rightarrow> (proof_record arc option \<Rightarrow> proof_record arc op res)
    \<Rightarrow> cache \<times> proof_record arc comp_result res" where
  "demo_compute m k f =
     (case f (m k) of
        Inl e \<Rightarrow> (m, Inl e)
      | Inr (Put v) \<Rightarrow> (m(k \<mapsto> v), Inr (case m k of None \<Rightarrow> Inserted v | Some _ \<Rightarrow> ReplacedWith v))
      | Inr Remove \<Rightarrow> (m(k := None), Inr (case m k of None \<Rightarrow> StillNone | Some v \<Rightarrow> Removed v))
      | Inr Nop \<Rightarrow> (m, Inr (case m k of None \<Rightarrow> StillNone | Some v \<Rightarrow> Unchanged v)))"

definition demo_iter :: "cache \<Rightarrow> (verification_id \<times> proof_record arc) list" where
  "demo_iter m = map (\<lambda>k. (k, the (m k))) (sorted_list_of_set (dom m))"

definition demo_invalidate ::
  "cache \<Rightarrow> verification_id \<Rightarrow> cache \<times> (verification_id \<times> removal_cause) list" where
  "demo_invalidate m k =
     (m(k := None), case m k of None \<Rightarrow> [] | Some _ \<Rightarrow> [(k, CauseExplicit)])"

definition demo_store_externs :: store_externs where
  "demo_store_externs =
     externs.extend demo_externs
       \<lparr>cache_get = \<lambda>m k. m k, and_try_compute_with = demo_compute, cache_iter = demo_iter,
        cache_invalidate = demo_invalidate\<rparr>"

lemma demo_store_externs_sel [simp]:
  "sha256 demo_store_externs = demo_sha256"
  "encoded_len_varint demo_store_externs = demo_varint"
  "wire_proof_encoded_len demo_store_externs = demo_wire_len"
  "hex_encode demo_store_externs = demo_hex"
  "cache_iter demo_store_externs = demo_iter"
  by (simp_all add: demo_store_externs_def externs.defs demo_externs_def)

lemma demo_moka: "moka demo_store_externs"
  by (auto simp: moka_def moka_get_def moka_compute_def moka_iter_def moka_invalidate_def
      demo_store_externs_def externs.defs demo_compute_def demo_iter_def demo_invalidate_def
      image_iff comp_def split: sum.split op.split option.split)

lemma demo_store_laws: "varint_len demo_store_externs" "sha256_len demo_store_externs"
  "wire_proof_len demo_store_externs"
  using demo_externs_ok
  by (simp_all add: varint_len_def sha256_len_def wire_proof_len_def wire_field_len_def)

definition demo_store_config :: proof_store_config where
  "demo_store_config =
     \<lparr>max_capacity_bytes = 1000, config_max_proof_bytes = 100, terminal_retention = 5,
      store_event_buffer = 4\<rparr>"

definition demo_id :: verification_id where
  "demo_id = verification_id demo_store_externs demo_proof"

definition demo_store0 :: store where
  "demo_store0 = \<lparr>records = Map.empty, next_ptr = 0, max_proof_bytes = 100, terminal_expiry = 5\<rparr>"

lemma demo_store_new: "store_new demo_store_config = Inr demo_store0"
  by (simp add: store_new_def demo_store_config_def demo_store0_def u32_try_from_def checked_add_u32_def
      checked_add_usize_def METADATA_WEIGHT_BYTES_def FAILURE_CODE_MAX_BYTES_def
      FAILURE_MESSAGE_MAX_BYTES_def word_bounds)

lemma demo_init: "store_init demo_store_externs demo_store0"
  using demo_moka demo_store_laws demo_store_new by (auto simp: store_init_def)

definition demo_record :: "verification_state option \<Rightarrow> instant option \<Rightarrow> proof_record" where
  "demo_record st done_at =
     \<lparr>metadata = \<lparr>chain_observed_at = Some 1, content_source = Some Rpc, content_stored_at = Some 2,
        verification = st, completed_at = done_at\<rparr>, record_proof = Some demo_proof\<rparr>"

definition demo_observed :: store where
  "demo_observed = fst (observe_chain_verification demo_store_externs 1 demo_store0 demo_id)"

definition demo_queued :: store where
  "demo_queued = fst (insert_local_proof demo_store_externs 2 demo_observed demo_proof Rpc)"

definition demo_verifying :: store where
  "demo_verifying = fst (begin_verification demo_store_externs demo_queued demo_id)"

definition demo_job :: verification_job where
  "demo_job = \<lparr>job_id = demo_id, job_proof = demo_proof,
     job_claim = Arc 2 (demo_record (Some Verifying) None)\<rparr>"

definition demo_completed :: store where
  "demo_completed =
     fst (finish_verification demo_store_externs 3 demo_verifying demo_job (OutcomeCompleted Valid))"

lemma demo_encoded_len [simp]: "encoded_len demo_store_externs demo_proof = 39"
  by (simp add: encoded_len_def encoded_bytes_len_def demo_proof_def wrapping_add_usize_def usize_bound_def)

lemma demo_observe:
  "observe_chain_verification demo_store_externs 1 demo_store0 demo_id =
     (demo_observed, [VerificationObserved demo_id], Inr ChangeInserted)"
  and demo_observed_records:
  "records demo_observed = [demo_id \<mapsto> Arc 0
     \<lparr>metadata = \<lparr>chain_observed_at = Some 1, content_source = None, content_stored_at = None,
        verification = None, completed_at = None\<rparr>, record_proof = None\<rparr>]"
  "next_ptr demo_observed = 1" "max_proof_bytes demo_observed = 100"
  by (simp_all add: demo_observed_def observe_chain_verification_def observe_entry_def
      compute_eq(3) [OF demo_moka] demo_store0_def queued_event_def)

lemma demo_insert:
  "insert_local_proof demo_store_externs 2 demo_observed demo_proof Rpc =
     (demo_queued, [ProofStored demo_id Rpc, VerificationChanged demo_id Queued],
      Inr (demo_id, ChangeUpdated))"
  and demo_queued_records:
  "records demo_queued = [demo_id \<mapsto> Arc 1 (demo_record (Some Queued) None)]"
  "next_ptr demo_queued = 2"
  by (simp_all add: demo_queued_def insert_local_proof_def insert_entry_def Let_def
      demo_id_def [symmetric] validate_proof_def demo_observed_records
      compute_eq(3) [OF demo_moka] queue_if_ready_def with_content_def queued_event_def
      demo_record_def)

lemma demo_begin:
  "begin_verification demo_store_externs demo_queued demo_id =
     (demo_verifying, [VerificationChanged demo_id Verifying], Inr (Some demo_job))"
  and demo_verifying_records:
  "records demo_verifying = [demo_id \<mapsto> Arc 2 (demo_record (Some Verifying) None)]"
  by (simp_all add: demo_verifying_def begin_verification_eq [OF demo_moka] demo_queued_records
      ready_for_verification_def demo_record_def verifying_record_def demo_job_def)

lemma demo_finish:
  "finish_verification demo_store_externs 3 demo_verifying demo_job (OutcomeCompleted Valid) =
     (demo_completed, [VerificationChanged demo_id (Completed Valid)], Inr ChangeUpdated)"
  and demo_completed_records:
  "entry demo_completed demo_id = Some (demo_record (Some (Completed Valid)) (Some 3))"
  by (simp_all add: demo_completed_def finish_verification_eq [OF demo_moka] demo_verifying_records
      demo_job_def demo_record_def finished_record_def outcome_state_def)

lemma demo_steps:
  "store_step demo_store_externs 1 demo_store0 [VerificationObserved demo_id] demo_observed"
  "store_step demo_store_externs 2 demo_observed
     [ProofStored demo_id Rpc, VerificationChanged demo_id Queued] demo_queued"
  "store_step demo_store_externs 2 demo_queued [VerificationChanged demo_id Verifying] demo_verifying"
  "store_step demo_store_externs 3 demo_verifying
     [VerificationChanged demo_id (Completed Valid)] demo_completed"
  using step_env [OF step_observe [OF demo_observe]]
    step_env [OF step_insert [OF demo_proof_in_memory demo_insert]]
    step_begin [OF demo_begin] step_finish [OF _ demo_finish]
  by (simp_all add: outcome_ok_def)

lemma demo_reach:
  "reach (store_init demo_store_externs) (store_moves demo_store_externs) demo_store0"
  "reach (store_init demo_store_externs) (store_moves demo_store_externs) demo_observed"
  "reach (store_init demo_store_externs) (store_moves demo_store_externs) demo_queued"
  "reach (store_init demo_store_externs) (store_moves demo_store_externs) demo_verifying"
  "reach (store_init demo_store_externs) (store_moves demo_store_externs) demo_completed"
  using demo_steps by (meson reach.intros demo_init store_moves_def)+

section \<open>Properties\<close>

abbreviation reachable_store :: "'x store_externs_scheme \<Rightarrow> store \<Rightarrow> bool" where
  "reachable_store X s \<equiv> reach (store_init X) (store_moves X) s"

lemma reachable_good: "reachable_store X s \<Longrightarrow> moka X \<and> varint_len X \<and> store_inv X s"
  using proof_store.reachable_inv [of X s] by (simp add: store_good_def)

lemma payload_len_le:
  assumes "varint_len X" "content_ok X m i p"
  shows "\<exists>n. payload_len p = Some n \<and> n \<le> m"
proof -
  have mem: "in_memory p" using assms(2) by (simp add: content_ok_def)
  then have "payload_len p = Some
      (length (proof_bytes p) + length (public_inputs p) + length (verification_key p))"
    by (auto simp: payload_len_def in_memory_def word_bounds checked_add_usize_def)
  moreover have "length (proof_bytes p) + length (public_inputs p) + length (verification_key p)
      \<le> encoded_len X p"
    using wire_field_len_bounds(1) [OF assms(1), of "proof_bytes p"]
      wire_field_len_bounds(1) [OF assms(1), of "public_inputs p"]
      wire_field_len_bounds(1) [OF assms(1), of "verification_key p"]
    unfolding encoded_len_exact [OF assms(1) mem] by linarith
  ultimately show ?thesis using assms(2) by (auto simp: content_ok_def)
qed

text \<open>
  C3. Every reachable store is consistent: a record has validated content for its own identifier
  or none, a verification state exists exactly when the proof was observed on the chain
  and its content is present, the completion time accompanies a verdict only, and no two
  entries share an allocation.
\<close>

theorem reachable_store_inv:
  assumes "reachable_store X s"
  shows "store_inv X s"
  using reachable_good [OF assms] by simp

theorem reachable_store_inv_witness:
  "reachable_store demo_store_externs demo_verifying \<and> store_inv demo_store_externs demo_verifying \<and>
   records demo_verifying demo_id \<noteq> None"
  using demo_reach(4) reachable_store_inv [OF demo_reach(4)] by (simp add: demo_verifying_records)

text \<open>
  C29. The weigher never panics: for every record of a reachable store none of its \<open>expect\<close> calls
  fails, and the weight is at most the proof limit plus the fixed charge and the
  longest failure diagnostic.
\<close>

theorem proof_weight_total:
  assumes "reachable_store X s" "entry s i = Some r"
  shows "\<exists>w. proof_weight r = Some w \<and> w \<le> max_proof_bytes s + 576"
proof -
  note good = reachable_good [OF assms(1)]
  have ok: "record_ok X (max_proof_bytes s) i r"
    using store_inv_entry [of X s i] good assms(2) by simp
  have lim: "max_proof_bytes s + 256 + (64 + 256) < u32_bound"
    using good by (simp add: store_inv_def METADATA_WEIGHT_BYTES_def FAILURE_CODE_MAX_BYTES_def
        FAILURE_MESSAGE_MAX_BYTES_def)
  obtain n where n: "(case record_proof r of None \<Rightarrow> Some 0 | Some p \<Rightarrow> payload_len p) = Some n"
    "n \<le> max_proof_bytes s"
  proof (cases "record_proof r")
    case (Some p)
    with ok have "content_ok X (max_proof_bytes s) i p" by (simp add: record_ok_def)
    then show ?thesis using payload_len_le [of X] good Some that by auto
  qed (use that in simp)
  define f where "f = (case verification (metadata r) of
      Some (Failed f) \<Rightarrow> length (failure_code f) + length (failure_message f) | _ \<Rightarrow> 0)"
  have "f \<le> 320"
    using ok unfolding f_def
    by (auto simp: record_ok_def failure_ok_def FAILURE_CODE_MAX_BYTES_def FAILURE_MESSAGE_MAX_BYTES_def
        split: option.splits verification_state.splits)
  then show ?thesis
    using n lim unfolding proof_weight_def f_def [symmetric]
    by (auto simp: Let_def METADATA_WEIGHT_BYTES_def u32_try_from_def checked_add_u32_def)
qed

theorem proof_weight_total_witness:
  "entry demo_completed demo_id = Some (demo_record (Some (Completed Valid)) (Some 3)) \<and>
   (\<exists>w. proof_weight (demo_record (Some (Completed Valid)) (Some 3)) = Some w
      \<and> w \<le> max_proof_bytes demo_completed + 576)"
  using proof_weight_total [OF demo_reach(5) demo_completed_records] demo_completed_records by simp

text \<open>
  C5. The store implements the life cycle of a verification: a step changes at most one
  identifier, and that one along a documented transition.
\<close>

theorem store_step_lifecycle:
  assumes "reachable_store X s" "store_step X now s evs t"
  shows "\<exists>i. (phase_of (entry t i) = phase_of (entry s i) \<or>
              lifecycle (phase_of (entry s i)) (phase_of (entry t i))) \<and>
             (\<forall>j. j = i \<or> records t j = records s j)"
proof -
  have X: "moka X" and inv: "store_inv X s" using reachable_good [OF assms(1)] by auto
  from X assms(2) show ?thesis
  proof (cases rule: store_step_effect)
    case 1
    then show ?thesis by (auto simp: no_effect_def)
  next
    case (2 i)
    then obtain r where t: "t = put_record s i r"
      and r: "record_step X (max_proof_bytes s) i (entry s i) r evs"
      by (auto simp: replaces_def entry_def)
    show ?thesis
      using record_step_lifecycle [OF r store_inv_entry [OF inv]] t by (auto intro!: exI [of _ i])
  next
    case (3 i)
    then show ?thesis
      by (auto simp: removes_def phase_of_def entry_def intro!: exI [of _ i] lifecycle.intros
          split: option.splits)
  qed
qed

theorem store_step_lifecycle_witness:
  "phase_of (entry demo_verifying demo_id) = InState Verifying \<and>
   phase_of (entry demo_completed demo_id) = InState (Completed Valid) \<and>
   (\<exists>i. (phase_of (entry demo_completed i) = phase_of (entry demo_verifying i) \<or>
         lifecycle (phase_of (entry demo_verifying i)) (phase_of (entry demo_completed i))) \<and>
        (\<forall>j. j = i \<or> records demo_completed j = records demo_verifying j))"
  using store_step_lifecycle [OF demo_reach(4) demo_steps(4)]
  by (simp add: demo_completed_records)
     (simp add: entry_def demo_verifying_records phase_of_def demo_record_def)

lemma store_step_diff:
  assumes X: "moka X" and inv: "store_inv X s" and stp: "store_step X now s evs t"
  shows "\<exists>c. filter (\<lambda>e. event_id e = i) evs = diff_events c i (entry s i) (entry t i)"
  using X stp
proof (cases rule: store_step_effect)
  case 1
  then show ?thesis by (auto simp: no_effect_def)
next
  case (2 k)
  then obtain r where t: "t = put_record s k r"
    and r: "record_step X (max_proof_bytes s) k (entry s k) r evs"
    by (auto simp: replaces_def entry_def)
  have evs: "evs = diff_events EvictSize k (entry s k) (Some r)"
    using record_step_events [OF r store_inv_entry [OF inv]] .
  have "filter (\<lambda>e. event_id e = i) evs = (if k = i then evs else [])"
    unfolding evs by (auto simp: filter_empty_conv filter_id_conv dest: diff_events_id)
  then show ?thesis using evs t by auto
next
  case (3 k)
  then show ?thesis
    by (auto simp: removes_def diff_events_def event_id_def entry_def split: option.splits)
qed

text \<open>
  C6. Subscribers are told the truth and the whole truth: the events of a step about an
  identifier are exactly the differences between its entry before and after the step.
\<close>

theorem store_events_exact:
  assumes "reachable_store X s" "store_step X now s evs t"
  shows "\<exists>c. filter (\<lambda>e. event_id e = i) evs = diff_events c i (entry s i) (entry t i)"
  using reachable_good [OF assms(1)] assms(2) by (blast intro: store_step_diff)

theorem store_events_exact_witness:
  "\<exists>c. filter (\<lambda>e. event_id e = demo_id) [ProofStored demo_id Rpc, VerificationChanged demo_id Queued]
     = diff_events c demo_id (entry demo_observed demo_id) (entry demo_queued demo_id)"
  using store_events_exact [OF demo_reach(2) demo_steps(2), of demo_id] .

lemma record_step_not_completed:
  assumes "record_step X m i (Some r) r' evs" "record_ok X m i r"
  shows "verification (metadata r) \<noteq> Some (Completed v)"
  using assms by cases (auto simp: record_ok_def)

lemma completed_step:
  assumes X: "moka X" and inv: "store_inv X s" and stp: "store_step X now s evs t"
    and r: "entry s i = Some r" "verification (metadata r) = Some (Completed v)"
  shows "entry t i = Some r \<or>
         (entry t i = None \<and> (\<exists>c done_at. evs = [ProofEvicted i c] \<and>
            completed_at (metadata r) = Some done_at \<and>
            (c \<in> {EvictSize, EvictExplicit} \<or> done_at + terminal_expiry s \<le> now)))"
proof -
  have ok: "record_ok X (max_proof_bytes s) i r" using store_inv_entry [OF inv, of i] r(1) by simp
  from X stp show ?thesis
  proof (cases rule: store_step_effect)
    case 1
    then show ?thesis using r(1) by (auto simp: no_effect_def)
  next
    case (2 k)
    then obtain r' where t: "t = put_record s k r'"
      and r': "record_step X (max_proof_bytes s) k (entry s k) r' evs"
      by (auto simp: replaces_def entry_def)
    have "k \<noteq> i" using r' r ok record_step_not_completed by fastforce
    then show ?thesis using t r(1) by simp
  next
    case (3 k)
    moreover have "completed_at (metadata r) \<noteq> None" using ok r(2) by (auto simp: record_ok_def)
    ultimately show ?thesis
      using r by (cases "k = i")
        (auto simp: removes_def entry_def expiry_duration_def intro: eviction_cause.exhaust)
  qed
qed

text \<open>
  C7. A verdict is final: a step leaves a completed record untouched or removes it, and a removal
  by expiry happens only after the retention period has passed since the completion.
\<close>

theorem verdict_final:
  assumes "reachable_store X s" "store_step X now s evs t"
    and "entry s i = Some r" "verification (metadata r) = Some (Completed v)"
  shows "entry t i = Some r \<or>
         (entry t i = None \<and> (\<exists>c done_at. evs = [ProofEvicted i c] \<and>
            completed_at (metadata r) = Some done_at \<and>
            (c \<in> {EvictSize, EvictExplicit} \<or> done_at + terminal_expiry s \<le> now)))"
  using reachable_good [OF assms(1)] completed_step assms(2-4) by blast

theorem verdict_final_witness:
  "\<exists>t. store_step demo_store_externs 9 demo_completed [ProofEvicted demo_id EvictExpired] t \<and>
     entry t demo_id = None \<and>
     (\<exists>done_at. completed_at (metadata (demo_record (Some (Completed Valid)) (Some 3))) = Some done_at
        \<and> done_at + terminal_expiry demo_completed \<le> 9)"
proof -
  obtain a where a: "records demo_completed demo_id = Some a"
    "arc_val a = demo_record (Some (Completed Valid)) (Some 3)"
    using demo_completed_records by (auto simp: entry_def)
  have ret: "terminal_expiry demo_completed = 5"
    using store_step_limits(2) [OF demo_moka demo_steps(1)] store_step_limits(2) [OF demo_moka demo_steps(2)]
      store_step_limits(2) [OF demo_moka demo_steps(3)] store_step_limits(2) [OF demo_moka demo_steps(4)]
    by (simp add: demo_store0_def)
  let ?t = "demo_completed\<lparr>records := (records demo_completed)(demo_id := None)\<rparr>"
  have step: "store_step demo_store_externs 9 demo_completed [ProofEvicted demo_id EvictExpired] ?t"
    using step_env [OF step_expired [of demo_completed demo_id a 5 3 9 demo_store_externs]] a ret
    by (simp add: demo_record_def expiry_duration_def eviction_listener_def)
  show ?thesis
    using step verdict_final [OF demo_reach(5) step demo_completed_records, of Valid]
    by (intro exI [of _ ?t]) (auto simp: demo_record_def entry_def)
qed

text \<open>
  C9. Committing an outcome is safe: for a job handed out by the store, after any further
  steps, \<open>finish_verification\<close> never reports an invalid transition. It commits exactly
  when the claimed record is still the stored one; a stale claim changes no record
  and publishes nothing.
\<close>

theorem finish_verification_safe:
  assumes "reachable_store X s" "begin_verification X s i = (t, evs, Inr (Some job))"
    and "(store_moves X)\<^sup>*\<^sup>* t u"
  shows "(if records u i = Some (job_claim job)
          then finish_verification X now u job oc =
            (put_record u i (finished_record now oc (arc_val (job_claim job))),
             [VerificationChanged i (outcome_state oc)], Inr ChangeUpdated)
          else finish_verification X now u job oc = (skip_record u, [], Inr ChangeUnchanged))"
proof -
  have X: "moka X" and inv: "store_inv X s" using reachable_good [OF assms(1)] by auto
  note b = begin_claim [OF X inv assms(2)]
  have "claim_ok job u" using claim_ok_moves [OF X b(3) assms(3)] .
  then have "a = job_claim job" if "records u i = Some a" "arc_ptr a = arc_ptr (job_claim job)" for a
    using that by (auto simp: claim_ok_def)
  then show ?thesis
    using b(2,4) by (auto simp: finish_verification_eq [OF X] split: option.splits)
qed

theorem finish_verification_safe_witness:
  "reachable_store demo_store_externs demo_queued \<and>
   begin_verification demo_store_externs demo_queued demo_id =
     (demo_verifying, [VerificationChanged demo_id Verifying], Inr (Some demo_job)) \<and>
   finish_verification demo_store_externs 3 demo_verifying demo_job (OutcomeCompleted Invalid) =
     (put_record demo_verifying demo_id
        (finished_record 3 (OutcomeCompleted Invalid) (arc_val (job_claim demo_job))),
      [VerificationChanged demo_id (Completed Invalid)], Inr ChangeUpdated)"
  using finish_verification_safe [OF demo_reach(3) demo_begin rtranclp.rtrancl_refl,
      of 3 "OutcomeCompleted Invalid"] demo_reach(3) demo_begin
  by (simp add: demo_verifying_records demo_job_def outcome_state_def)

text \<open>
  C10. A proof is verified by one job at a time, and only a proof that is due: a claim is
  granted exactly for a queued record, its proof has the claimed identifier, and as long as
  the claimed record is stored no second claim is granted.
\<close>

theorem begin_verification_exclusive:
  assumes "reachable_store X s" "begin_verification X s i = (t, evs, Inr (Some job))"
    and "(store_moves X)\<^sup>*\<^sup>* t u"
  shows "phase_of (entry s i) = InState Queued \<and> job_id job = i \<and>
         verification_id X (job_proof job) = i \<and>
         (records u i \<noteq> Some (job_claim job) \<or>
          begin_verification X u i = (skip_record u, [], Inr None))"
proof -
  have X: "moka X" and inv: "store_inv X s" using reachable_good [OF assms(1)] by auto
  note b = begin_claim [OF X inv assms(2)]
  have "store_inv X t"
    using store_step_inv [OF X inv step_begin [OF assms(2)]] .
  then have "verification_id X (job_proof job) = i"
    using store_invD(2) [OF _ b(1)] b(5) by (auto simp: record_ok_def content_ok_def)
  moreover have "phase_of (entry s i) = InState Queued"
    using b(6) by (auto simp: phase_of_def entry_def ready_for_verification_def)
  ultimately show ?thesis
    using b(2,4) by (auto simp: begin_verification_eq [OF X] ready_for_verification_def)
qed

theorem begin_verification_exclusive_witness:
  "phase_of (entry demo_queued demo_id) = InState Queued \<and>
   begin_verification demo_store_externs demo_verifying demo_id =
     (skip_record demo_verifying, [], Inr None)"
  using begin_verification_exclusive [OF demo_reach(3) demo_begin rtranclp.rtrancl_refl]
  by (simp add: demo_verifying_records demo_job_def)

text \<open>
  C32. A peer's response is accepted only for an identifier that waits for content: an oversized
  proof, a proof with another identifier and an identifier not observed on the chain are
  refused with their own errors and without effect; content that is already present wins.
\<close>

theorem attach_downloaded_proof_spec:
  assumes "reachable_store X s"
  shows "attach_downloaded_proof X now s i p peer =
    (if encoded_len X p > max_proof_bytes s
     then (s, [], Inl (ProofTooLarge i (encoded_len X p) (max_proof_bytes s)))
     else if verification_id X p \<noteq> i then (s, [], Inl (VerificationIdMismatch i))
     else case phase_of (entry s i) of
       Absent \<Rightarrow> (skip_record s, [], Inl (ProofNotObserved i))
     | AwaitingChain \<Rightarrow> (skip_record s, [], Inl (ProofNotObserved i))
     | InState st \<Rightarrow> (skip_record s, [], Inr ChangeUnchanged)
     | AwaitingContent \<Rightarrow>
         (put_record s i (queue_if_ready (with_content p (Peer peer) now (the (entry s i)))),
          [ProofStored i (Peer peer), VerificationChanged i Queued], Inr ChangeUpdated))"
proof -
  have X: "moka X" and inv: "store_inv X s" using reachable_good [OF assms] by auto
  show ?thesis
  proof (cases "records s i")
    case None
    then show ?thesis
      by (simp add: attach_downloaded_proof_def validate_proof_def Let_def attach_entry_def
          compute_eq [OF X] phase_of_def entry_def)
  next
    case (Some a)
    have "record_ok X (max_proof_bytes s) i (arc_val a)" using store_invD(2) [OF inv Some] .
    with Some show ?thesis
      by (cases "verification (metadata (arc_val a))"; cases "record_proof (arc_val a)";
          cases "chain_observed_at (metadata (arc_val a))")
         (auto simp: attach_downloaded_proof_def validate_proof_def Let_def attach_entry_def
            compute_eq [OF X] phase_of_def entry_def record_ok_def queued_event_def
            queue_if_ready_def with_content_def)
  qed
qed

theorem attach_downloaded_proof_spec_witness:
  "phase_of (entry demo_observed demo_id) = AwaitingContent \<and>
   snd (snd (attach_downloaded_proof demo_store_externs 2 demo_observed demo_id demo_proof [7])) =
     Inr ChangeUpdated \<and>
   snd (snd (attach_downloaded_proof demo_store_externs 2 demo_store0 demo_id demo_proof [7])) =
     Inl (ProofNotObserved demo_id)"
proof -
  have ph: "phase_of (entry demo_observed demo_id) = AwaitingContent"
    "phase_of (entry demo_store0 demo_id) = Absent"
    by (simp_all add: phase_of_def entry_def demo_observed_records demo_store0_def)
  show ?thesis
    using attach_downloaded_proof_spec [OF demo_reach(2), of 2 demo_id demo_proof "[7]"]
      attach_downloaded_proof_spec [OF demo_reach(1), of 2 demo_id demo_proof "[7]"] ph
    by (simp add: demo_observed_records demo_id_def [symmetric] demo_store0_def)
qed

text \<open>
  C33. The order in which a proof is observed on the chain and submitted locally does not
  matter: both orders succeed and end with the same queued record.
\<close>

theorem observe_insert_commute:
  assumes "reachable_store X s" "in_memory p" "encoded_len X p \<le> max_proof_bytes s"
    and "entry s (verification_id X p) = None"
  shows "let i = verification_id X p;
             (s1, _, o1) = observe_chain_verification X t1 s i;
             (s2, _, r2) = insert_local_proof X t2 s1 p source;
             (u1, _, q1) = insert_local_proof X t2 s p source;
             (u2, _, q2) = observe_chain_verification X t1 u1 i
         in o1 = Inr ChangeInserted \<and> r2 = Inr (i, ChangeUpdated) \<and>
            q1 = Inr (i, ChangeInserted) \<and> q2 = Inr ChangeUpdated \<and>
            s2 = u2 \<and> phase_of (entry s2 i) = InState Queued"
proof -
  have X: "moka X" using reachable_good [OF assms(1)] by auto
  have n: "records s (verification_id X p) = None" using assms(4) by (simp add: entry_def)
  show ?thesis
    using assms(2,3) n
    by (simp add: Let_def observe_chain_verification_def insert_local_proof_def observe_entry_def
        insert_entry_def validate_proof_def compute_eq [OF X] queue_if_ready_def with_content_def
        phase_of_def entry_def not_less put_record_def)
qed

theorem observe_insert_commute_witness:
  "phase_of (entry (fst (insert_local_proof demo_store_externs 2
     (fst (observe_chain_verification demo_store_externs 1 demo_store0 demo_id)) demo_proof Rpc)) demo_id)
   = InState Queued"
proof -
  have h: "encoded_len demo_store_externs demo_proof \<le> max_proof_bytes demo_store0"
    "entry demo_store0 (verification_id demo_store_externs demo_proof) = None"
    by (simp_all add: demo_store0_def entry_def)
  show ?thesis
    using observe_insert_commute [OF demo_reach(1) demo_proof_in_memory h, of 1 2 Rpc]
    unfolding demo_id_def [symmetric] Let_def split_beta by blast
qed

definition phase_status :: "phase \<Rightarrow> verification_status" where
  "phase_status ph =
     (case ph of
        InState Queued \<Rightarrow> StatusQueued
      | InState Verifying \<Rightarrow> StatusVerifying
      | InState (Completed v) \<Rightarrow> StatusCompleted v
      | InState (Failed f) \<Rightarrow> StatusFailed f
      | _ \<Rightarrow> StatusUnavailable)"

lemma status_of_phase: "status_of e = phase_status (phase_of (map_option arc_val e))"
  by (auto simp: status_of_def phase_status_def phase_of_def split: option.split verification_state.split)

text \<open>
  The two queries of the chain agree: the status of an identifier shows its phase, and the
  results are the completed ones, in the order of the request.
\<close>

lemma statuses_eq:
  assumes "moka X"
  shows "statuses X s is = map (\<lambda>i. \<lparr>status_id = i, status = phase_status (phase_of (entry s i))\<rparr>) is"
  by (simp add: statuses_def moka_getD [OF assms] status_of_phase entry_def)

lemma completed_results_eq:
  assumes "moka X"
  shows "completed_results X s is =
    List.map_filter (\<lambda>i. case phase_of (entry s i) of
        InState (Completed v) \<Rightarrow> Some \<lparr>completed_id = i, completed_verdict = v\<rparr>
      | _ \<Rightarrow> None) is"
  by (induction "is")
     (auto simp: moka_getD [OF assms] entry_def phase_of_def map_filter_simps
        split: option.split verification_state.split)

definition lists_exactly :: "stored_proof list \<Rightarrow> store \<Rightarrow> (verification_id \<Rightarrow> bool) \<Rightarrow> bool" where
  "lists_exactly ps s P \<longleftrightarrow>
     distinct (map stored_id ps) \<and> {i. P i} = stored_id ` set ps \<and>
     (\<forall>q \<in> set ps. records s (stored_id q) = Some (stored_record q))"

lemma snapshot_lists:
  assumes "moka X" "finite (dom (records s))"
  shows "lists_exactly (snapshot X s P) s (\<lambda>i. \<exists>r. entry s i = Some r \<and> P r)"
proof -
  have it: "distinct (map fst (cache_iter X (records s)))"
    "(k, v) \<in> set (cache_iter X (records s)) \<longleftrightarrow> records s k = Some v" for k v
    using assms by (auto simp: moka_def moka_iter_def)
  have ids: "map stored_id (snapshot X s P) =
      map fst (filter (\<lambda>(i, a). P (arc_val a)) (cache_iter X (records s)))"
    by (simp add: snapshot_def comp_def split_beta)
  show ?thesis
    using it unfolding lists_exactly_def ids
    by (auto simp: snapshot_def entry_def image_iff intro: distinct_map_filter)
qed

lemma snapshot_phases:
  assumes X: "moka X" and inv: "store_inv X s"
  shows "lists_exactly (records_waiting_for_content X s) s (\<lambda>i. phase_of (entry s i) = AwaitingContent)"
    and "lists_exactly (records_ready_for_verification X s) s (\<lambda>i. phase_of (entry s i) = InState Queued)"
    and "lists_exactly (locally_available_proofs X s) s
           (\<lambda>i. phase_of (entry s i) \<notin> {Absent, AwaitingContent})"
proof -
  have fin: "finite (dom (records s))" using inv by (simp add: store_inv_def)
  have ph: "phase_of (entry s i) = AwaitingContent \<longleftrightarrow> (\<exists>r. entry s i = Some r \<and> waiting_for_content r)"
    "phase_of (entry s i) = InState Queued \<longleftrightarrow> (\<exists>r. entry s i = Some r \<and> ready_for_verification r)"
    "phase_of (entry s i) \<notin> {Absent, AwaitingContent} \<longleftrightarrow> (\<exists>r. entry s i = Some r \<and> record_proof r \<noteq> None)"
    for i
    using store_inv_entry [OF inv, of i]
    by (auto simp: phase_of_def waiting_for_content_def ready_for_verification_def record_ok_def
        split: option.splits)
  note lists = snapshot_lists [OF X fin]
  show "lists_exactly (records_waiting_for_content X s) s (\<lambda>i. phase_of (entry s i) = AwaitingContent)"
    unfolding ph records_waiting_for_content_def by (rule lists)
  show "lists_exactly (records_ready_for_verification X s) s (\<lambda>i. phase_of (entry s i) = InState Queued)"
    unfolding ph records_ready_for_verification_def by (rule lists)
  show "lists_exactly (locally_available_proofs X s) s
      (\<lambda>i. phase_of (entry s i) \<notin> {Absent, AwaitingContent})"
    unfolding ph locally_available_proofs_def by (rule lists)
qed

end
