(* ===== verification/Verification.thy ===== *)
theory Verification
  imports Store_Lifecycle
begin

text \<open>
  \<open>src/verification/mod.rs\<close> and \<open>src/verification/worker.rs\<close>: the registry of proof-system
  backends, the execution of one job with timeouts and retries, and the worker that
  claims queued proofs, runs a bounded number of jobs and commits their outcomes. The
  worker and the store are composed to a system whose other participants may call the
  store at any moment; its steps are the bodies of the worker's \<open>select!\<close> loop.
\<close>

section \<open>Backends\<close>

text \<open>
  What one call of \<open>Verifier::verify\<close> does: it returns after some time, panics after some
  time, or never ends. A backend is a parameter of the model; it answers for a proof and
  the number of the attempt.
\<close>

datatype verify_run =
    Returns duration "verification_failure + verdict"
  | Panics duration
  | Hangs

type_synonym verifier = "zk_proof \<Rightarrow> nat \<Rightarrow> verify_run"

type_synonym verifier_registry = "proof_type \<rightharpoonup> verifier"

fun registry_insert_all ::
  "verifier_registry \<Rightarrow> (proof_type \<times> verifier) list \<Rightarrow> verifier_registry res" where
  "registry_insert_all m [] = Inr m"
| "registry_insert_all m ((t, v) # vs) =
     (if m t \<noteq> None then Inl (DuplicateVerifier t) else registry_insert_all (m(t \<mapsto> v)) vs)"

definition registry_new :: "(proof_type \<times> verifier) list \<Rightarrow> verifier_registry res" where
  "registry_new vs = registry_insert_all Map.empty vs"

definition registry_get :: "verifier_registry \<Rightarrow> proof_type \<Rightarrow> verifier option" where
  "registry_get m t = m t"

section \<open>Execution of a job\<close>

text \<open>\<open>None\<close> is a panic: of the \<open>expect\<close> on the static diagnostic, of a shift by 32 or
  more bits, and of the \<open>unreachable!\<close> at the end of the retry loop.\<close>

definition failure :: "string \<Rightarrow> string \<Rightarrow> bool \<Rightarrow> verification_failure option" where
  "failure code msg retryable =
     (case verification_failure_new code msg retryable of Inl _ \<Rightarrow> None | Inr f \<Rightarrow> Some f)"

definition failed_outcome :: "string \<Rightarrow> string \<Rightarrow> bool \<Rightarrow> verification_outcome option" where
  "failed_outcome code msg retryable = map_option OutcomeFailed (failure code msg retryable)"

text \<open>
  \<open>tokio::time::timeout\<close> polls the call first, so a call that ends exactly at the deadline
  still counts. After a timeout the call is cancelled and awaited for the cleanup period,
  which does not change the outcome.
\<close>

definition execute_attempt :: "verifier \<Rightarrow> zk_proof \<Rightarrow> nat \<Rightarrow> duration \<Rightarrow> verification_outcome option" where
  "execute_attempt v p attempt attempt_timeout =
     (let timed_out = failed_outcome ''verification_timeout'' ''verification attempt timed out'' True
      in case v p attempt of
        Returns d r \<Rightarrow>
          if d \<le> attempt_timeout
          then (case r of Inr verdict \<Rightarrow> Some (OutcomeCompleted verdict)
                        | Inl f \<Rightarrow> Some (OutcomeFailed f))
          else timed_out
      | Panics d \<Rightarrow>
          if d \<le> attempt_timeout
          then failed_outcome ''verifier_panicked'' ''verifier backend panicked'' False
          else timed_out
      | Hangs \<Rightarrow> timed_out)"

definition outcome_retryable :: "verification_outcome \<Rightarrow> bool" where
  "outcome_retryable oc = (case oc of OutcomeFailed f \<Rightarrow> failure_retryable f | OutcomeCompleted _ \<Rightarrow> False)"

definition shl_u32 :: "nat \<Rightarrow> nat \<Rightarrow> nat option" where
  "shl_u32 a k = (if k < 32 then Some ((a * 2 ^ k) mod u32_bound) else None)"

text \<open>The retry loop from attempt \<open>k\<close> on, with the delays slept between the attempts.\<close>

function execute_loop ::
  "verifier \<Rightarrow> zk_proof \<Rightarrow> verification_config \<Rightarrow> nat \<Rightarrow> (verification_outcome \<times> duration list) option" where
  "execute_loop v p c k =
     (if k > max_retries c then None
      else Option.bind (execute_attempt v p k (job_timeout c)) (\<lambda>oc.
        if \<not> outcome_retryable oc \<or> k = max_retries c then Some (oc, [])
        else Option.bind (shl_u32 1 k) (\<lambda>multiplier.
          map_option (\<lambda>(oc', ds). (oc', duration_saturating_mul (retry_backoff c) multiplier # ds))
            (execute_loop v p c (Suc k)))))"
  by auto

termination by (relation "measure (\<lambda>(v, p, c, k). Suc (max_retries c) - k)") auto

declare execute_loop.simps [simp del]

definition execute_job ::
  "verification_job \<Rightarrow> verifier option \<Rightarrow> verification_config
    \<Rightarrow> (verification_outcome \<times> duration list) option" where
  "execute_job job v c =
     (case v of
        None \<Rightarrow> map_option (\<lambda>oc. (oc, []))
          (failed_outcome ''unsupported_proof_type''
             ''no verifier backend is registered for this proof type'' False)
      | Some v \<Rightarrow> execute_loop v (job_proof job) c 0)"

section \<open>The worker\<close>

text \<open>
  The queue of identifiers to claim, a \<open>VecDeque\<close> beside the \<open>HashSet\<close> of its members, and the
  worker with the identifiers and the running jobs it has claimed.
\<close>

record pending_queue =
  pending :: "verification_id list"
  pending_ids :: "verification_id set"

record worker = pending_queue +
  active_ids :: "verification_id set"
  jobs :: "verification_job list"

definition worker_new :: worker where
  "worker_new = \<lparr>pending = [], pending_ids = {}, active_ids = {}, jobs = []\<rparr>"

definition push_pending :: "verification_id \<Rightarrow> 'q pending_queue_scheme \<Rightarrow> 'q pending_queue_scheme" where
  "push_pending i q =
     (if i \<in> pending_ids q then q
      else q\<lparr>pending := pending q @ [i], pending_ids := insert i (pending_ids q)\<rparr>)"

definition pop_pending ::
  "'q pending_queue_scheme \<Rightarrow> (verification_id \<times> 'q pending_queue_scheme) option" where
  "pop_pending q =
     (case pending q of
        [] \<Rightarrow> None
      | i # is \<Rightarrow> Some (i, q\<lparr>pending := is, pending_ids := pending_ids q - {i}\<rparr>))"

definition clear_pending :: "'q pending_queue_scheme \<Rightarrow> 'q pending_queue_scheme" where
  "clear_pending q = q\<lparr>pending := [], pending_ids := {}\<rparr>"

definition remove_pending :: "verification_id \<Rightarrow> 'q pending_queue_scheme \<Rightarrow> 'q pending_queue_scheme" where
  "remove_pending i q =
     (if i \<in> pending_ids q
      then q\<lparr>pending := filter (\<lambda>j. j \<noteq> i) (pending q), pending_ids := pending_ids q - {i}\<rparr>
      else q)"

definition enqueue :: "verification_id \<Rightarrow> worker \<Rightarrow> worker" where
  "enqueue i w = (if i \<in> active_ids w then w else push_pending i w)"

definition reconcile_ready_records :: "'x store_externs_scheme \<Rightarrow> store \<Rightarrow> worker \<Rightarrow> worker" where
  "reconcile_ready_records X s w =
     fold (\<lambda>p. enqueue (stored_id p)) (records_ready_for_verification X s) (clear_pending w)"

datatype recv_error = Lagged nat | Closed

definition handle_store_result ::
  "'x store_externs_scheme \<Rightarrow> store \<Rightarrow> worker \<Rightarrow> recv_error + proof_store_event \<Rightarrow> worker res" where
  "handle_store_result X s w ev =
     (case ev of
        Inr (VerificationChanged i Queued) \<Rightarrow> Inr (enqueue i w)
      | Inr (ProofEvicted i _) \<Rightarrow> Inr (remove_pending i w)
      | Inr _ \<Rightarrow> Inr w
      | Inl (Lagged _) \<Rightarrow> Inr (reconcile_ready_records X s w)
      | Inl Closed \<Rightarrow> Inl (ProofStoreError ''proof store event channel closed''))"

text \<open>One iteration of the loop of \<open>start_ready_jobs\<close>, and the loop.\<close>

datatype 'a iteration = Break | Continue 'a | Fail 'a error

definition start_next ::
  "'x store_externs_scheme \<Rightarrow> bool \<Rightarrow> verification_config \<Rightarrow> store \<Rightarrow> worker
    \<Rightarrow> (store \<times> proof_store_event list \<times> worker) iteration" where
  "start_next X stop c s w =
     (if \<not> length (jobs w) < max_concurrent_jobs c then Break
      else if stop then Break
      else case pop_pending w of
        None \<Rightarrow> Break
      | Some (i, w) \<Rightarrow>
          if i \<in> active_ids w then Continue (s, [], w)
          else (case begin_verification X s i of
              (s, evs, Inl e) \<Rightarrow> Fail (s, evs, w) e
            | (s, evs, Inr None) \<Rightarrow> Continue (s, evs, w)
            | (s, evs, Inr (Some job)) \<Rightarrow>
                Continue (s, evs, w\<lparr>active_ids := insert i (active_ids w), jobs := jobs w @ [job]\<rparr>)))"

lemma start_next_shrinks:
  "start_next X stop c s w = Continue (s', evs, w') \<Longrightarrow> length (pending w') < length (pending w)"
  by (auto simp: start_next_def pop_pending_def split: if_splits list.splits prod.splits sum.splits
      option.splits)

function start_ready_jobs ::
  "'x store_externs_scheme \<Rightarrow> bool \<Rightarrow> verification_config \<Rightarrow> store \<Rightarrow> worker
    \<Rightarrow> store \<times> proof_store_event list \<times> worker \<times> unit res" where
  "start_ready_jobs X stop c s w =
     (case start_next X stop c s w of
        Break \<Rightarrow> (s, [], w, Inr ())
      | Fail (s', evs, w') e \<Rightarrow> (s', evs, w', Inl e)
      | Continue (s', evs, w') \<Rightarrow>
          (let (s'', evs', w'', r) = start_ready_jobs X stop c s' w' in (s'', evs @ evs', w'', r)))"
  by pat_completeness auto

termination
  by (relation "measure (\<lambda>(X, stop, c, s, w). length (pending w))") (auto dest: start_next_shrinks)

declare start_ready_jobs.simps [simp del]

text \<open>A finished task of the \<open>JoinSet\<close> gives its job and outcome, or the error of a task that
  panicked.\<close>

definition commit_finish ::
  "'x store_externs_scheme \<Rightarrow> instant \<Rightarrow> store \<Rightarrow> worker \<Rightarrow> verification_job \<Rightarrow> verification_outcome
    \<Rightarrow> store \<times> proof_store_event list \<times> worker res" where
  "commit_finish X now s w job oc =
     (let w = w\<lparr>active_ids := active_ids w - {job_id job}\<rparr>
      in case finish_verification X now s job oc of
           (s, evs, Inl e) \<Rightarrow> (s, evs, Inl e)
         | (s, evs, Inr _) \<Rightarrow> (s, evs, Inr w))"

definition commit_recheck :: "'x store_externs_scheme \<Rightarrow> store \<Rightarrow> verification_id \<Rightarrow> worker \<Rightarrow> worker" where
  "commit_recheck X s i w =
     (case store_get X s i of
        None \<Rightarrow> w
      | Some a \<Rightarrow> if verification (metadata (arc_val a)) = Some Queued then enqueue i w else w)"

definition commit_completion ::
  "'x store_externs_scheme \<Rightarrow> instant \<Rightarrow> store \<Rightarrow> worker
    \<Rightarrow> join_error + (verification_job \<times> verification_outcome)
    \<Rightarrow> store \<times> proof_store_event list \<times> worker res" where
  "commit_completion X now s w completion =
     (case completion of
        Inl e \<Rightarrow> (s, [], Inl (Task e))
      | Inr (job, oc) \<Rightarrow>
          (case commit_finish X now s w job oc of
             (s, evs, Inl e) \<Rightarrow> (s, evs, Inl e)
           | (s, evs, Inr w) \<Rightarrow> (s, evs, Inr (commit_recheck X s (job_id job) w))))"

text \<open>
  The end of \<open>run\<close>: nothing more is claimed, and the running jobs are joined and committed; the
  list holds their completions in the order in which they finish.
\<close>

fun drain_jobs ::
  "'x store_externs_scheme \<Rightarrow> instant \<Rightarrow> store \<Rightarrow> worker
    \<Rightarrow> (join_error + (verification_job \<times> verification_outcome)) list
    \<Rightarrow> store \<times> proof_store_event list \<times> worker res" where
  "drain_jobs X now s w [] = (s, [], Inr w)"
| "drain_jobs X now s w (completion # cs) =
     (case commit_completion X now s w completion of
        (s, evs, Inl e) \<Rightarrow> (s, evs, Inl e)
      | (s, evs, Inr w) \<Rightarrow>
          (let (s, evs', r) = drain_jobs X now s w cs in (s, evs @ evs', r)))"

definition drain_worker ::
  "'x store_externs_scheme \<Rightarrow> instant \<Rightarrow> store \<Rightarrow> worker
    \<Rightarrow> (join_error + (verification_job \<times> verification_outcome)) list
    \<Rightarrow> store \<times> proof_store_event list \<times> worker res" where
  "drain_worker X now s w cs = drain_jobs X now s ((clear_pending w)\<lparr>jobs := []\<rparr>) cs"

section \<open>Jobs: total, bounded, faithful to the backend\<close>

lemma registry_insert_all_Inr:
  "registry_insert_all m vs = Inr r \<longleftrightarrow>
     distinct (map fst vs) \<and> (\<forall>t \<in> fst ` set vs. m t = None) \<and> r = m ++ map_of vs"
proof (induction vs arbitrary: m)
  case (Cons a vs)
  obtain t v where a: "a = (t, v)" by fastforce
  have "m(t \<mapsto> v) ++ map_of vs = m ++ map_of ((t, v) # vs)" if "t \<notin> fst ` set vs"
    using that by (simp add: map_add_upd_left dom_map_of_conv_image_fst)
  moreover have "(\<forall>u \<in> fst ` set vs. (m(t \<mapsto> v)) u = None) \<longleftrightarrow>
      t \<notin> fst ` set vs \<and> (\<forall>u \<in> fst ` set vs. m u = None)"
    by (metis fun_upd_other fun_upd_same option.distinct(1))
  ultimately show ?case unfolding a registry_insert_all.simps if_Inl_Inr_iff Cons.IH
    by (auto simp del: map_of.simps)
qed auto

lemma static_failures:
  "failed_outcome ''verification_timeout'' ''verification attempt timed out'' True =
     Some (OutcomeFailed \<lparr>failure_code = ''verification_timeout'',
       failure_message = ''verification attempt timed out'', failure_retryable = True\<rparr>)"
  "failed_outcome ''verifier_panicked'' ''verifier backend panicked'' False =
     Some (OutcomeFailed \<lparr>failure_code = ''verifier_panicked'',
       failure_message = ''verifier backend panicked'', failure_retryable = False\<rparr>)"
  "failed_outcome ''unsupported_proof_type''
      ''no verifier backend is registered for this proof type'' False =
     Some (OutcomeFailed \<lparr>failure_code = ''unsupported_proof_type'',
       failure_message = ''no verifier backend is registered for this proof type'',
       failure_retryable = False\<rparr>)"
  by code_simp+

definition registry_ok :: "verifier_registry \<Rightarrow> bool" where
  "registry_ok R \<longleftrightarrow>
     (\<forall>t v p k d f. R t = Some v \<and> v p k = Returns d (Inl f) \<longrightarrow> failure_ok f)"

text \<open>The outcome of one attempt as a total function.\<close>

definition attempt_outcome :: "verifier \<Rightarrow> zk_proof \<Rightarrow> duration \<Rightarrow> nat \<Rightarrow> verification_outcome" where
  "attempt_outcome v p limit k = the (execute_attempt v p k limit)"

lemma execute_attempt_total: "execute_attempt v p k limit = Some (attempt_outcome v p limit k)"
  by (auto simp: attempt_outcome_def execute_attempt_def Let_def static_failures
      split: verify_run.splits sum.splits)

lemma attempt_completed:
  "attempt_outcome v p limit k = OutcomeCompleted vd \<longleftrightarrow> (\<exists>d. v p k = Returns d (Inr vd) \<and> d \<le> limit)"
  by (auto simp: attempt_outcome_def execute_attempt_def Let_def static_failures
      split: verify_run.splits sum.splits)

lemma failed_outcome_ok: "failed_outcome a b r = Some oc \<Longrightarrow> outcome_ok oc"
  by (auto simp: failed_outcome_def failure_def outcome_ok_def verification_failure_new_Inr
      split: sum.splits)

text \<open>
  The trait \<open>Verifier\<close> as the worker relies on it: the diagnostics of a backend are within the wire
  bounds.
\<close>

locale verifier_backend =
  fixes verify :: verifier
  assumes diagnosed: "verify p k = Returns d (Inl f) \<Longrightarrow> failure_ok f"
begin

lemma attempt_failed_ok: "outcome_ok (attempt_outcome verify p limit k)"
proof -
  have "outcome_ok oc" if "execute_attempt verify p k limit = Some oc" for oc
    using that diagnosed failed_outcome_ok unfolding execute_attempt_def Let_def
    by (fastforce simp: outcome_ok_def split: verify_run.splits sum.splits if_splits)
  then show ?thesis using execute_attempt_total by blast
qed

lemma single_registry: "registry_ok [t \<mapsto> verify]"
  using diagnosed by (auto simp: registry_ok_def split: if_splits)

end

lemma registry_backend: "registry_ok R \<Longrightarrow> R t = Some v \<Longrightarrow> verifier_backend v"
  unfolding registry_ok_def verifier_backend_def by blast

text \<open>
  The retry loop stops at the first attempt whose outcome is not retryable, and at the last
  attempt otherwise.
\<close>

definition last_attempt :: "verifier \<Rightarrow> zk_proof \<Rightarrow> verification_config \<Rightarrow> nat \<Rightarrow> nat \<Rightarrow> bool" where
  "last_attempt v p c k n \<longleftrightarrow>
     k \<le> n \<and> n \<le> max_retries c \<and>
     (\<forall>j. k \<le> j \<and> j < n \<longrightarrow> outcome_retryable (attempt_outcome v p (job_timeout c) j)) \<and>
     (n = max_retries c \<or> \<not> outcome_retryable (attempt_outcome v p (job_timeout c) n))"

definition backoff_delays :: "verification_config \<Rightarrow> nat \<Rightarrow> nat \<Rightarrow> duration list" where
  "backoff_delays c k n = map (\<lambda>j. duration_saturating_mul (retry_backoff c) (2 ^ j)) [k ..< n]"

lemma execute_loop_spec:
  assumes "max_retries c \<le> 31" "k \<le> max_retries c"
  shows "\<exists>n. last_attempt v p c k n \<and>
    execute_loop v p c k = Some (attempt_outcome v p (job_timeout c) n, backoff_delays c k n)"
  using assms(2)
proof (induction "max_retries c - k" arbitrary: k)
  case 0
  then have k: "k = max_retries c" by simp
  then show ?case
    by (auto simp: execute_loop.simps [of v p c "max_retries c"] execute_attempt_total last_attempt_def
        backoff_delays_def intro!: exI [of _ k])
next
  case (Suc d)
  then have k: "k < max_retries c" "d = max_retries c - Suc k" by simp_all
  show ?case
  proof (cases "outcome_retryable (attempt_outcome v p (job_timeout c) k)")
    case False
    with k show ?thesis
      by (auto simp: execute_loop.simps [of v p c k] execute_attempt_total last_attempt_def
          backoff_delays_def intro!: exI [of _ k])
  next
    case True
    from Suc(1) [OF k(2)] k(1) obtain n where n: "last_attempt v p c (Suc k) n"
      "execute_loop v p c (Suc k) = Some (attempt_outcome v p (job_timeout c) n, backoff_delays c (Suc k) n)"
      by auto
    have pow: "(2::nat) ^ k < u32_bound"
    proof -
      have "(2::nat) ^ k \<le> 2 ^ 31" using k assms(1) by (intro power_increasing) auto
      then show ?thesis by (simp add: word_bounds)
    qed
    have "last_attempt v p c k n"
      using n(1) True unfolding last_attempt_def by (metis Suc_leD Suc_leI le_neq_implies_less)
    moreover have "execute_loop v p c k =
        Some (attempt_outcome v p (job_timeout c) n, backoff_delays c k n)"
      using True k n assms(1) pow
      by (simp add: execute_loop.simps [of v p c k] execute_attempt_total shl_u32_def last_attempt_def
          backoff_delays_def upt_conv_Cons)
    ultimately show ?thesis by blast
  qed
qed

lemma last_attempt_unique: "last_attempt v p c k n \<Longrightarrow> last_attempt v p c k m \<Longrightarrow> n = m"
  unfolding last_attempt_def by (metis linorder_neqE_nat order.strict_trans2 order_less_irrefl)

section \<open>The queue of identifiers to claim\<close>

text \<open>
  The contract the worker relies on: a first-in first-out queue that holds every element at
  most once. It is stated on the list of waiting elements.
\<close>

locale unique_queue =
  fixes items :: "'q \<Rightarrow> 'a list"
    and inv :: "'q \<Rightarrow> bool"
    and push :: "'a \<Rightarrow> 'q \<Rightarrow> 'q"
    and pop :: "'q \<Rightarrow> ('a \<times> 'q) option"
    and drop :: "'a \<Rightarrow> 'q \<Rightarrow> 'q"
    and clear :: "'q \<Rightarrow> 'q"
  assumes items_distinct: "inv q \<Longrightarrow> distinct (items q)"
    and push_items: "inv q \<Longrightarrow> items (push x q) = (if x \<in> set (items q) then items q else items q @ [x])"
    and pop_items: "inv q \<Longrightarrow> (case items q of [] \<Rightarrow> pop q = None
        | x # xs \<Rightarrow> (\<exists>q'. pop q = Some (x, q') \<and> items q' = xs \<and> inv q'))"
    and drop_items: "inv q \<Longrightarrow> items (drop x q) = filter (\<lambda>y. y \<noteq> x) (items q)"
    and clear_items: "items (clear q) = []"
    and push_inv: "inv q \<Longrightarrow> inv (push x q)"
    and drop_inv: "inv q \<Longrightarrow> inv (drop x q)"
    and clear_inv: "inv (clear q)"
begin

lemma pop_Some:
  assumes "inv q" "pop q = Some (x, q')"
  shows "items q = x # items q'" "inv q'" "x \<notin> set (items q')"
  using pop_items [OF assms(1)] assms(2) items_distinct [OF assms(1)] by (auto split: list.splits)

lemma pop_None: "inv q \<Longrightarrow> pop q = None \<longleftrightarrow> items q = []"
  using pop_items [of q] by (auto split: list.splits)

lemma push_set: "inv q \<Longrightarrow> set (items (push x q)) = insert x (set (items q))"
  by (auto simp: push_items)

lemma push_all_inv: "inv q \<Longrightarrow> inv (fold push xs q)"
  by (induction xs arbitrary: q) (auto intro: push_inv)

lemma push_all_set: "inv q \<Longrightarrow> set (items (fold push xs q)) = set (items q) \<union> set xs"
  by (induction xs arbitrary: q) (auto simp: push_set push_inv)

end

definition queue_inv :: "'q pending_queue_scheme \<Rightarrow> bool" where
  "queue_inv q \<longleftrightarrow> distinct (pending q) \<and> pending_ids q = set (pending q)"

interpretation pq: unique_queue pending queue_inv push_pending pop_pending remove_pending clear_pending
  by unfold_locales
     (auto simp: queue_inv_def push_pending_def pop_pending_def remove_pending_def clear_pending_def
        intro: filter_True [symmetric] split: list.splits)

lemma worker_fields [simp]:
  "active_ids (push_pending i w) = active_ids w"
  "jobs (push_pending i w) = jobs w"
  "active_ids (remove_pending i w) = active_ids w"
  "jobs (remove_pending i w) = jobs w"
  "active_ids (clear_pending w) = active_ids w"
  "jobs (clear_pending w) = jobs w"
  by (simp_all add: push_pending_def remove_pending_def clear_pending_def)

lemma pop_pending_fields:
  "pop_pending w = Some (i, w') \<Longrightarrow> active_ids w' = active_ids w \<and> jobs w' = jobs w"
  by (auto simp: pop_pending_def split: list.splits)

lemma queue_inv_upd [simp]:
  "queue_inv (w\<lparr>active_ids := A\<rparr>) = queue_inv w"
  "queue_inv (w\<lparr>jobs := js\<rparr>) = queue_inv w"
  by (simp_all add: queue_inv_def)

section \<open>Invariant of the worker\<close>

text \<open>
  The queue is sound, the running jobs have different identifiers, which are the active ones,
  none of them waits in the queue, and there are at most as many jobs as configured.
\<close>

definition worker_inv :: "verification_config \<Rightarrow> worker \<Rightarrow> bool" where
  "worker_inv c w \<longleftrightarrow>
     queue_inv w \<and> set (pending w) \<inter> active_ids w = {} \<and> active_ids w = job_id ` set (jobs w) \<and>
     distinct (map job_id (jobs w)) \<and> length (jobs w) \<le> max_concurrent_jobs c"

lemma enqueue_inv: "worker_inv c w \<Longrightarrow> worker_inv c (enqueue i w)"
  by (auto simp: worker_inv_def enqueue_def pq.push_set pq.push_inv)

lemma remove_pending_inv: "worker_inv c w \<Longrightarrow> worker_inv c (remove_pending i w)"
  by (auto simp: worker_inv_def pq.drop_items pq.drop_inv)

lemma clear_pending_inv: "worker_inv c w \<Longrightarrow> worker_inv c (clear_pending w)"
  by (auto simp: worker_inv_def pq.clear_items pq.clear_inv)

lemma enqueue_set:
  "worker_inv c w \<Longrightarrow>
     set (pending (enqueue i w)) = (if i \<in> active_ids w then set (pending w) else insert i (set (pending w)))"
  by (auto simp: worker_inv_def enqueue_def pq.push_set)

lemma enqueue_fields [simp]: "active_ids (enqueue i w) = active_ids w" "jobs (enqueue i w) = jobs w"
  by (simp_all add: enqueue_def)

lemma enqueue_all:
  assumes "worker_inv c w"
  shows "worker_inv c (fold enqueue is w) \<and> active_ids (fold enqueue is w) = active_ids w \<and>
         jobs (fold enqueue is w) = jobs w \<and>
         set (pending (fold enqueue is w)) = set (pending w) \<union> (set is - active_ids w)"
  using assms
proof (induction "is" arbitrary: w)
  case (Cons i "is")
  then show ?case using Cons.IH [OF enqueue_inv [OF Cons.prems, of i]]
    by (auto simp: enqueue_set [OF Cons.prems])
qed simp

end
