(* ===== verification/Verification_System.thy ===== *)
theory Verification_System
  imports Verification
begin

text \<open>
  The worker together with the store and the channel that carries the store's events to it.
  Other participants may call the store between any two steps of the worker. The lemmas
  show that no queued proof is forgotten, that the worker never stops with an error, and
  that a verdict in the store was returned by the registered backend for exactly the
  stored proof.
\<close>

section \<open>States and steps\<close>

text \<open>
  A store operation first commits its update of the entry and then publishes its events, so between
  the two other tasks may act: \<open>unpublished\<close> holds the events that tasks have still to send, a
  list per task in the order of that task. An eviction is different: Moka calls the
  listener while it holds the lock of the entry, so its event is sent before the entry can
  change again. \<open>inbox\<close> holds the events sent and not yet received. When the bounded channel
  overflows, the oldest events are lost and the next call of \<open>recv\<close> reports
  \<open>Lagged\<close>. \<open>committing\<close> is the identifier between the two store calls of
  \<open>commit_completion\<close>, and \<open>draining\<close> tells that the worker has left its loop to join the
  running jobs.
\<close>

record system =
  st :: store
  wk :: worker
  inbox :: "proof_store_event list"
  unpublished :: "proof_store_event list list"
  lagged :: bool
  committing :: "verification_id option"
  draining :: bool

definition is_eviction :: "proof_store_event \<Rightarrow> bool" where
  "is_eviction e = (case e of ProofEvicted _ _ \<Rightarrow> True | _ \<Rightarrow> False)"

text \<open>What a committed operation leaves in the channel and among the events to send.\<close>

definition publish_later :: "proof_store_event list \<Rightarrow> system \<Rightarrow> system" where
  "publish_later evs s =
     s\<lparr>inbox := inbox s @ filter is_eviction evs,
       unpublished := unpublished s @ filter (\<lambda>es. es \<noteq> []) [filter (\<lambda>e. \<not> is_eviction e) evs]\<rparr>"

inductive sys_step ::
  "'x store_externs_scheme \<Rightarrow> verifier_registry \<Rightarrow> verification_config \<Rightarrow> system \<Rightarrow> system \<Rightarrow> bool"
  for X R c where
  sys_env:
    "env_step X now (st s) evs t \<Longrightarrow> sys_step X R c s (publish_later evs (s\<lparr>st := t\<rparr>))"
| sys_publish:
    "unpublished s = before @ (e # es) # after \<Longrightarrow>
     sys_step X R c s (s\<lparr>inbox := inbox s @ [e], unpublished := before @ filter (\<lambda>es. es \<noteq> []) [es] @ after\<rparr>)"
| sys_overflow:
    "inbox s = old @ kept \<Longrightarrow> old \<noteq> [] \<Longrightarrow> sys_step X R c s (s\<lparr>inbox := kept, lagged := True\<rparr>)"
| sys_reconcile:
    "committing s = None \<Longrightarrow> \<not> draining s \<Longrightarrow>
     sys_step X R c s (s\<lparr>wk := reconcile_ready_records X (st s) (wk s)\<rparr>)"
| sys_recv:
    "committing s = None \<Longrightarrow> \<not> draining s \<Longrightarrow> \<not> lagged s \<Longrightarrow> inbox s = e # es \<Longrightarrow>
     handle_store_result X (st s) (wk s) (Inr e) = Inr w \<Longrightarrow>
     sys_step X R c s (s\<lparr>wk := w, inbox := es\<rparr>)"
| sys_lagged:
    "committing s = None \<Longrightarrow> \<not> draining s \<Longrightarrow> lagged s \<Longrightarrow>
     handle_store_result X (st s) (wk s) (Inl (Lagged n)) = Inr w \<Longrightarrow>
     sys_step X R c s (s\<lparr>wk := w, lagged := False\<rparr>)"
| sys_start:
    "committing s = None \<Longrightarrow> \<not> draining s \<Longrightarrow> start_next X False c (st s) (wk s) = Continue (t, evs, w) \<Longrightarrow>
     sys_step X R c s (publish_later evs (s\<lparr>st := t, wk := w\<rparr>))"
| sys_finish:
    "committing s = None \<Longrightarrow> jobs (wk s) = before @ job # after \<Longrightarrow>
     execute_job job (registry_get R (proof_type (job_proof job))) c = Some (oc, delays) \<Longrightarrow>
     commit_finish X now (st s) ((wk s)\<lparr>jobs := before @ after\<rparr>) job oc = (t, evs, Inr w) \<Longrightarrow>
     sys_step X R c s (publish_later evs (s\<lparr>st := t, wk := w, committing := Some (job_id job)\<rparr>))"
| sys_recheck:
    "committing s = Some i \<Longrightarrow>
     sys_step X R c s (s\<lparr>wk := commit_recheck X (st s) i (wk s), committing := None\<rparr>)"
| sys_stop:
    "committing s = None \<Longrightarrow> sys_step X R c s (s\<lparr>wk := clear_pending (wk s), draining := True\<rparr>)"

definition sys_init ::
  "'x store_externs_scheme \<Rightarrow> verifier_registry \<Rightarrow> verification_config \<Rightarrow> system \<Rightarrow> bool" where
  "sys_init X R c s \<longleftrightarrow>
     store_init X (st s) \<and> registry_ok R \<and> verification_config_ok c \<and>
     wk s = worker_new \<and> inbox s = [] \<and> unpublished s = [] \<and> \<not> lagged s \<and> committing s = None
     \<and> \<not> draining s"

section \<open>What the events in the channel will do to the queue\<close>

fun pend_after :: "verification_id \<Rightarrow> proof_store_event list \<Rightarrow> bool \<Rightarrow> bool" where
  "pend_after i [] b = b"
| "pend_after i (e # es) b =
     pend_after i es
       (case e of
          VerificationChanged j Queued \<Rightarrow> if j = i then True else b
        | ProofEvicted j _ \<Rightarrow> if j = i then False else b
        | _ \<Rightarrow> b)"

lemma pend_after_append [simp]: "pend_after i (xs @ ys) b = pend_after i ys (pend_after i xs b)"
  by (induction xs arbitrary: b) auto

lemma pend_after_mono: "pend_after i xs b \<Longrightarrow> pend_after i xs True"
proof (induction xs arbitrary: b)
  case (Cons e xs)
  then show ?case
    by (cases e) (auto split: verification_state.splits if_splits)
qed simp

lemma pend_after_tail: "pend_after i (e # xs) b \<Longrightarrow> pend_after i xs True"
  using pend_after_mono by (simp only: pend_after.simps)

lemma pend_after_silent:
  assumes "\<And>k. ProofEvicted i k \<notin> set es" "VerificationChanged i Queued \<notin> set es"
  shows "pend_after i es b = b"
  using assms
proof (induction es)
  case (Cons e es)
  then show ?case by (cases e) (auto split: verification_state.splits)
qed simp

lemma pend_after_publish: "\<not> is_eviction e \<Longrightarrow> pend_after i xs b \<Longrightarrow> pend_after i (xs @ [e]) b"
  by (auto simp: is_eviction_def split: proof_store_event.splits verification_state.splits)

definition queued :: "store \<Rightarrow> verification_id \<Rightarrow> bool" where
  "queued s i \<longleftrightarrow> phase_of (entry s i) = InState Queued"

text \<open>A step that leaves \<open>i\<close> queued did not evict it, and announces it when it was not queued before.\<close>

lemma queued_step:
  assumes "moka X" "store_inv X s" "store_step X now s evs t" "queued t i"
  shows "ProofEvicted i k \<notin> set evs" "\<not> queued s i \<Longrightarrow> VerificationChanged i Queued \<in> set evs"
proof -
  obtain c where evs: "filter (\<lambda>e. event_id e = i) evs = diff_events c i (entry s i) (entry t i)"
    using store_step_diff [OF assms(1-3)] by blast
  have mem: "e \<in> set evs \<longleftrightarrow> e \<in> set (diff_events c i (entry s i) (entry t i))" if "event_id e = i" for e
    using that by (simp add: evs [symmetric])
  show "ProofEvicted i k \<notin> set evs"
    using assms(4) mem [of "ProofEvicted i k"]
    by (auto simp: event_id_def diff_events_def queued_def phase_of_def split: option.splits if_splits)
  show "VerificationChanged i Queued \<in> set evs" if "\<not> queued s i"
    using assms(4) that mem [of "VerificationChanged i Queued"]
    by (auto simp: event_id_def diff_events_def queued_def phase_of_def split: option.splits if_splits)
qed

section \<open>Invariant of the system\<close>

text \<open>A job carries a claim that no other record can be mistaken for, on the proof it runs.\<close>

definition job_ok :: "store \<Rightarrow> verification_job \<Rightarrow> bool" where
  "job_ok s job \<longleftrightarrow>
     claim_ok job s \<and> verification (metadata (arc_val (job_claim job))) = Some Verifying \<and>
     record_proof (arc_val (job_claim job)) = Some (job_proof job)"

text \<open>The backend registered for the proof returned the verdict in time in some attempt.\<close>

definition verdict_from :: "verifier_registry \<Rightarrow> verification_config \<Rightarrow> zk_proof \<Rightarrow> verdict \<Rightarrow> bool" where
  "verdict_from R c p vd \<longleftrightarrow>
     (\<exists>v k d. R (proof_type p) = Some v \<and> k \<le> max_retries c \<and> v p k = Returns d (Inr vd) \<and> d \<le> job_timeout c)"

definition verdicts_sound :: "verifier_registry \<Rightarrow> verification_config \<Rightarrow> store \<Rightarrow> bool" where
  "verdicts_sound R c s \<longleftrightarrow>
     (\<forall>i r vd. entry s i = Some r \<and> verification (metadata r) = Some (Completed vd) \<longrightarrow>
        (\<exists>p. record_proof r = Some p \<and> verdict_from R c p vd))"

text \<open>
  A queued identifier that is not being worked on waits in the queue once the events in the
  channel are handled, or its announcement has still to be sent, unless events were lost or the
  worker drains; and in any case the events in the channel will not take a queued identifier
  out of the queue again unless its announcement follows.
\<close>

definition announced :: "system \<Rightarrow> verification_id \<Rightarrow> bool" where
  "announced s i \<longleftrightarrow> VerificationChanged i Queued \<in> set (concat (unpublished s))"

definition none_forgotten :: "system \<Rightarrow> bool" where
  "none_forgotten s \<longleftrightarrow>
     list_all (\<lambda>e. \<not> is_eviction e) (concat (unpublished s)) \<and>
     (\<forall>i. queued (st s) i \<longrightarrow> announced s i \<or> pend_after i (inbox s) True) \<and>
     (\<not> lagged s \<and> \<not> draining s \<longrightarrow>
        (\<forall>i. queued (st s) i \<and> i \<notin> active_ids (wk s) \<and> committing s \<noteq> Some i \<longrightarrow>
           announced s i \<or> pend_after i (inbox s) (i \<in> set (pending (wk s)))))"

lemma publish_later_sel [simp]:
  "st (publish_later evs s) = st s" "wk (publish_later evs s) = wk s"
  "lagged (publish_later evs s) = lagged s" "committing (publish_later evs s) = committing s"
  "draining (publish_later evs s) = draining s"
  "inbox (publish_later evs s) = inbox s @ filter is_eviction evs"
  "concat (unpublished (publish_later evs s)) = concat (unpublished s) @ filter (\<lambda>e. \<not> is_eviction e) evs"
  by (auto simp: publish_later_def filter_empty_conv)

lemma announced_later:
  "announced (publish_later evs s) i \<longleftrightarrow> announced s i \<or> VerificationChanged i Queued \<in> set evs"
  by (simp add: announced_def is_eviction_def)

lemma announced_sel [simp]:
  "announced (s\<lparr>st := t\<rparr>) = announced s" "announced (s\<lparr>wk := w\<rparr>) = announced s"
  "announced (s\<lparr>inbox := es\<rparr>) = announced s" "announced (s\<lparr>lagged := b\<rparr>) = announced s"
  "announced (s\<lparr>committing := cm\<rparr>) = announced s" "announced (s\<lparr>draining := b\<rparr>) = announced s"
  by (simp_all add: announced_def fun_eq_iff)

definition sys_inv ::
  "'x store_externs_scheme \<Rightarrow> verifier_registry \<Rightarrow> verification_config \<Rightarrow> system \<Rightarrow> bool" where
  "sys_inv X R c s \<longleftrightarrow>
     reachable_store X (st s) \<and> registry_ok R \<and> verification_config_ok c \<and> worker_inv c (wk s) \<and>
     (\<forall>job \<in> set (jobs (wk s)). job_ok (st s) job) \<and> verdicts_sound R c (st s) \<and> none_forgotten s"

lemma sys_invD:
  assumes "sys_inv X R c s"
  shows "moka X" "store_inv X (st s)" "reachable_store X (st s)" "worker_inv c (wk s)"
    "registry_ok R" "verification_config_ok c" "verdicts_sound R c (st s)" "none_forgotten s"
    "job \<in> set (jobs (wk s)) \<Longrightarrow> job_ok (st s) job"
  using assms reachable_good by (auto simp: sys_inv_def)

lemma env_no_verdict: "env_step X now s evs t \<Longrightarrow> VerificationChanged i (Completed vd) \<notin> set evs"
  by (erule env_step.cases)
     (auto simp: observe_chain_verification_def insert_local_proof_def attach_downloaded_proof_def
        retry_verification_def invalidate_def publish_stored_def eviction_listener_def Let_def
        split: prod.splits sum.splits if_splits removal_cause.splits)

lemma diff_verdict:
  "new = Some r \<Longrightarrow> verification (metadata r) = Some (Completed vd) \<Longrightarrow>
   VerificationChanged i (Completed vd) \<notin> set (diff_events c i old new) \<Longrightarrow>
   \<exists>r0. old = Some r0 \<and> verification (metadata r0) = Some (Completed vd)"
  by (cases old) (auto simp: diff_events_def split: option.splits if_splits)

lemma verdicts_sound_step:
  assumes X: "moka X" "store_inv X s" and stp: "store_step X now s evs t" and snd: "verdicts_sound R c s"
    and new: "\<And>i r vd. VerificationChanged i (Completed vd) \<in> set evs \<Longrightarrow> entry t i = Some r \<Longrightarrow>
      \<exists>p. record_proof r = Some p \<and> verdict_from R c p vd"
  shows "verdicts_sound R c t"
  unfolding verdicts_sound_def
proof clarify
  fix i r vd
  assume r: "entry t i = Some r" "verification (metadata r) = Some (Completed vd)"
  obtain cs where evs: "filter (\<lambda>e. event_id e = i) evs = diff_events cs i (entry s i) (entry t i)"
    using store_step_diff [OF X stp] by blast
  show "\<exists>p. record_proof r = Some p \<and> verdict_from R c p vd"
  proof (cases "VerificationChanged i (Completed vd) \<in> set evs")
    case True
    then show ?thesis using new r(1) by blast
  next
    case False
    then have "VerificationChanged i (Completed vd) \<notin> set (diff_events cs i (entry s i) (entry t i))"
      unfolding evs [symmetric] by simp
    then obtain r0 where r0: "entry s i = Some r0" "verification (metadata r0) = Some (Completed vd)"
      using diff_verdict [OF r] by blast
    then have "r = r0" using completed_step [OF X stp r0] r(1) by auto
    then show ?thesis using snd r0 by (auto simp: verdicts_sound_def)
  qed
qed

lemma none_forgotten_env:
  assumes "moka X" "store_inv X (st s)" "store_step X now (st s) evs t" "none_forgotten s"
  shows "none_forgotten (publish_later evs (s\<lparr>st := t\<rparr>))"
proof -
  have "pend_after i (filter is_eviction evs) b = b" if "queued t i" for i b
    using queued_step(1) [OF assms(1-3) that] by (intro pend_after_silent) (auto simp: is_eviction_def)
  then show ?thesis
    using assms(4) queued_step(2) [OF assms(1-3)] unfolding none_forgotten_def announced_later
    by (simp add: list_all_iff ball_Un) blast
qed

lemma job_ok_step:
  "moka X \<Longrightarrow> store_step X now s evs t \<Longrightarrow> job_ok s job \<Longrightarrow> job_ok t job"
  using claim_ok_step by (auto simp: job_ok_def)

lemma reachable_store_step: "reachable_store X s \<Longrightarrow> store_step X now s evs t \<Longrightarrow> reachable_store X t"
  by (erule reach.reach_step) (auto simp: store_moves_def)

subsection \<open>Steps of the environment and of the channel\<close>

lemma sys_inv_env:
  assumes "sys_inv X R c s" "env_step X now (st s) evs t"
  shows "sys_inv X R c (publish_later evs (s\<lparr>st := t\<rparr>))"
proof -
  note inv = sys_invD [OF assms(1)]
  have stp: "store_step X now (st s) evs t" using assms(2) by (rule step_env)
  have "verdicts_sound R c t"
    using verdicts_sound_step [OF inv(1,2) stp inv(7)] env_no_verdict [OF assms(2)] by blast
  moreover have "none_forgotten (publish_later evs (s\<lparr>st := t\<rparr>))"
    by (rule none_forgotten_env [OF inv(1,2) stp inv(8)])
  ultimately show ?thesis
    using inv job_ok_step [OF inv(1) stp] reachable_store_step [OF inv(3) stp]
    by (simp add: sys_inv_def)
qed

lemma sys_inv_publish:
  assumes "sys_inv X R c s" "unpublished s = before @ (e # es) # after"
  shows "sys_inv X R c (s\<lparr>inbox := inbox s @ [e], unpublished := before @ filter (\<lambda>es. es \<noteq> []) [es] @ after\<rparr>)"
proof -
  note nf = sys_invD(8) [OF assms(1)]
  define t where "t = s\<lparr>inbox := inbox s @ [e], unpublished := before @ filter (\<lambda>es. es \<noteq> []) [es] @ after\<rparr>"
  have t: "st t = st s" "wk t = wk s" "inbox t = inbox s @ [e]" "lagged t = lagged s" "committing t = committing s"
    "draining t = draining s" "concat (unpublished s) = concat before @ e # es @ concat after"
    "concat (unpublished t) = concat before @ es @ concat after"
    by (simp_all add: t_def assms(2))
  have sent: "announced s i \<longleftrightarrow> e = VerificationChanged i Queued \<or> announced t i" for i
    by (auto simp: announced_def t(7,8))
  have "\<not> is_eviction e" using nf by (simp add: none_forgotten_def t(7))
  then have pend: "e = VerificationChanged i Queued \<or> pend_after i (inbox s) b \<Longrightarrow> pend_after i (inbox s @ [e]) b" for i b
    using pend_after_publish [of e i "inbox s" b] by (cases "e = VerificationChanged i Queued") simp_all
  have "none_forgotten t"
    using nf pend unfolding none_forgotten_def sent t by (simp del: pend_after_append) blast
  with assms(1) show ?thesis unfolding t_def [symmetric] by (simp add: sys_inv_def t)
qed

lemma sys_inv_overflow:
  assumes "sys_inv X R c s" "inbox s = old @ kept"
  shows "sys_inv X R c (s\<lparr>inbox := kept, lagged := True\<rparr>)"
proof -
  have "none_forgotten (s\<lparr>inbox := kept, lagged := True\<rparr>)"
    using sys_invD(8) [OF assms(1)] assms(2) by (auto simp: none_forgotten_def intro: pend_after_mono)
  with assms(1) show ?thesis by (simp add: sys_inv_def)
qed

subsection \<open>Steps of the worker on its queue\<close>

lemma reconcile_facts:
  assumes "moka X" "store_inv X s" "worker_inv c w"
  shows "worker_inv c (reconcile_ready_records X s w)"
    "active_ids (reconcile_ready_records X s w) = active_ids w"
    "jobs (reconcile_ready_records X s w) = jobs w"
    "i \<in> set (pending (reconcile_ready_records X s w)) \<longleftrightarrow> queued s i \<and> i \<notin> active_ids w"
proof -
  let ?is = "map stored_id (records_ready_for_verification X s)"
  have eq: "reconcile_ready_records X s w = fold enqueue ?is (clear_pending w)"
    by (simp add: reconcile_ready_records_def fold_map comp_def)
  have "set ?is = {i. queued s i}"
    using snapshot_phases(2) [OF assms(1,2)] by (simp add: lists_exactly_def queued_def)
  then show "worker_inv c (reconcile_ready_records X s w)"
    "active_ids (reconcile_ready_records X s w) = active_ids w"
    "jobs (reconcile_ready_records X s w) = jobs w"
    "i \<in> set (pending (reconcile_ready_records X s w)) \<longleftrightarrow> queued s i \<and> i \<notin> active_ids w"
    using enqueue_all [OF clear_pending_inv [OF assms(3)], of ?is]
    unfolding eq by (auto simp: pq.clear_items)
qed

lemma sys_inv_reconcile:
  assumes "sys_inv X R c s"
  shows "sys_inv X R c (s\<lparr>wk := reconcile_ready_records X (st s) (wk s), lagged := b\<rparr>)"
proof -
  note inv = sys_invD [OF assms]
  note rec = reconcile_facts [OF inv(1,2,4)]
  have "none_forgotten (s\<lparr>wk := reconcile_ready_records X (st s) (wk s), lagged := b\<rparr>)"
    using inv(8) by (auto simp: none_forgotten_def rec)
  then show ?thesis using assms rec by (simp add: sys_inv_def)
qed

lemma handle_event_facts:
  assumes "worker_inv c w" "handle_store_result X s w (Inr e) = Inr w'"
  shows "worker_inv c w'" "active_ids w' = active_ids w" "jobs w' = jobs w"
    "i \<notin> active_ids w \<Longrightarrow>
       pend_after i (e # es) (i \<in> set (pending w)) = pend_after i es (i \<in> set (pending w'))"
proof -
  have q: "queue_inv w" using assms(1) by (simp add: worker_inv_def)
  show "worker_inv c w'" "active_ids w' = active_ids w" "jobs w' = jobs w"
    using assms(2) enqueue_inv [OF assms(1)] remove_pending_inv [OF assms(1)] assms(1)
    by (auto simp: handle_store_result_def split: proof_store_event.splits verification_state.splits)
  show "pend_after i (e # es) (i \<in> set (pending w)) = pend_after i es (i \<in> set (pending w'))"
    if "i \<notin> active_ids w"
    using assms(2) that
    by (auto simp: handle_store_result_def enqueue_set [OF assms(1)] pq.drop_items [OF q]
        split: proof_store_event.splits verification_state.splits if_splits)
qed

lemma sys_inv_recv:
  assumes "sys_inv X R c s" "\<not> lagged s" "inbox s = e # es"
    and "handle_store_result X (st s) (wk s) (Inr e) = Inr w"
  shows "sys_inv X R c (s\<lparr>wk := w, inbox := es\<rparr>)"
proof -
  note inv = sys_invD [OF assms(1)]
  note h = handle_event_facts [OF inv(4) assms(4)]
  have "none_forgotten (s\<lparr>wk := w, inbox := es\<rparr>)"
    using inv(8) assms(2,3) h(4)
    by (auto simp: none_forgotten_def h(2) simp del: pend_after.simps intro: pend_after_tail)
  then show ?thesis using assms(1) h by (simp add: sys_inv_def)
qed

subsection \<open>Claiming\<close>

lemma start_next_Continue:
  assumes "worker_inv c w" "start_next X stop c s w = Continue (t, evs, w')"
  obtains i w0 res where "pop_pending w = Some (i, w0)" "i \<notin> active_ids w"
    "length (jobs w) < max_concurrent_jobs c"
    "begin_verification X s i = (t, evs, Inr res)"
    "w' = (case res of None \<Rightarrow> w0
            | Some job \<Rightarrow> w0\<lparr>active_ids := insert i (active_ids w0), jobs := jobs w0 @ [job]\<rparr>)"
proof -
  have q: "queue_inv w" using assms(1) by (simp add: worker_inv_def)
  obtain i w0 where p: "pop_pending w = Some (i, w0)" "length (jobs w) < max_concurrent_jobs c"
    using assms(2) by (auto simp: start_next_def split: if_splits option.splits)
  have "i \<in> set (pending w)" using pq.pop_Some(1) [OF q p(1)] by simp
  then have act: "i \<notin> active_ids w" using assms(1) by (auto simp: worker_inv_def)
  then have "i \<notin> active_ids w0" using pop_pending_fields [OF p(1)] by simp
  then show thesis
    using assms(2) p act that [OF p(1) act p(2)]
    by (auto simp: start_next_def split: if_splits prod.splits sum.splits option.splits)
qed

lemma begin_not_queued:
  assumes "moka X" "store_inv X s" "begin_verification X s i = (t, evs, res)"
  shows "\<not> queued t i"
proof (cases "records s i")
  case (Some a)
  then show ?thesis
    using assms(3) store_invD(2) [OF assms(2) Some]
    by (auto simp: begin_verification_eq [OF assms(1)] queued_def phase_of_def entry_def
        verifying_record_def ready_for_verification_def record_ok_def
        split: if_splits)
qed (use assms(3) in \<open>auto simp: begin_verification_eq [OF assms(1)] queued_def phase_of_def entry_def\<close>)

lemma worker_inv_start:
  assumes "worker_inv c w" "pop_pending w = Some (i, w0)"
  shows "worker_inv c w0"
    and "i \<notin> active_ids w \<Longrightarrow> length (jobs w) < max_concurrent_jobs c \<Longrightarrow> job_id job = i \<Longrightarrow>
      worker_inv c (w0\<lparr>active_ids := insert i (active_ids w0), jobs := jobs w0 @ [job]\<rparr>)"
  using pq.pop_Some [OF _ assms(2)] pop_pending_fields [OF assms(2)] assms(1)
  by (auto simp: worker_inv_def)

lemma begin_no_verdict:
  "moka X \<Longrightarrow> begin_verification X s i = (t, evs, res) \<Longrightarrow> VerificationChanged j (Completed vd) \<notin> set evs"
  by (auto simp: begin_verification_eq split: option.splits if_splits)

lemma sys_inv_start:
  assumes "sys_inv X R c s" "start_next X stop c (st s) (wk s) = Continue (t, evs, w)"
  shows "sys_inv X R c (publish_later evs (s\<lparr>st := t, wk := w\<rparr>))"
proof -
  note inv = sys_invD [OF assms(1)]
  obtain i w0 res where p: "pop_pending (wk s) = Some (i, w0)" "i \<notin> active_ids (wk s)"
    "length (jobs (wk s)) < max_concurrent_jobs c"
    and b: "begin_verification X (st s) i = (t, evs, Inr res)"
    and w: "w = (case res of None \<Rightarrow> w0
            | Some job \<Rightarrow> w0\<lparr>active_ids := insert i (active_ids w0), jobs := jobs w0 @ [job]\<rparr>)"
    by (rule start_next_Continue [OF inv(4) assms(2)]) blast
  have stp: "store_step X 0 (st s) evs t" using b by (rule step_begin)
  have q: "queue_inv (wk s)" using inv(4) by (simp add: worker_inv_def)
  note f = pop_pending_fields [OF p(1)]
  have jobs: "worker_inv c w \<and> (\<forall>job \<in> set (jobs w). job_ok t job) \<and> active_ids (wk s) \<subseteq> active_ids w
      \<and> pending w = pending w0"
  proof (cases res)
    case None
    then show ?thesis
      using w worker_inv_start(1) [OF inv(4) p(1)] f job_ok_step [OF inv(1) stp] inv(9) by auto
  next
    case (Some job)
    note bc = begin_claim [OF inv(1,2) b [unfolded Some]]
    have "job_ok t job" using bc by (simp add: job_ok_def)
    then show ?thesis
      using w Some worker_inv_start(2) [OF inv(4) p bc(2)] f job_ok_step [OF inv(1) stp] inv(9) by auto
  qed
  have nf: "none_forgotten (publish_later evs (s\<lparr>st := t\<rparr>))"
    by (rule none_forgotten_env [OF inv(1,2) stp inv(8)])
  have "set (pending (wk s)) = insert i (set (pending w))"
    using pq.pop_Some(1) [OF q p(1)] jobs by simp
  then have same: "j \<in> set (pending (wk s)) \<longleftrightarrow> j \<in> set (pending w)" if "queued t j" for j
    using that begin_not_queued [OF inv(1,2) b] by auto
  have "none_forgotten (publish_later evs (s\<lparr>st := t, wk := w\<rparr>))"
    using nf jobs unfolding none_forgotten_def announced_later by (simp add: same subset_iff) blast
  moreover have "verdicts_sound R c t"
    using verdicts_sound_step [OF inv(1,2) stp inv(7)] begin_no_verdict [OF inv(1) b] by blast
  ultimately show ?thesis
    using inv jobs reachable_store_step [OF inv(3) stp] by (simp add: sys_inv_def)
qed

subsection \<open>Committing\<close>

lemma execute_job_facts:
  assumes "verification_config_ok c" "registry_ok R"
  shows "\<exists>oc delays. execute_job job (registry_get R (proof_type (job_proof job))) c = Some (oc, delays) \<and>
      outcome_ok oc \<and>
      (\<forall>vd. oc = OutcomeCompleted vd \<longrightarrow> verdict_from R c (job_proof job) vd)"
proof (cases "R (proof_type (job_proof job))")
  case None
  then show ?thesis
    using failed_outcome_ok [OF static_failures(3)]
    by (simp add: execute_job_def registry_get_def static_failures(3))
next
  case (Some v)
  let ?p = "job_proof job"
  obtain n where n: "last_attempt v ?p c 0 n"
    "execute_loop v ?p c 0 = Some (attempt_outcome v ?p (job_timeout c) n, backoff_delays c 0 n)"
    using execute_loop_spec [of c 0 v ?p] assms(1) by (auto simp: verification_config_ok_def)
  have "outcome_ok (attempt_outcome v ?p (job_timeout c) n)"
    using verifier_backend.attempt_failed_ok [OF registry_backend [OF assms(2)]] Some by blast
  then show ?thesis
    using n Some by (auto simp: execute_job_def registry_get_def verdict_from_def attempt_completed
        last_attempt_def)
qed

lemma commit_finish_cases:
  assumes "moka X" "job_ok s job"
  obtains (stale) "records s (job_id job) \<noteq> Some (job_claim job)"
      "commit_finish X now s w job oc =
        (skip_record s, [], Inr (w\<lparr>active_ids := active_ids w - {job_id job}\<rparr>))"
    | (commits) "records s (job_id job) = Some (job_claim job)"
      "commit_finish X now s w job oc =
        (put_record s (job_id job) (finished_record now oc (arc_val (job_claim job))),
         [VerificationChanged (job_id job) (outcome_state oc)],
         Inr (w\<lparr>active_ids := active_ids w - {job_id job}\<rparr>))"
proof (cases "records s (job_id job) = Some (job_claim job)")
  case True
  with assms(2) show thesis
    by (intro commits) (auto simp: commit_finish_def finish_verification_eq [OF assms(1)] job_ok_def Let_def)
next
  case False
  have "arc_ptr a \<noteq> arc_ptr (job_claim job)" if "records s (job_id job) = Some a" for a
    using that False assms(2) by (auto simp: job_ok_def claim_ok_def)
  with False show thesis
    by (intro stale)
       (auto simp: commit_finish_def finish_verification_eq [OF assms(1)] Let_def split: option.splits)
qed

lemma worker_other_ids:
  "worker_inv c w \<Longrightarrow> jobs w = before @ job # after \<Longrightarrow> job_id job \<notin> job_id ` set (before @ after)"
  by (auto simp: worker_inv_def)

lemma worker_inv_finish:
  assumes "worker_inv c w" "jobs w = before @ job # after"
  shows "worker_inv c (w\<lparr>jobs := before @ after, active_ids := active_ids w - {job_id job}\<rparr>)"
proof -
  have "job_id ` set (jobs w) - {job_id job} = job_id ` set (before @ after)"
    unfolding assms(2) using worker_other_ids [OF assms] by auto
  then show ?thesis using assms by (auto simp: worker_inv_def)
qed

lemma sys_inv_finish:
  assumes "sys_inv X R c s" "committing s = None" "jobs (wk s) = before @ job # after"
    and "execute_job job (registry_get R (proof_type (job_proof job))) c = Some (oc, delays)"
    and "commit_finish X now (st s) ((wk s)\<lparr>jobs := before @ after\<rparr>) job oc = (t, evs, Inr w)"
  shows "sys_inv X R c (publish_later evs (s\<lparr>st := t, wk := w, committing := Some (job_id job)\<rparr>))"
proof -
  note inv = sys_invD [OF assms(1)]
  have job: "job_ok (st s) job" using inv(9) assms(3) by simp
  have oc: "outcome_ok oc" "\<And>vd. oc = OutcomeCompleted vd \<Longrightarrow> verdict_from R c (job_proof job) vd"
    using execute_job_facts [OF inv(6,5), of job] assms(4) by auto
  obtain res where fin: "finish_verification X now (st s) job oc = (t, evs, res)"
    using assms(5) by (auto simp: commit_finish_def Let_def split: prod.splits sum.splits)
  have stp: "store_step X now (st s) evs t" using oc(1) fin by (rule step_finish)
  have w: "w = (wk s)\<lparr>jobs := before @ after, active_ids := active_ids (wk s) - {job_id job}\<rparr>"
    using assms(5) by (auto simp: commit_finish_def Let_def split: prod.splits sum.splits)
  have "none_forgotten (publish_later evs (s\<lparr>st := t\<rparr>))"
    by (rule none_forgotten_env [OF inv(1,2) stp inv(8)])
  then have nf: "none_forgotten (publish_later evs (s\<lparr>st := t, wk := w, committing := Some (job_id job)\<rparr>))"
    unfolding none_forgotten_def announced_later by (simp add: w assms(2)) blast
  have "verdicts_sound R c t"
  proof (rule verdicts_sound_step [OF inv(1,2) stp inv(7)])
    fix i r vd
    assume ev: "VerificationChanged i (Completed vd) \<in> set evs" and r: "entry t i = Some r"
    from inv(1) job show "\<exists>p. record_proof r = Some p \<and> verdict_from R c p vd"
    proof (cases rule: commit_finish_cases [of X "st s" job now "(wk s)\<lparr>jobs := before @ after\<rparr>" oc])
      case stale
      then show ?thesis using ev assms(5) by simp
    next
      case commits
      then have "i = job_id job" "outcome_state oc = Completed vd"
        "r = finished_record now oc (arc_val (job_claim job))"
        using ev r assms(5) by auto
      then show ?thesis
        using job oc(2) by (cases oc) (auto simp: job_ok_def finished_record_def outcome_state_def)
    qed
  qed
  then show ?thesis
    using inv nf worker_inv_finish [OF inv(4) assms(3)] reachable_store_step [OF inv(3) stp]
      job_ok_step [OF inv(1) stp] assms(3)
    by (auto simp: sys_inv_def w)
qed

lemma sys_inv_recheck:
  assumes "sys_inv X R c s" "committing s = Some i"
  shows "sys_inv X R c (s\<lparr>wk := commit_recheck X (st s) i (wk s), committing := None\<rparr>)"
proof -
  note inv = sys_invD [OF assms(1)]
  have eq: "commit_recheck X (st s) i (wk s) = (if queued (st s) i then enqueue i (wk s) else wk s)"
    by (auto simp: commit_recheck_def moka_getD [OF inv(1)] queued_def phase_of_def entry_def
        split: option.splits)
  have key: "announced s j \<or> pend_after j (inbox s) (j = i \<or> j \<in> set (pending (wk s)))"
    if "queued (st s) j" "j \<notin> active_ids (wk s)" "\<not> lagged s" "\<not> draining s" for j
    using inv(8) assms(2) that by (cases "j = i") (auto simp: none_forgotten_def)
  have "none_forgotten (s\<lparr>wk := commit_recheck X (st s) i (wk s), committing := None\<rparr>)"
    using inv(8) key assms(2) unfolding none_forgotten_def eq
    by (auto simp: enqueue_set [OF inv(4)])
  then show ?thesis using assms(1) enqueue_inv [OF inv(4)] by (simp add: sys_inv_def eq)
qed

lemma sys_inv_stop:
  assumes "sys_inv X R c s"
  shows "sys_inv X R c (s\<lparr>wk := clear_pending (wk s), draining := True\<rparr>)"
proof -
  note inv = sys_invD [OF assms]
  have "none_forgotten (s\<lparr>wk := clear_pending (wk s), draining := True\<rparr>)"
    using inv(8) by (auto simp: none_forgotten_def)
  then show ?thesis
    using assms clear_pending_inv [OF inv(4)] by (simp add: sys_inv_def clear_pending_def)
qed

lemma sys_inv_step:
  assumes "sys_inv X R c s" "sys_step X R c s t"
  shows "sys_inv X R c t"
  using assms(2)
proof cases
  case sys_env
  then show ?thesis by (simp add: sys_inv_env [OF assms(1)])
next
  case (sys_publish before e es after)
  show ?thesis unfolding sys_publish(1) by (rule sys_inv_publish [OF assms(1) sys_publish(2)])
next
  case sys_overflow
  then show ?thesis by (simp add: sys_inv_overflow [OF assms(1)])
next
  case sys_reconcile
  then show ?thesis using sys_inv_reconcile [OF assms(1), of "lagged s"] by simp
next
  case sys_recv
  then show ?thesis by (simp add: sys_inv_recv [OF assms(1)])
next
  case (sys_lagged n w)
  then show ?thesis
    using sys_inv_reconcile [OF assms(1), of False] by (simp add: handle_store_result_def)
next
  case sys_start
  then show ?thesis by (simp add: sys_inv_start [OF assms(1)])
next
  case (sys_finish before job after oc delays now t' evs w)
  show ?thesis
    unfolding sys_finish(1) by (rule sys_inv_finish [OF assms(1) sys_finish(2-5)])
next
  case sys_recheck
  then show ?thesis by (simp add: sys_inv_recheck [OF assms(1)])
next
  case sys_stop
  then show ?thesis by (simp add: sys_inv_stop [OF assms(1)])
qed

lemma store_init_entry: "store_init X s \<Longrightarrow> entry s i = None"
  by (auto simp: store_init_def store_new_def Let_def entry_def split: if_splits)

lemma sys_init_inv: "sys_init X R c s \<Longrightarrow> sys_inv X R c s"
  by (auto simp: sys_init_def sys_inv_def worker_new_def worker_inv_def queue_inv_def verdicts_sound_def
      none_forgotten_def queued_def phase_of_def store_init_entry intro: reach.reach_init)

interpretation vsys: transition_system "sys_init X R c" "sys_step X R c" "sys_inv X R c" for X R c
  by unfold_locales (auto intro: sys_init_inv sys_inv_step)

section \<open>Every record in verification has a running job\<close>

definition all_claimed :: "system \<Rightarrow> bool" where
  "all_claimed s \<longleftrightarrow>
     (\<forall>i a. records (st s) i = Some a \<and> verification (metadata (arc_val a)) = Some Verifying \<longrightarrow>
        (\<exists>job \<in> set (jobs (wk s)). job_id job = i \<and> job_claim job = a))"

lemma record_step_verifying:
  assumes "record_step X m i old r evs" "pred_option (record_ok X m i) old"
    and "verification (metadata r) = Some Verifying"
  shows "VerificationChanged i Verifying \<in> set evs"
  using assms
  by cases (auto simp: record_ok_def queue_if_ready_def with_content_def outcome_state_def
      split: if_splits verification_outcome.splits)

text \<open>A step that does not announce a claim leaves every record in verification as it is.\<close>

lemma verifying_kept:
  assumes "moka X" "store_inv X s" "store_step X now s evs t"
    and "records t i = Some a" "verification (metadata (arc_val a)) = Some Verifying"
    and "VerificationChanged i Verifying \<notin> set evs"
  shows "records s i = Some a"
  using assms(1,3)
proof (cases rule: store_step_effect)
  case 1
  then show ?thesis using assms(4) by (auto simp: no_effect_def)
next
  case (2 k)
  then obtain r where t: "t = put_record s k r"
    and r: "record_step X (max_proof_bytes s) k (entry s k) r evs"
    by (auto simp: replaces_def entry_def)
  have "k \<noteq> i"
    using record_step_verifying [OF r store_inv_entry [OF assms(2)]] assms(4-6) t by auto
  then show ?thesis using t assms(4) by simp
next
  case (3 k)
  then show ?thesis using assms(4) by (auto simp: removes_def split: if_splits)
qed

lemma env_no_claim: "env_step X now s evs t \<Longrightarrow> VerificationChanged i Verifying \<notin> set evs"
  by (erule env_step.cases)
     (auto simp: observe_chain_verification_def insert_local_proof_def attach_downloaded_proof_def
        retry_verification_def invalidate_def publish_stored_def eviction_listener_def Let_def
        split: prod.splits sum.splits if_splits removal_cause.splits)

lemma all_claimed_start:
  assumes "sys_inv X R c s" "all_claimed s" "start_next X stop c (st s) (wk s) = Continue (t, evs, w)"
  shows "all_claimed (publish_later evs (s\<lparr>st := t, wk := w\<rparr>))"
proof -
  note inv = sys_invD [OF assms(1)]
  obtain i w0 res where p: "pop_pending (wk s) = Some (i, w0)"
    and b: "begin_verification X (st s) i = (t, evs, Inr res)"
    and w: "w = (case res of None \<Rightarrow> w0
            | Some job \<Rightarrow> w0\<lparr>active_ids := insert i (active_ids w0), jobs := jobs w0 @ [job]\<rparr>)"
    by (rule start_next_Continue [OF inv(4) assms(3)]) blast
  have j0: "jobs w0 = jobs (wk s)" using pop_pending_fields [OF p] by simp
  show ?thesis
  proof (cases res)
    case None
    with b have "records t = records (st s)"
      by (auto simp: begin_verification_eq [OF inv(1)] split: option.splits if_splits)
    then show ?thesis using assms(2) w None j0 by (simp add: all_claimed_def)
  next
    case (Some job)
    note bc = begin_claim [OF inv(1,2) b [unfolded Some]]
    have "records t = (records (st s))(i \<mapsto> job_claim job)"
      using b Some by (auto simp: begin_verification_eq [OF inv(1)] split: option.splits if_splits)
    then show ?thesis using assms(2) w Some j0 bc(2) by (auto simp: all_claimed_def)
  qed
qed

lemma all_claimed_finish:
  assumes "sys_inv X R c s" "all_claimed s" "jobs (wk s) = before @ job # after"
    and "commit_finish X now (st s) ((wk s)\<lparr>jobs := before @ after\<rparr>) job oc = (t, evs, Inr w)"
  shows "all_claimed (publish_later evs (s\<lparr>st := t, wk := w, committing := cm\<rparr>))"
proof -
  note inv = sys_invD [OF assms(1)]
  have job: "job_ok (st s) job" using inv(9) assms(3) by simp
  have other: "job' = job \<or> job' \<in> set (before @ after)" if "job' \<in> set (jobs (wk s))" for job'
    using that assms(3) by auto
  have ids: "job_id job' \<noteq> job_id job" if "job' \<in> set (before @ after)" for job'
    using worker_other_ids [OF inv(4) assms(3)] imageI [OF that, of job_id] by auto
  from inv(1) job show ?thesis
  proof (cases rule: commit_finish_cases [of X "st s" job now "(wk s)\<lparr>jobs := before @ after\<rparr>" oc])
    case stale
    then have "records t = records (st s)" "jobs w = before @ after" using assms(4) by auto
    then show ?thesis using assms(2) other stale(1) by (fastforce simp: all_claimed_def)
  next
    case commits
    then have "records t = (records (st s))(job_id job \<mapsto> Arc (next_ptr (st s))
        (finished_record now oc (arc_val (job_claim job))))" "jobs w = before @ after"
      using assms(4) by auto
    then show ?thesis
      using assms(2) other ids
      by (fastforce simp: all_claimed_def finished_record_def outcome_state_def
          split: verification_outcome.splits if_splits)
  qed
qed

lemma all_claimed_step:
  assumes inv: "sys_inv X R c s" and cl: "all_claimed s" and stp: "sys_step X R c s t"
  shows "all_claimed t"
  using stp
proof cases
  case (sys_env now evs t')
  note env = sys_env(2)
  have "records (st s) i = Some a"
    if "records t' i = Some a" "verification (metadata (arc_val a)) = Some Verifying" for i a
    using verifying_kept [OF sys_invD(1,2) [OF inv] step_env [OF env] that] env_no_claim [OF env] .
  then show ?thesis using cl sys_env(1) by (auto simp: all_claimed_def)
next
  case sys_reconcile
  then show ?thesis
    using cl reconcile_facts(3) [OF sys_invD(1,2,4) [OF inv]] by (simp add: all_claimed_def)
next
  case (sys_recv e es w)
  then show ?thesis
    using cl handle_event_facts(3) [OF sys_invD(4) [OF inv] sys_recv(6)] by (simp add: all_claimed_def)
next
  case sys_lagged
  then show ?thesis
    using cl reconcile_facts(3) [OF sys_invD(1,2,4) [OF inv]]
    by (auto simp: all_claimed_def handle_store_result_def)
next
  case sys_start
  then show ?thesis by (simp add: all_claimed_start [OF inv cl])
next
  case (sys_finish before job after oc delays now t' evs w)
  show ?thesis
    unfolding sys_finish(1) by (rule all_claimed_finish [OF inv cl sys_finish(3,5)])
next
  case sys_recheck
  then show ?thesis using cl
    by (simp add: all_claimed_def commit_recheck_def split: option.splits)
qed (use cl in \<open>simp_all add: all_claimed_def clear_pending_def\<close>)

section \<open>A concrete run\<close>

text \<open>One proof goes through the whole system with a backend that accepts everything.\<close>

abbreviation reachable_system ::
  "'x store_externs_scheme \<Rightarrow> verifier_registry \<Rightarrow> verification_config \<Rightarrow> system \<Rightarrow> bool" where
  "reachable_system X R c s \<equiv> reach (sys_init X R c) (sys_step X R c) s"

text \<open>A task that is not disturbed sends its events one after the other.\<close>

lemma reach_publish:
  assumes "reachable_system X R c (s\<lparr>unpublished := filter (\<lambda>es. es \<noteq> []) [es]\<rparr>)"
  shows "reachable_system X R c (s\<lparr>inbox := inbox s @ es, unpublished := []\<rparr>)"
  using assms
proof (induction es arbitrary: s)
  case (Cons e es)
  let ?t = "s\<lparr>inbox := inbox s @ [e]\<rparr>"
  have "reachable_system X R c (?t\<lparr>unpublished := filter (\<lambda>es. es \<noteq> []) [es]\<rparr>)"
    using Cons.prems sys_publish [of "s\<lparr>unpublished := [e # es]\<rparr>" "[]" e es "[]" X R c]
    by (auto intro: reach.reach_step)
  from Cons.IH [OF this] show ?case by simp
qed simp

lemma reach_publish_later:
  assumes "reachable_system X R c s" "sys_step X R c s (publish_later evs t)"
    and "unpublished t = []" "list_all (\<lambda>e. \<not> is_eviction e) evs"
  shows "reachable_system X R c (t\<lparr>inbox := inbox t @ evs\<rparr>)"
proof -
  have evs: "filter is_eviction evs = []" "filter (\<lambda>e. \<not> is_eviction e) evs = evs"
    using assms(4) by (auto simp: filter_empty_conv filter_id_conv list_all_iff)
  have "publish_later evs t = t\<lparr>unpublished := filter (\<lambda>es. es \<noteq> []) [evs]\<rparr>"
    using assms(3) by (simp add: publish_later_def evs)
  then have "reachable_system X R c (t\<lparr>unpublished := filter (\<lambda>es. es \<noteq> []) [evs]\<rparr>)"
    using assms(1,2) by (metis reach.reach_step)
  from reach_publish [OF this] show ?thesis using assms(3) by (cases t) simp
qed

definition demo_verifier :: verifier where "demo_verifier p k = Returns 1 (Inr Valid)"

definition demo_registry :: verifier_registry where
  "demo_registry = [NoirBarretenberg \<mapsto> demo_verifier]"

definition demo_vconfig :: verification_config where
  "demo_vconfig = \<lparr>max_concurrent_jobs = 2, job_timeout = 30, max_retries = 2, retry_backoff = 1\<rparr>"

abbreviation demo_system :: "store \<Rightarrow> worker \<Rightarrow> proof_store_event list \<Rightarrow> verification_id option \<Rightarrow> system" where
  "demo_system s w es cm \<equiv>
    \<lparr>st = s, wk = w, inbox = es, unpublished = [], lagged = False, committing = cm, draining = False\<rparr>"

abbreviation demo_reachable :: "verifier_registry \<Rightarrow> system \<Rightarrow> bool" where
  "demo_reachable R s \<equiv> reachable_system demo_store_externs R demo_vconfig s"

text \<open>The registry plays no role before a job ends.\<close>

lemma demo_registry_ok: "registry_ok demo_registry"
  by (auto simp: registry_ok_def demo_registry_def demo_verifier_def split: if_splits)

definition demo_waiting :: worker where
  "demo_waiting = \<lparr>pending = [demo_id], pending_ids = {demo_id}, active_ids = {}, jobs = []\<rparr>"

definition demo_working :: worker where
  "demo_working = \<lparr>pending = [], pending_ids = {}, active_ids = {demo_id}, jobs = [demo_job]\<rparr>"

definition demo_events :: "proof_store_event list" where
  "demo_events = [VerificationObserved demo_id, ProofStored demo_id Rpc, VerificationChanged demo_id Queued]"

lemma demo_sys_init:
  "registry_ok R \<Longrightarrow> sys_init demo_store_externs R demo_vconfig (demo_system demo_store0 worker_new [] None)"
  using demo_init by (auto simp: sys_init_def demo_vconfig_def verification_config_ok_def)

lemma demo_sys_queued:
  assumes "registry_ok R"
  shows "demo_reachable R (demo_system demo_queued worker_new demo_events None)"
proof -
  have "demo_reachable R (demo_system demo_store0 worker_new [] None)"
    using demo_sys_init [OF assms] by (rule reach.reach_init)
  then have "demo_reachable R (demo_system demo_observed worker_new [VerificationObserved demo_id] None)"
    using reach_publish_later [OF _ sys_env [of demo_store_externs 1 "demo_system demo_store0 worker_new [] None"
        "[VerificationObserved demo_id]" demo_observed]] step_observe [OF demo_observe]
    by (auto simp: is_eviction_def)
  then show ?thesis
    using reach_publish_later [OF _ sys_env [of demo_store_externs 2
        "demo_system demo_observed worker_new [VerificationObserved demo_id] None"
        "[ProofStored demo_id Rpc, VerificationChanged demo_id Queued]" demo_queued]]
      step_insert [OF demo_proof_in_memory demo_insert]
    by (auto simp: demo_events_def is_eviction_def)
qed

lemma demo_sys_waiting:
  assumes "registry_ok R"
  shows "demo_reachable R (demo_system demo_queued demo_waiting [] None)"
proof -
  have w: "enqueue demo_id worker_new = demo_waiting"
    by (simp add: enqueue_def push_pending_def worker_new_def demo_waiting_def)
  have recv: "demo_reachable R (demo_system s w' es None)"
    if "demo_reachable R (demo_system s w (e # es) None)"
      "handle_store_result demo_store_externs s w (Inr e) = Inr w'" for s w e es w'
    using that(1) sys_recv [of "demo_system s w (e # es) None" e es demo_store_externs w'] that(2)
    by (auto intro: reach.reach_step)
  show ?thesis
    using demo_sys_queued [OF assms] unfolding demo_events_def
    by (auto simp: handle_store_result_def w dest!: recv)
qed

lemma demo_sys_working:
  assumes "registry_ok R"
  shows "demo_reachable R (demo_system demo_verifying demo_working [VerificationChanged demo_id Verifying] None)"
proof -
  have "start_next demo_store_externs False demo_vconfig demo_queued demo_waiting =
      Continue (demo_verifying, [VerificationChanged demo_id Verifying], demo_working)"
    by (simp add: start_next_def demo_waiting_def demo_working_def demo_vconfig_def pop_pending_def demo_begin)
  then show ?thesis
    using reach_publish_later [OF demo_sys_waiting [OF assms]
        sys_start [of "demo_system demo_queued demo_waiting [] None" demo_store_externs demo_vconfig]]
    by (auto simp: is_eviction_def)
qed

lemma demo_execute:
  assumes "R NoirBarretenberg = Some v" "v demo_proof 0 = Returns 1 (Inr Valid)"
  shows "execute_job demo_job (registry_get R (proof_type (job_proof demo_job))) demo_vconfig =
     Some (OutcomeCompleted Valid, [])"
proof -
  have "proof_type demo_proof = NoirBarretenberg" by (simp add: demo_proof_def)
  then show ?thesis using assms
    by (simp add: execute_job_def registry_get_def demo_job_def execute_loop.simps execute_attempt_def demo_vconfig_def
        outcome_retryable_def Let_def)
qed

lemma demo_sys_completed:
  assumes "registry_ok R" "R NoirBarretenberg = Some v" "v demo_proof 0 = Returns 1 (Inr Valid)"
  shows "demo_reachable R (demo_system demo_completed worker_new
     [VerificationChanged demo_id Verifying, VerificationChanged demo_id (Completed Valid)] (Some demo_id))"
proof -
  let ?s = "demo_system demo_verifying demo_working [VerificationChanged demo_id Verifying] None"
  have "commit_finish demo_store_externs 3 demo_verifying (demo_working\<lparr>jobs := [] @ []\<rparr>) demo_job
      (OutcomeCompleted Valid) =
      (demo_completed, [VerificationChanged demo_id (Completed Valid)], Inr worker_new)"
    using demo_finish
    by (simp add: commit_finish_def Let_def demo_working_def worker_new_def) (simp add: demo_job_def)
  then show ?thesis
    using reach_publish_later [OF demo_sys_working [OF assms(1)]
        sys_finish [of ?s "[]" demo_job "[]" R demo_vconfig "OutcomeCompleted Valid" "[]" demo_store_externs 3]]
      demo_execute [of R v, OF assms(2,3)]
    by (auto simp: demo_working_def demo_job_def is_eviction_def)
qed

lemma demo_registry_run:
  "demo_reachable demo_registry (demo_system demo_completed worker_new
     [VerificationChanged demo_id Verifying, VerificationChanged demo_id (Completed Valid)] (Some demo_id))"
  by (rule demo_sys_completed [OF demo_registry_ok, of demo_verifier]) (simp_all add: demo_registry_def demo_verifier_def)

section \<open>Properties\<close>

lemma reachable_sysD:
  assumes "reachable_system X R c s"
  shows "sys_inv X R c s" "all_claimed s"
proof -
  show "sys_inv X R c s" using assms by (rule vsys.reachable_inv)
  show "all_claimed s"
  proof (rule vsys.reachable_inv2 [OF assms])
    show "all_claimed s" if "sys_init X R c s" for s
      using that store_init_entry [of X "st s"] by (auto simp: sys_init_def all_claimed_def entry_def)
  qed (rule all_claimed_step)
qed

lemma pend_after_cause: "pend_after i es b \<Longrightarrow> b \<or> VerificationChanged i Queued \<in> set es"
proof (induction es arbitrary: b)
  case (Cons e es)
  then show ?case
    by (cases e) (auto split: verification_state.splits if_splits)
qed simp

text \<open>
  C2. A verdict is never made up: a completed record of the system holds a proof with its own
  identifier, and the backend registered for its proof system returned this very verdict
  for this very proof, in time, in one of the allowed attempts.
\<close>

theorem verdict_sound:
  assumes "reachable_system X R c s"
    and "entry (st s) i = Some r" "verification (metadata r) = Some (Completed vd)"
  shows "\<exists>p. record_proof r = Some p \<and> verification_id X p = i \<and> verdict_from R c p vd"
proof -
  note inv = sys_invD [OF reachable_sysD(1) [OF assms(1)]]
  obtain p where p: "record_proof r = Some p" "verdict_from R c p vd"
    using inv(7) assms(2,3) unfolding verdicts_sound_def by blast
  moreover have "verification_id X p = i"
    using store_inv_entry [OF inv(2), of i] assms(2) p(1) by (auto simp: record_ok_def content_ok_def)
  ultimately show ?thesis by blast
qed

theorem verdict_sound_witness:
  "\<exists>p. record_proof (demo_record (Some (Completed Valid)) (Some 3)) = Some p \<and>
     verification_id demo_store_externs p = demo_id \<and> verdict_from demo_registry demo_vconfig p Valid"
  using verdict_sound [OF demo_registry_run, of demo_id "demo_record (Some (Completed Valid)) (Some 3)" Valid]
    demo_completed_records
  by (simp add: demo_record_def)

text \<open>
  C4. No queued proof is forgotten: until the worker is stopped, and as long as no event was lost
  unnoticed, a queued record that is not being worked on waits in the worker's queue, or its
  announcement is in the channel or about to be sent, however the tasks interleave their updates
  and their events.
\<close>

theorem queued_not_forgotten:
  assumes "reachable_system X R c s" "\<not> lagged s" "\<not> draining s" "phase_of (entry (st s) i) = InState Queued"
    and "i \<notin> active_ids (wk s)" "committing s \<noteq> Some i"
  shows "i \<in> set (pending (wk s)) \<or> VerificationChanged i Queued \<in> set (inbox s)
    \<or> VerificationChanged i Queued \<in> set (concat (unpublished s))"
proof -
  have "announced s i \<or> pend_after i (inbox s) (i \<in> set (pending (wk s)))"
    using sys_invD(8) [OF reachable_sysD(1) [OF assms(1)]] assms(2-6)
    by (simp add: none_forgotten_def queued_def)
  then show ?thesis using pend_after_cause by (auto simp: announced_def)
qed

theorem queued_not_forgotten_witness:
  "phase_of (entry demo_queued demo_id) = InState Queued \<and>
   (demo_id \<in> set (pending worker_new) \<or> VerificationChanged demo_id Queued \<in> set demo_events)"
proof -
  have ph: "phase_of (entry demo_queued demo_id) = InState Queued"
    by (simp add: entry_def demo_queued_records phase_of_def demo_record_def)
  show ?thesis
    using ph queued_not_forgotten [OF demo_sys_queued [OF demo_registry_ok], of demo_id] by (simp add: worker_new_def)
qed

text \<open>
  C14. The worker respects its limits: the jobs it runs have different identifiers, there are never
  more of them than configured, the identifiers it waits for are distinct and none of them
  is being worked on.
\<close>

theorem worker_bounded:
  assumes "reachable_system X R c s"
  shows "length (jobs (wk s)) \<le> max_concurrent_jobs c \<and> distinct (map job_id (jobs (wk s))) \<and>
         active_ids (wk s) = job_id ` set (jobs (wk s)) \<and> distinct (pending (wk s)) \<and>
         pending_ids (wk s) = set (pending (wk s)) \<and> set (pending (wk s)) \<inter> active_ids (wk s) = {}"
  using sys_invD(4) [OF reachable_sysD(1) [OF assms]] by (auto simp: worker_inv_def queue_inv_def)

theorem worker_bounded_witness:
  "length (jobs demo_working) \<le> max_concurrent_jobs demo_vconfig \<and>
   active_ids demo_working = job_id ` set (jobs demo_working)"
  using worker_bounded [OF demo_sys_working [OF demo_registry_ok]] by simp

text \<open>
  C12. No record is stuck in verification: every record in the state \<open>Verifying\<close> is the claim of a
  job the worker is running.
\<close>

theorem verifying_has_job:
  assumes "reachable_system X R c s" "records (st s) i = Some a"
    and "verification (metadata (arc_val a)) = Some Verifying"
  shows "\<exists>job. job \<in> set (jobs (wk s)) \<and> job_id job = i \<and> job_claim job = a"
  using reachable_sysD(2) [OF assms(1)] assms(2,3) unfolding all_claimed_def by blast

theorem verifying_has_job_witness:
  "\<exists>job. job \<in> set (jobs demo_working) \<and> job_id job = demo_id \<and>
     job_claim job = Arc 2 (demo_record (Some Verifying) None)"
  using verifying_has_job [OF demo_sys_working [OF demo_registry_ok], of demo_id] by (simp add: demo_verifying_records demo_record_def)

text \<open>
  C18. The worker never stops with an error of its own: claiming never fails, and for every running
  job the execution ends without a panic in an outcome that \<open>commit_completion\<close> accepts.
\<close>

theorem worker_never_fails:
  assumes "reachable_system X R c s"
  shows "start_next X stop c (st s) (wk s) \<noteq> Fail x e \<and>
         (\<forall>job \<in> set (jobs (wk s)). \<exists>oc delays t evs w.
            execute_job job (registry_get R (proof_type (job_proof job))) c = Some (oc, delays) \<and>
            commit_completion X now (st s) (wk s) (Inr (job, oc)) = (t, evs, Inr w))"
proof (intro conjI ballI)
  note inv = sys_invD [OF reachable_sysD(1) [OF assms]]
  show "start_next X stop c (st s) (wk s) \<noteq> Fail x e"
    by (auto simp: start_next_def begin_verification_eq [OF inv(1)]
        split: option.splits if_splits)
  fix job assume job: "job \<in> set (jobs (wk s))"
  obtain oc delays where oc:
    "execute_job job (registry_get R (proof_type (job_proof job))) c = Some (oc, delays)"
    using execute_job_facts [OF inv(6,5)] by blast
  from inv(1) inv(9) [OF job]
  have "\<exists>t evs w. commit_completion X now (st s) (wk s) (Inr (job, oc)) = (t, evs, Inr w)"
    by (rule commit_finish_cases [of X "st s" job now "wk s" oc]) (auto simp: commit_completion_def)
  with oc show "\<exists>oc delays t evs w.
      execute_job job (registry_get R (proof_type (job_proof job))) c = Some (oc, delays) \<and>
      commit_completion X now (st s) (wk s) (Inr (job, oc)) = (t, evs, Inr w)"
    by blast
qed

theorem worker_never_fails_witness:
  "\<exists>oc delays t evs w.
     execute_job demo_job (registry_get demo_registry (proof_type (job_proof demo_job))) demo_vconfig =
       Some (oc, delays) \<and>
     commit_completion demo_store_externs 3 demo_verifying demo_working (Inr (demo_job, oc)) = (t, evs, Inr w)"
  using worker_never_fails [OF demo_sys_working [OF demo_registry_ok], of False _ _ 3] by (simp add: demo_working_def)

lemma start_next_Break:
  "start_next X False c s w = Break \<Longrightarrow> worker_inv c w \<Longrightarrow>
     pending w = [] \<or> length (jobs w) = max_concurrent_jobs c"
  by (auto simp: start_next_def pop_pending_def worker_inv_def
      split: if_splits option.splits list.splits prod.splits sum.splits)

lemma start_ready_jobs_reach:
  assumes "reachable_system X R c s" "committing s = None" "\<not> draining s"
    and "start_ready_jobs X False c (st s) (wk s) = (t, evs, w, r)"
  shows "\<exists>s'. reachable_system X R c s' \<and> r = Inr () \<and> st s' = t \<and> wk s' = w \<and>
      inbox s' = inbox s @ filter is_eviction evs \<and>
      concat (unpublished s') = concat (unpublished s) @ filter (\<lambda>e. \<not> is_eviction e) evs \<and>
      lagged s' = lagged s \<and> committing s' = None \<and> \<not> draining s' \<and>
      (pending w = [] \<or> length (jobs w) = max_concurrent_jobs c)"
  using assms
proof (induction X stop\<equiv>False c "st s" "wk s" arbitrary: s t evs w r rule: start_ready_jobs.induct)
  case (1 X c s)
  note inv = sys_invD [OF reachable_sysD(1) [OF 1(2)]]
  show ?case
  proof (cases "start_next X False c (st s) (wk s)")
    case Break
    then show ?thesis
      using 1(2-5) start_next_Break [OF Break inv(4)]
      by (intro exI [of _ s]) (auto simp: start_ready_jobs.simps)
  next
    case (Fail x e)
    then show ?thesis
      by (auto simp: start_next_def begin_verification_eq [OF inv(1)] split: option.splits if_splits)
  next
    case (Continue x)
    obtain t1 evs1 w1 where x: "x = (t1, evs1, w1)" by (cases x)
    let ?s = "publish_later evs1 (s\<lparr>st := t1, wk := w1\<rparr>)"
    have stp: "reachable_system X R c ?s"
      using 1(2) sys_start [OF 1(3,4), of X c t1 evs1 w1 R] Continue x by (auto intro: reach.reach_step)
    obtain t2 evs2 w2 r2 where rest: "start_ready_jobs X False c t1 w1 = (t2, evs2, w2, r2)"
      by (cases "start_ready_jobs X False c t1 w1") auto
    then have eq: "t = t2" "evs = evs1 @ evs2" "w = w2" "r = r2"
      using 1(5) Continue x by (simp_all add: start_ready_jobs.simps [of X False c "st s"])
    show ?thesis
      using 1(1) [OF Continue, of ?s "(evs1, w1)" evs1] x stp 1(3,4) rest eq by simp
  qed
qed

text \<open>
  C22. An idle worker has nothing left to do: \<open>start_ready_jobs\<close> ends without error, having emptied
  the queue or used all job slots; and when no job runs, the queue and the channel are empty,
  no task has an event to send and none was lost, then no record is queued or in verification.
\<close>

theorem idle_worker_done:
  assumes "reachable_system X R c s" "committing s = None" "\<not> draining s"
    and "start_ready_jobs X False c (st s) (wk s) = (t, evs, w, r)"
  shows "r = Inr () \<and> (pending w = [] \<or> length (jobs w) = max_concurrent_jobs c) \<and>
         (jobs w \<noteq> [] \<or> inbox s \<noteq> [] \<or> concat (unpublished s) \<noteq> [] \<or> evs \<noteq> [] \<or> lagged s \<or>
          phase_of (entry t i) \<notin> {InState Queued, InState Verifying})"
proof -
  obtain s' where re: "reachable_system X R c s'" and r: "r = Inr ()" "st s' = t" "wk s' = w"
    "inbox s' = inbox s @ filter is_eviction evs"
    "concat (unpublished s') = concat (unpublished s) @ filter (\<lambda>e. \<not> is_eviction e) evs"
    "lagged s' = lagged s" "committing s' = None" "\<not> draining s'"
    "pending w = [] \<or> length (jobs w) = max_concurrent_jobs c"
    using start_ready_jobs_reach [OF assms] by blast
  note inv = sys_invD [OF reachable_sysD(1) [OF re]] reachable_sysD(2) [OF re]
  have "phase_of (entry t i) \<notin> {InState Queued, InState Verifying}"
    if "jobs w = []" "inbox s = []" "concat (unpublished s) = []" "evs = []" "\<not> lagged s"
  proof -
    have "pending w = []"
      using r that(1) inv(6) by (auto simp: verification_config_ok_def)
    moreover have "active_ids w = {}" using inv(4) r(3) that(1) by (simp add: worker_inv_def)
    ultimately have "\<not> queued t i"
      using inv(8) r that by (auto simp: none_forgotten_def announced_def simp del: concat_eq_Nil_conv)
    moreover have "phase_of (entry t i) \<noteq> InState Verifying"
      using inv(10) r(2,3) that(1) by (auto simp: all_claimed_def phase_of_def entry_def split: option.splits)
    ultimately show ?thesis by (simp add: queued_def)
  qed
  with r show ?thesis by blast
qed

theorem idle_worker_done_witness:
  "start_ready_jobs demo_store_externs False demo_vconfig demo_queued demo_waiting =
     (demo_verifying, [VerificationChanged demo_id Verifying], demo_working, Inr ()) \<and>
   (pending demo_working = [] \<or> length (jobs demo_working) = max_concurrent_jobs demo_vconfig)"
proof -
  have eq: "start_ready_jobs demo_store_externs False demo_vconfig demo_queued demo_waiting =
      (demo_verifying, [VerificationChanged demo_id Verifying], demo_working, Inr ())"
    by (simp add: start_ready_jobs.simps start_next_def demo_waiting_def demo_working_def demo_vconfig_def
        pop_pending_def demo_begin)
  show ?thesis
    using eq idle_worker_done [OF demo_sys_waiting [OF demo_registry_ok], of demo_verifying "[VerificationChanged demo_id Verifying]"
        demo_working "Inr ()" demo_id] by simp
qed

lemma commit_finish_verifying:
  assumes "moka X" "job_ok s job" "commit_finish X now s w job oc = (t, evs, res)"
    and "records t i = Some a" "verification (metadata (arc_val a)) = Some Verifying"
  shows "records s i = Some a \<and> (i \<noteq> job_id job \<or> a \<noteq> job_claim job)"
  using assms(1,2)
proof (cases rule: commit_finish_cases [of X s job now w oc])
  case stale
  then show ?thesis using assms(3,4) by auto
next
  case commits
  then have t: "t = put_record s (job_id job) (finished_record now oc (arc_val (job_claim job)))"
    using assms(3) by simp
  have "i \<noteq> job_id job"
  proof
    assume "i = job_id job"
    then have "arc_val a = finished_record now oc (arc_val (job_claim job))" using t assms(4) by auto
    then show False using assms(5)
      by (simp add: finished_record_def outcome_state_def split: verification_outcome.splits)
  qed
  then show ?thesis using t assms(4) by auto
qed

lemma commit_finish_other:
  assumes "moka X" "job_ok s job" "commit_finish X now s w job oc = (t, evs, res)"
    and "phase_of (entry s i) \<noteq> InState Verifying"
  shows "entry t i = entry s i"
  using assms(1,2)
proof (cases rule: commit_finish_cases [of X s job now w oc])
  case stale
  then show ?thesis using assms(3) by auto
next
  case commits
  then have "i \<noteq> job_id job" using assms(2,4) by (auto simp: entry_def phase_of_def job_ok_def)
  then show ?thesis using assms(3) commits(2) by auto
qed

lemma drain_jobs_spec:
  assumes "moka X" "store_inv X s" "drain_jobs X now s w (map Inr js) = (t, evs, r)"
    and "\<forall>(job, oc) \<in> set js. job_ok s job \<and> outcome_ok oc"
    and "\<forall>i a. records s i = Some a \<and> verification (metadata (arc_val a)) = Some Verifying \<longrightarrow>
           (\<exists>(job, oc) \<in> set js. job_id job = i \<and> job_claim job = a)"
  shows "\<exists>w'. r = Inr w' \<and> active_ids w' = active_ids w - job_id ` fst ` set js \<and>
           (\<forall>i. phase_of (entry t i) \<noteq> InState Verifying) \<and>
           (\<forall>i. phase_of (entry s i) \<noteq> InState Verifying \<longrightarrow> entry t i = entry s i)"
  using assms(2-)
proof (induction js arbitrary: s w t evs r)
  case Nil
  then show ?case by (auto simp: phase_of_def entry_def split: option.splits)
next
  case (Cons j js)
  obtain job oc where j: "j = (job, oc)" by (cases j)
  have job: "job_ok s job" "outcome_ok oc" using Cons.prems(3) j by auto
  obtain t1 evs1 w1 where cf: "commit_finish X now s w job oc = (t1, evs1, Inr w1)"
    "active_ids w1 = active_ids w - {job_id job}"
    by (rule commit_finish_cases [OF assms(1) job(1), of now w oc]) auto
  have stp: "store_step X now s evs1 t1"
  proof -
    obtain res where "finish_verification X now s job oc = (t1, evs1, res)"
      using cf(1) by (auto simp: commit_finish_def Let_def split: prod.splits sum.splits)
    with job(2) show ?thesis by (rule step_finish)
  qed
  let ?w = "commit_recheck X t1 (job_id job) w1"
  have act: "active_ids ?w = active_ids w - {job_id job}"
    using cf(2) by (auto simp: commit_recheck_def split: option.splits)
  obtain t2 evs2 r2 where d: "drain_jobs X now t1 ?w (map Inr js) = (t2, evs2, r2)"
    by (cases "drain_jobs X now t1 ?w (map Inr js)") auto
  have eq: "t = t2" "r = r2"
    using Cons.prems(2) cf(1) d by (auto simp: j commit_completion_def)
  have rest: "\<exists>(job', oc') \<in> set js. job_id job' = i \<and> job_claim job' = a"
    if a: "records t1 i = Some a" "verification (metadata (arc_val a)) = Some Verifying" for i a
  proof -
    have "records s i = Some a" "i \<noteq> job_id job \<or> a \<noteq> job_claim job"
      using commit_finish_verifying [OF assms(1) job(1) cf(1) a] by auto
    moreover from this(1) a(2) have "\<exists>(job', oc') \<in> set (j # js). job_id job' = i \<and> job_claim job' = a"
      using Cons.prems(4) by simp
    ultimately show ?thesis using j by auto
  qed
  have "\<exists>w'. r2 = Inr w' \<and> active_ids w' = active_ids ?w - job_id ` fst ` set js \<and>
      (\<forall>i. phase_of (entry t2 i) \<noteq> InState Verifying) \<and>
      (\<forall>i. phase_of (entry t1 i) \<noteq> InState Verifying \<longrightarrow> entry t2 i = entry t1 i)"
  proof (rule Cons.IH [OF store_step_inv [OF assms(1) Cons.prems(1) stp] d])
    show "\<forall>(job, oc) \<in> set js. job_ok t1 job \<and> outcome_ok oc"
      using Cons.prems(3) job_ok_step [OF assms(1) stp] by auto
  qed (use rest in blast)
  then show ?case using eq act j commit_finish_other [OF assms(1) job(1) cf(1)] by auto
qed

text \<open>
  C23. Shutdown is clean: once the running jobs are joined, in any order and with any outcomes, no
  record is left in verification, every other record (the queued ones in particular) is as
  before, and the worker has not failed.
\<close>

theorem drain_leaves_none_verifying:
  assumes "reachable_system X R c s" "fst ` set js = set (jobs (wk s))"
    and "list_all (\<lambda>(job, oc). outcome_ok oc) js"
    and "drain_worker X now (st s) (wk s) (map Inr js) = (t, evs, r)"
  shows "is_ok r \<and> phase_of (entry t i) \<noteq> InState Verifying \<and>
         (phase_of (entry (st s) i) = InState Verifying \<or> entry t i = entry (st s) i)"
proof -
  note inv = sys_invD [OF reachable_sysD(1) [OF assms(1)]] reachable_sysD(2) [OF assms(1)]
  have ok: "\<forall>(job, oc) \<in> set js. job_ok (st s) job \<and> outcome_ok oc"
    using inv(9) assms(2,3) by (force simp: list_all_iff)
  have cl: "\<exists>(job, oc) \<in> set js. job_id job = k \<and> job_claim job = a"
    if k: "records (st s) k = Some a" "verification (metadata (arc_val a)) = Some Verifying" for k a
  proof -
    obtain job where job: "job \<in> fst ` set js" "job_id job = k" "job_claim job = a"
      using inv(10) k unfolding all_claimed_def assms(2) by blast
    then show ?thesis by auto
  qed
  show ?thesis
    using drain_jobs_spec [OF inv(1,2) assms(4) [unfolded drain_worker_def] ok] cl by auto
qed

theorem drain_leaves_none_verifying_witness:
  "is_ok (snd (snd (drain_worker demo_store_externs 3 demo_verifying demo_working
       [Inr (demo_job, OutcomeCompleted Valid)]))) \<and>
   phase_of (entry (fst (drain_worker demo_store_externs 3 demo_verifying demo_working
       [Inr (demo_job, OutcomeCompleted Valid)])) demo_id) \<noteq> InState Verifying"
  using drain_leaves_none_verifying [OF demo_sys_working [OF demo_registry_ok], of "[(demo_job, OutcomeCompleted Valid)]" 3
      "fst (drain_worker demo_store_externs 3 demo_verifying demo_working
         [Inr (demo_job, OutcomeCompleted Valid)])"
      "fst (snd (drain_worker demo_store_externs 3 demo_verifying demo_working
         [Inr (demo_job, OutcomeCompleted Valid)]))"
      "snd (snd (drain_worker demo_store_externs 3 demo_verifying demo_working
         [Inr (demo_job, OutcomeCompleted Valid)]))" demo_id]
  by (simp add: demo_working_def outcome_ok_def)

text \<open>
  C24. A job ends after a bounded number of attempts, with the outcome of the first attempt that is
  conclusive or of the last one allowed, after pauses that double and saturate; nothing in it
  panics for a validated configuration, and a proof system without a backend fails without retry.
\<close>

theorem execute_job_spec:
  assumes "verification_config_ok c"
  shows "case v of
      None \<Rightarrow> execute_job job v c = Some (OutcomeFailed
        \<lparr>failure_code = ''unsupported_proof_type'',
         failure_message = ''no verifier backend is registered for this proof type'',
         failure_retryable = False\<rparr>, [])
    | Some b \<Rightarrow> (\<exists>n. last_attempt b (job_proof job) c 0 n \<and>
        execute_job job v c =
          Some (attempt_outcome b (job_proof job) (job_timeout c) n,
                map (\<lambda>j. duration_saturating_mul (retry_backoff c) (2 ^ j)) [0 ..< n]))"
proof (cases v)
  case None
  then show ?thesis by (simp add: execute_job_def static_failures)
next
  case (Some b)
  have "max_retries c \<le> 31" using assms by (simp add: verification_config_ok_def)
  with Some show ?thesis
    using execute_loop_spec [of c 0 b "job_proof job"] by (simp add: execute_job_def backoff_delays_def)
qed

theorem execute_job_spec_witness:
  "verification_config_ok demo_vconfig \<and>
   (\<exists>n. last_attempt (\<lambda>p k. Hangs) demo_proof demo_vconfig 0 n \<and>
     execute_job demo_job (Some (\<lambda>p k. Hangs)) demo_vconfig =
       Some (attempt_outcome (\<lambda>p k. Hangs) demo_proof 30 n,
             map (\<lambda>j. duration_saturating_mul 1 (2 ^ j)) [0 ..< n]))"
proof -
  have c: "verification_config_ok demo_vconfig"
    by (simp add: demo_vconfig_def verification_config_ok_def)
  show ?thesis
    using c execute_job_spec [OF c, of demo_job "Some (\<lambda>p k. Hangs)"]
    by (simp add: demo_job_def) (simp add: demo_vconfig_def)
qed

end
