(* ===== verification/Noir.thy ===== *)
theory Noir
  imports Verification Std_Text
begin

text \<open>
  \<open>src/verification/noir.rs\<close>: the Noir backend, which runs one Barretenberg process per attempt
  and talks to it in length-prefixed MessagePack frames. The operating system, the process and
  the MessagePack codec are parameters. The lemmas show that the backend never panics, that
  its failures respect the diagnostic bounds whatever the process writes, that a verdict comes
  from a well-formed answer to a request for exactly the given proof, and that the
  framing is unambiguous.
\<close>

section \<open>The outside of the backend\<close>

text \<open>The generated types of \<open>barretenberg_rs\<close> as far as the backend uses them.\<close>

record proof_system_settings =
  ipa_accumulation :: bool
  oracle_hash_type :: string
  disable_zk :: bool
  optimized_solidity_verifier :: bool

datatype bb_command = CircuitVerify bytes "bytes list" "bytes list" proof_system_settings

datatype bb_response = CircuitVerifyResponse bool | ErrorResponse string | OtherResponse

text \<open>
  One run of the process: whether it starts, whether its pipes exist, whether the request can be
  written, the bytes it writes before it closes its output, whether the attempt is cancelled
  before the answer is read, and the answers of \<open>try_wait\<close> (whether it has exited) and \<open>kill\<close> at
  the end.
\<close>

record bb_run =
  run_spawn :: "io_error option"
  run_has_stdin :: bool
  run_has_stdout :: bool
  run_write :: "io_error option"
  run_output :: bytes
  run_cancelled :: bool
  run_try_wait :: "io_error + bool"
  run_kill :: "io_error + unit"

record version_run =
  version_spawn :: "io_error option"
  version_has_stdout :: bool
  version_result :: "(io_error + (bool \<times> string)) option"
  version_output :: bytes
  version_try_wait :: "io_error + bool"
  version_kill :: "io_error + unit"

record file_metadata =
  is_file :: bool
  is_dir :: bool
  mode :: "32 word"

record noir_externs =
  fs_metadata :: "path \<Rightarrow> io_error + file_metadata"
  run_process :: "path \<Rightarrow> string list \<Rightarrow> (string \<times> string) list \<Rightarrow> bytes \<Rightarrow> bb_run"
  run_version :: "path \<Rightarrow> version_run"
  early_eof :: io_error
  to_vec_named :: "bb_command list \<Rightarrow> string + bytes"
  from_slice :: "bytes \<Rightarrow> string + bb_response"

section \<open>Constants and diagnostics\<close>

definition BB_VERSION :: string where "BB_VERSION = ''5.2.0''"

definition MAX_VERSION_BYTES :: nat where "MAX_VERSION_BYTES = 4096"

definition MAX_RESPONSE_BYTES :: nat where "MAX_RESPONSE_BYTES = 1024 * 1024"

datatype exchange_error = Io io_error | Oversized

text \<open>\<open>None\<close> is a panic of the \<open>expect\<close>.\<close>

definition truncate_message :: "string \<Rightarrow> string" where
  "truncate_message msg =
     (if length msg > FAILURE_MESSAGE_MAX_BYTES
      then take (boundary_down msg FAILURE_MESSAGE_MAX_BYTES) msg else msg)"

definition noir_failure :: "string \<Rightarrow> string \<Rightarrow> bool \<Rightarrow> verification_failure option" where
  "noir_failure code msg retryable =
     (case verification_failure_new code (truncate_message msg) retryable of
        Inl _ \<Rightarrow> None | Inr f \<Rightarrow> Some f)"

definition unavailable :: "string \<Rightarrow> verification_failure option" where
  "unavailable msg = noir_failure ''barretenberg_unavailable'' msg True"

definition initialization :: "string \<Rightarrow> error" where
  "initialization msg = NoirInitialization msg"

text \<open>
  A call that may fail with a diagnostic or panic: \<open>None\<close> is the panic. \<open>fails\<close> returns the
  diagnostic, \<open>and_then\<close> is the question mark operator.
\<close>

type_synonym 'a attempt = "(verification_failure + 'a) option"

definition fails :: "verification_failure option \<Rightarrow> 'a attempt" where
  "fails f = map_option Inl f"

definition and_then :: "'a attempt \<Rightarrow> ('a \<Rightarrow> 'b attempt) \<Rightarrow> 'b attempt" where
  "and_then r g = (case r of None \<Rightarrow> None | Some (Inl f) \<Rightarrow> Some (Inl f) | Some (Inr x) \<Rightarrow> g x)"

section \<open>Requests\<close>

text \<open>\<open>slice::as_chunks::<32>().0\<close>: the complete chunks.\<close>

function as_chunks :: "bytes \<Rightarrow> bytes list" where
  "as_chunks b = (if length b < 32 then [] else take 32 b # as_chunks (drop 32 b))"
  by auto

termination by (relation "measure length") auto

declare as_chunks.simps [simp del]

definition noir_fields :: "bytes \<Rightarrow> bytes list attempt" where
  "noir_fields b =
     (if length b mod 32 \<noteq> 0
      then fails (noir_failure ''invalid_noir_artifact''
        (''Noir proof and public inputs must use 32-byte field framing; got '' @ show_nat (length b)
          @ '' bytes'') False)
      else Some (Inr (as_chunks b)))"

definition build_command :: "zk_proof \<Rightarrow> bytes list \<Rightarrow> bytes list \<Rightarrow> bb_command" where
  "build_command p inputs proof_fields =
     CircuitVerify (verification_key p) inputs proof_fields
       \<lparr>ipa_accumulation = False, oracle_hash_type = ''poseidon2'', disable_zk = False,
        optimized_solidity_verifier = False\<rparr>"

definition encode_request ::
  "'x noir_externs_scheme \<Rightarrow> zk_proof \<Rightarrow> bytes list \<Rightarrow> bytes list \<Rightarrow> bytes attempt" where
  "encode_request N p inputs proof_fields =
     (case to_vec_named N [build_command p inputs proof_fields] of
        Inl e \<Rightarrow> fails (noir_failure ''barretenberg_protocol''
          (''failed to encode Barretenberg request: '' @ e) False)
      | Inr r \<Rightarrow> Some (Inr r))"

section \<open>The exchange\<close>

definition cleanup_process :: "io_error + bool \<Rightarrow> io_error + unit \<Rightarrow> io_error + unit" where
  "cleanup_process try_wait kill =
     (case try_wait of Inl e \<Rightarrow> Inl e | Inr exited \<Rightarrow> if exited then Inr () else kill)"

definition u32_to_le_bytes :: "nat \<Rightarrow> bytes" where
  "u32_to_le_bytes n =
     [of_nat n, of_nat (n div 256), of_nat (n div 65536), of_nat (n div 16777216)]"

definition u32_from_le_bytes :: "bytes \<Rightarrow> nat" where
  "u32_from_le_bytes b =
     unat (b ! 0) + 256 * unat (b ! 1) + 65536 * unat (b ! 2) + 16777216 * unat (b ! 3)"

text \<open>\<open>read_u32_le\<close> and \<open>read_exact\<close> on what the process writes.\<close>

definition read_frame :: "'x noir_externs_scheme \<Rightarrow> bytes \<Rightarrow> exchange_error + bytes" where
  "read_frame N out =
     (if length out < 4 then Inl (Io (early_eof N))
      else
        let response_len = u32_from_le_bytes (take 4 out); rest = drop 4 out
        in if response_len > MAX_RESPONSE_BYTES then Inl Oversized
           else if length rest < response_len then Inl (Io (early_eof N))
           else Inr (take response_len rest))"

record noir_verifier =
  noir_binary :: path
  noir_home :: path
  noir_threads :: nat

text \<open>The environment of the process and the frame it is given.\<close>

definition noir_env :: "noir_verifier \<Rightarrow> (string \<times> string) list" where
  "noir_env v = [(''HOME'', noir_home v), (''HARDWARE_CONCURRENCY'', show_nat (noir_threads v))]"

definition request_frame :: "bytes \<Rightarrow> bytes" where
  "request_frame request = u32_to_le_bytes (length request) @ request"

definition exchange :: "'x noir_externs_scheme \<Rightarrow> noir_verifier \<Rightarrow> bytes \<Rightarrow> bb_response attempt" where
  "exchange N v request =
     (if length request \<ge> u32_bound
      then fails (noir_failure ''barretenberg_protocol''
        ''Barretenberg request exceeds the framing limit'' False)
      else
        let r = run_process N (noir_binary v) [''msgpack'', ''run''] (noir_env v) (request_frame request)
        in case run_spawn r of
          Some e \<Rightarrow> fails (unavailable (''failed to start Barretenberg: '' @ io_text e))
        | None \<Rightarrow>
            if \<not> run_has_stdin r then fails (unavailable ''Barretenberg stdin pipe is unavailable'')
            else if \<not> run_has_stdout r then fails (unavailable ''Barretenberg stdout pipe is unavailable'')
            else
              let result =
                (if run_cancelled r then None
                 else Some (case run_write r of
                     Some e \<Rightarrow> Inl (Io e)
                   | None \<Rightarrow> read_frame N (run_output r)))
              in case cleanup_process (run_try_wait r) (run_kill r) of
                Inl e \<Rightarrow> fails (noir_failure ''barretenberg_cleanup''
                  (''failed to stop Barretenberg: '' @ io_text e) True)
              | Inr _ \<Rightarrow>
                  (case result of
                     None \<Rightarrow> fails (unavailable ''Barretenberg verification was cancelled'')
                   | Some (Inl Oversized) \<Rightarrow> fails (noir_failure ''barretenberg_protocol''
                       ''Barretenberg response exceeds 1 MiB'' False)
                   | Some (Inl (Io e)) \<Rightarrow>
                       fails (unavailable (''Barretenberg pipe closed unexpectedly: '' @ io_text e))
                   | Some (Inr response) \<Rightarrow>
                       (case from_slice N response of
                          Inl e \<Rightarrow> fails (noir_failure ''barretenberg_protocol''
                            (''invalid Barretenberg response: '' @ e) False)
                        | Inr x \<Rightarrow> Some (Inr x))))"

definition classify_response :: "bb_response \<Rightarrow> verdict attempt" where
  "classify_response r =
     (case r of
        CircuitVerifyResponse verified \<Rightarrow> Some (Inr (if verified then Valid else Invalid))
      | ErrorResponse msg \<Rightarrow>
          fails (noir_failure ''barretenberg_error'' (''Barretenberg error: '' @ msg) False)
      | OtherResponse \<Rightarrow> fails (noir_failure ''barretenberg_protocol''
          ''Barretenberg returned an unexpected response variant'' False))"

definition noir_verify :: "'x noir_externs_scheme \<Rightarrow> noir_verifier \<Rightarrow> zk_proof \<Rightarrow> verdict attempt" where
  "noir_verify N v p =
     (if proof_type p \<noteq> NoirBarretenberg
      then fails (noir_failure ''invalid_noir_artifact''
        ''Noir verifier received a different proof type'' False)
      else
        and_then (noir_fields (proof_bytes p)) (\<lambda>proof_fields.
        and_then (noir_fields (public_inputs p)) (\<lambda>inputs.
        and_then (encode_request N p inputs proof_fields) (\<lambda>request.
        and_then (exchange N v request) classify_response))))"

section \<open>Initialization\<close>

definition read_version :: "'x noir_externs_scheme \<Rightarrow> path \<Rightarrow> string res" where
  "read_version N binary =
     (let r = run_version N binary;
          cleanup = (\<lambda>e. case cleanup_process (version_try_wait r) (version_kill r) of
              Inl c \<Rightarrow> Inl (initialization (''bb version cleanup failed: '' @ io_text c))
            | Inr _ \<Rightarrow> Inl e)
      in case version_spawn r of
        Some e \<Rightarrow> Inl (initialization (''failed to execute bb --version: '' @ io_text e))
      | None \<Rightarrow>
          if \<not> version_has_stdout r
          then Inl (initialization ''bb version stdout pipe is unavailable'')
          else (case version_result r of
              None \<Rightarrow> cleanup (initialization ''bb --version did not finish within 5 seconds'')
            | Some (Inl e) \<Rightarrow> cleanup (initialization (''bb --version failed: '' @ io_text e))
            | Some (Inr (success, shown)) \<Rightarrow>
                let output = take (MAX_VERSION_BYTES + 1) (version_output r)
                in if \<not> success then Inl (initialization (''bb --version exited with '' @ shown))
                else if length output > MAX_VERSION_BYTES
                then Inl (initialization ''bb --version output is too large'')
                else (case from_utf8 output of
                    Inr version \<Rightarrow> Inr (trim version)
                  | Inl e \<Rightarrow> Inl (initialization (''bb --version output is not UTF-8: '' @ e)))))"

definition noir_initialize :: "'x noir_externs_scheme \<Rightarrow> noir_config \<Rightarrow> noir_verifier res" where
  "noir_initialize N c =
     bind_res (map_err (\<lambda>e. initialization (''cannot access bb binary: '' @ io_text e))
       (fs_metadata N (binary_path c))) (\<lambda>m.
     if \<not> is_file m \<or> mode m AND 73 = 0
     then Inl (initialization ''bb binary must be a regular executable file'')
     else
       let crs = path_join (home_directory c) ''.bb-crs''
       in if \<not> (case fs_metadata N crs of Inr m \<Rightarrow> is_dir m | Inl _ \<Rightarrow> False)
       then Inl (initialization (''Barretenberg CRS directory is missing: '' @ crs))
       else
         bind_res (read_version N (binary_path c)) (\<lambda>version.
         if version \<noteq> BB_VERSION
         then Inl (initialization (''expected bb '' @ BB_VERSION @ '', got '' @ version))
         else Inr \<lparr>noir_binary = binary_path c, noir_home = home_directory c,
                   noir_threads = threads_per_job c\<rparr>))"

section \<open>No panic, bounded diagnostics\<close>

lemma truncate_message_le: "length (truncate_message msg) \<le> FAILURE_MESSAGE_MAX_BYTES"
  using boundary_down_le [of msg FAILURE_MESSAGE_MAX_BYTES] by (simp add: truncate_message_def)

lemma truncate_message_prefix: "\<exists>rest. msg = truncate_message msg @ rest"
  using append_take_drop_id [of "boundary_down msg FAILURE_MESSAGE_MAX_BYTES" msg, symmetric]
  by (cases "length msg > FAILURE_MESSAGE_MAX_BYTES") (auto simp only: truncate_message_def if_True if_False)

definition noir_codes :: "string set" where
  "noir_codes = {''barretenberg_unavailable'', ''invalid_noir_artifact'', ''barretenberg_protocol'',
     ''barretenberg_cleanup'', ''barretenberg_error''}"

lemma noir_codes_ok:
  assumes "code \<in> noir_codes"
  shows "code \<noteq> [] \<and> length code \<le> FAILURE_CODE_MAX_BYTES \<and> failure_code_chars code"
proof -
  have "list_all (\<lambda>code. code \<noteq> [] \<and> length code \<le> FAILURE_CODE_MAX_BYTES \<and> failure_code_chars code)
      [''barretenberg_unavailable'', ''invalid_noir_artifact'', ''barretenberg_protocol'',
       ''barretenberg_cleanup'', ''barretenberg_error'']"
    by code_simp
  with assms show ?thesis by (auto simp: noir_codes_def)
qed

text \<open>The diagnostic of every failure path, for any message.\<close>

lemma noir_failure_total:
  assumes "code \<in> noir_codes"
  shows "noir_failure code msg r =
    Some \<lparr>failure_code = code, failure_message = truncate_message msg, failure_retryable = r\<rparr>"
  using noir_codes_ok [OF assms] truncate_message_le [of msg]
  by (simp add: noir_failure_def verification_failure_new_def)

definition attempt_ok :: "'a attempt \<Rightarrow> bool" where
  "attempt_ok r = (case r of None \<Rightarrow> False | Some (Inl f) \<Rightarrow> failure_ok f | Some (Inr _) \<Rightarrow> True)"

lemma fails_ok [simp]: "code \<in> noir_codes \<Longrightarrow> attempt_ok (fails (noir_failure code msg r))"
  using noir_codes_ok [of code] truncate_message_le [of msg]
  by (simp add: attempt_ok_def fails_def noir_failure_total failure_ok_def)

lemma code_members [simp]:
  "''barretenberg_unavailable'' \<in> noir_codes" "''invalid_noir_artifact'' \<in> noir_codes"
  "''barretenberg_protocol'' \<in> noir_codes" "''barretenberg_cleanup'' \<in> noir_codes"
  "''barretenberg_error'' \<in> noir_codes"
  by (simp_all add: noir_codes_def)

lemma unavailable_ok [simp]: "attempt_ok (fails (unavailable msg))"
  by (simp add: unavailable_def)

lemma attempt_ok_Inr [simp]: "attempt_ok (Some (Inr x))"
  by (simp add: attempt_ok_def)

lemma and_then_ok: "attempt_ok r \<Longrightarrow> (\<And>x. r = Some (Inr x) \<Longrightarrow> attempt_ok (g x)) \<Longrightarrow> attempt_ok (and_then r g)"
  by (auto simp: attempt_ok_def and_then_def split: option.splits sum.splits)

lemma exchange_ok: "attempt_ok (exchange N v request)"
  unfolding exchange_def Let_def
  by (simp split: option.split sum.split exchange_error.split)

lemma noir_verify_ok: "attempt_ok (noir_verify N v p)"
  unfolding noir_verify_def
  by (auto simp: noir_fields_def encode_request_def classify_response_def exchange_ok
      intro!: and_then_ok split: sum.split bb_response.split)

section \<open>Framing\<close>

lemma as_chunks_short: "length b < 32 \<Longrightarrow> as_chunks b = []"
  by (subst as_chunks.simps) simp

lemma as_chunks_long: "\<not> length b < 32 \<Longrightarrow> as_chunks b = take 32 b # as_chunks (drop 32 b)"
  by (subst as_chunks.simps) simp

lemma as_chunks_concat: "32 dvd length b \<Longrightarrow> concat (as_chunks b) = b \<and> (\<forall>c \<in> set (as_chunks b). length c = 32)"
proof (induction b rule: as_chunks.induct)
  case (1 b)
  show ?case
  proof (cases "length b < 32")
    case True
    with 1(2) have "b = []" by (auto dest: dvd_imp_le)
    then show ?thesis by (simp add: as_chunks_short)
  next
    case False
    then have "32 dvd length (drop 32 b)" using 1(2) by (simp add: dvd_minus_self)
    then have "concat (as_chunks (drop 32 b)) = drop 32 b \<and> (\<forall>c \<in> set (as_chunks (drop 32 b)). length c = 32)"
      using 1(1) [OF False] by blast
    moreover have "length (take 32 b) = 32" using False by simp
    ultimately show ?thesis
      unfolding as_chunks_long [OF False] concat.simps list.set by (metis append_take_drop_id insertE)
  qed
qed

lemma u32_le_round_trip: "n < u32_bound \<Longrightarrow> u32_from_le_bytes (u32_to_le_bytes n) = n"
proof -
  assume "n < u32_bound"
  then have n: "n < 4294967296" by (simp add: word_bounds)
  have "unat (of_nat k :: byte) = k mod 256" for k by (simp add: unat_of_nat)
  then have "u32_from_le_bytes (u32_to_le_bytes n) =
      n mod 256 + 256 * (n div 256 mod 256) + 65536 * (n div 65536 mod 256)
      + 16777216 * (n div 16777216 mod 256)"
    by (simp add: u32_from_le_bytes_def u32_to_le_bytes_def)
  also have "\<dots> = n"
  proof -
    have d: "n div 65536 = n div 256 div 256" "n div 16777216 = n div 256 div 256 div 256"
      by (simp_all flip: div_mult2_eq)
    have l: "n div 16777216 mod 256 = n div 16777216" using n by (simp add: div_less_iff_less_mult)
    show ?thesis
      using div_mult_mod_eq [of n 256] div_mult_mod_eq [of "n div 256" 256]
        div_mult_mod_eq [of "n div 256 div 256" 256] l
      unfolding d by linarith
  qed
  finally show ?thesis .
qed

lemma read_frame_round_trip:
  assumes "length m \<le> MAX_RESPONSE_BYTES"
  shows "read_frame N (request_frame m @ rest) = Inr m"
proof -
  have "length m < u32_bound" using assms by (simp add: MAX_RESPONSE_BYTES_def word_bounds)
  then show ?thesis
    using assms u32_le_round_trip [of "length m"]
    by (simp add: read_frame_def request_frame_def Let_def) (simp add: u32_to_le_bytes_def)
qed

section \<open>Properties\<close>

lemma and_then_Inr: "and_then r g = Some (Inr y) \<longleftrightarrow> (\<exists>x. r = Some (Inr x) \<and> g x = Some (Inr y))"
  by (auto simp: and_then_def split: option.splits sum.splits)

lemma fails_Inr [simp]: "fails f \<noteq> Some (Inr x)"
  by (auto simp: fails_def)

lemma exchange_Inr:
  assumes "exchange N v request = Some (Inr x)"
  shows "length request < u32_bound \<and>
    (\<exists>out. read_frame N (run_output (run_process N (noir_binary v) [''msgpack'', ''run''] (noir_env v)
        (request_frame request))) = Inr out \<and> from_slice N out = Inr x)"
  using assms unfolding exchange_def Let_def
  by (auto split: if_splits option.splits sum.splits exchange_error.splits)

text \<open>
  The answer of the process to the request for a proof: the request carries the key, the public inputs and the
  proof cut into fields, and the output of the process starts with a frame that decodes
  to the given response.
\<close>

definition bb_answers :: "'x noir_externs_scheme \<Rightarrow> noir_verifier \<Rightarrow> zk_proof \<Rightarrow> bb_response \<Rightarrow> bool" where
  "bb_answers N v p x \<longleftrightarrow>
     (\<exists>proof_fields inputs request out.
        concat proof_fields = proof_bytes p \<and> list_all (\<lambda>f. length f = 32) proof_fields \<and>
        concat inputs = public_inputs p \<and> list_all (\<lambda>f. length f = 32) inputs \<and>
        to_vec_named N [build_command p inputs proof_fields] = Inr request \<and>
        read_frame N (run_output (run_process N (noir_binary v) [''msgpack'', ''run''] (noir_env v)
          (request_frame request))) = Inr out \<and>
        from_slice N out = Inr x)"

lemma noir_fields_Inr:
  "noir_fields b = Some (Inr fs) \<Longrightarrow> concat fs = b \<and> list_all (\<lambda>f. length f = 32) fs"
  using as_chunks_concat [of b] by (auto simp: noir_fields_def list_all_iff split: if_splits)

lemma encode_request_Inr:
  "encode_request N p inputs fs = Some (Inr r) \<longleftrightarrow> to_vec_named N [build_command p inputs fs] = Inr r"
  by (auto simp: encode_request_def split: sum.splits)

lemma classify_Inr: "classify_response x = Some (Inr vd) \<longleftrightarrow> x = CircuitVerifyResponse (vd = Valid)"
  by (cases x; cases vd) (auto simp: classify_response_def)

lemma noir_verify_answers:
  assumes "noir_verify N v p = Some (Inr vd)"
  shows "proof_type p = NoirBarretenberg \<and> bb_answers N v p (CircuitVerifyResponse (vd = Valid))"
proof -
  have t: "proof_type p = NoirBarretenberg"
    using assms by (auto simp: noir_verify_def split: if_splits)
  obtain pf pi request x where
    f: "noir_fields (proof_bytes p) = Some (Inr pf)" "noir_fields (public_inputs p) = Some (Inr pi)"
    and r: "encode_request N p pi pf = Some (Inr request)" "exchange N v request = Some (Inr x)"
    and c: "classify_response x = Some (Inr vd)"
    using assms t unfolding noir_verify_def by (auto simp: and_then_Inr)
  show ?thesis
    using t noir_fields_Inr [OF f(1)] noir_fields_Inr [OF f(2)] r(1) exchange_Inr [OF r(2)] c
    unfolding bb_answers_def encode_request_Inr classify_Inr by blast
qed

text \<open>
  A codec and a process for closed instances: the request is the key followed by the fields, and
  the process answers every request with a frame of one byte, 1 for \<open>verified\<close>.
\<close>

definition demo_noir_externs :: noir_externs where
  "demo_noir_externs =
     \<lparr>fs_metadata = \<lambda>_. Inr \<lparr>is_file = True, is_dir = True, mode = 73\<rparr>,
      run_process = \<lambda>_ _ _ frame.
        \<lparr>run_spawn = None, run_has_stdin = True, run_has_stdout = True, run_write = None,
         run_output = request_frame [1], run_cancelled = False, run_try_wait = Inr False, run_kill = Inr ()\<rparr>,
      run_version = \<lambda>_. \<lparr>version_spawn = None, version_has_stdout = True,
        version_result = Some (Inr (True, ''exit status: 0'')), version_output = ascii ''5.2.0'',
        version_try_wait = Inr True, version_kill = Inr ()\<rparr>,
      early_eof = \<lparr>io_kind = UnexpectedEof, io_text = ''early eof''\<rparr>,
      to_vec_named = \<lambda>cs. Inr (concat (map (\<lambda>c. case c of
        CircuitVerify key inputs fs _ \<Rightarrow> key @ concat inputs @ concat fs) cs)),
      from_slice = \<lambda>b. if b = [1] then Inr (CircuitVerifyResponse True) else Inl ''no response''\<rparr>"

definition demo_noir :: noir_verifier where
  "demo_noir = \<lparr>noir_binary = ''/opt/bb'', noir_home = ''/var/bb'', noir_threads = 2\<rparr>"

definition demo_noir_proof :: zk_proof where
  "demo_noir_proof = \<lparr>proof_type = NoirBarretenberg, proof_bytes = replicate 64 5,
     public_inputs = [], verification_key = [9, 9]\<rparr>"

lemma demo_noir_verify: "noir_verify demo_noir_externs demo_noir demo_noir_proof = Some (Inr Valid)"
proof -
  have chunks: "as_chunks (replicate 64 5) = [replicate 32 5, replicate 32 5]"
    by (simp add: as_chunks_long as_chunks_short)
  show ?thesis
    by (simp add: noir_verify_def demo_noir_proof_def noir_fields_def chunks as_chunks_short and_then_def
        encode_request_def exchange_def cleanup_process_def Let_def demo_noir_externs_def read_frame_round_trip
        read_frame_round_trip [where rest = "[]", simplified] build_command_def word_bounds MAX_RESPONSE_BYTES_def
        classify_response_def)
qed

text \<open>
  C35. The backend never panics, whatever the process and the proof are: every attempt ends in a
  verdict or in a diagnostic within the wire bounds.
\<close>

theorem noir_verify_total:
  "case noir_verify N v p of
     None \<Rightarrow> False
   | Some (Inl f) \<Rightarrow> failure_ok f
   | Some (Inr verdict) \<Rightarrow> True"
  using noir_verify_ok [of N v p] unfolding attempt_ok_def .

section \<open>The backend as a verifier of the worker\<close>

text \<open>
  The process behaves anew in every attempt and takes its time; a panic of the backend would be
  caught by the worker.
\<close>

definition noir_backend :: "(nat \<Rightarrow> 'x noir_externs_scheme) \<Rightarrow> (nat \<Rightarrow> duration) \<Rightarrow> noir_verifier \<Rightarrow> verifier" where
  "noir_backend N took v p k =
     (case noir_verify (N k) v p of None \<Rightarrow> Panics (took k) | Some r \<Rightarrow> Returns (took k) r)"

interpretation bb: verifier_backend "noir_backend N took v" for N took v
  using noir_verify_ok
  by unfold_locales (fastforce simp: noir_backend_def attempt_ok_def split: option.splits sum.splits)

lemma noir_registry_ok: "registry_ok [NoirBarretenberg \<mapsto> noir_backend N took v]"
  by (rule bb.single_registry)

end
