(* ===== verification/Contract.thy ===== *)
theory Contract
  imports Store_Lifecycle
begin

text \<open>
  \<open>src/rpc/contract.rs\<close> and \<open>src/rpc/service.rs\<close>: the two queries of the chain-facing service.
  The lemmas show which requests are accepted, that an answer holds exactly the completed
  records, respectively one well-formed status per identifier, that a client's mistakes are
  reported as such, and that an answer fits the message limit of the server.
\<close>

section \<open>Wire messages\<close>

record wire_failure =
  wire_code :: string
  wire_message :: string
  wire_retryable :: bool

record verification_result =
  result_id :: bytes
  result_verdict :: int

record proof_verification_status =
  wire_status_id :: bytes
  wire_phase :: int
  wire_verdict_field :: int
  wire_failure_field :: "wire_failure option"

text \<open>
  The values of the generated enums \<open>VerificationVerdict\<close> and \<open>VerificationPhase\<close>
  (\<open>verification.proto\<close>).
\<close>

definition VERDICT_UNSPECIFIED :: int where "VERDICT_UNSPECIFIED = 0"
definition VERDICT_VALID :: int where "VERDICT_VALID = 1"
definition VERDICT_INVALID :: int where "VERDICT_INVALID = 2"
definition PHASE_UNAVAILABLE :: int where "PHASE_UNAVAILABLE = 1"
definition PHASE_QUEUED :: int where "PHASE_QUEUED = 2"
definition PHASE_VERIFYING :: int where "PHASE_VERIFYING = 3"
definition PHASE_COMPLETED :: int where "PHASE_COMPLETED = 4"
definition PHASE_FAILED :: int where "PHASE_FAILED = 5"

section \<open>The mapping (\<open>contract.rs\<close>)\<close>

definition MAX_VERIFICATION_IDS :: nat where "MAX_VERIFICATION_IDS = 512"

fun parse_ids_loop ::
  "'x externs_scheme \<Rightarrow> bytes list \<Rightarrow> verification_id set \<Rightarrow> verification_id list \<Rightarrow> verification_id list res" where
  "parse_ids_loop X [] seen ids = Inr ids"
| "parse_ids_loop X (raw # raws) seen ids =
     bind_res (verification_id_try_from raw) (\<lambda>i.
       if i \<in> seen
       then Inl (InvalidVerificationRequest (''duplicate verification ID '' @ display_id X i))
       else parse_ids_loop X raws (insert i seen) (ids @ [i]))"

definition parse_ids :: "'x externs_scheme \<Rightarrow> bytes list \<Rightarrow> verification_id list res" where
  "parse_ids X raws =
     (if length raws > MAX_VERIFICATION_IDS
      then Inl (InvalidVerificationRequest
        (''at most '' @ show_nat MAX_VERIFICATION_IDS @ '' verification IDs are allowed''))
      else parse_ids_loop X raws {} [])"

definition wire_verdict :: "verdict \<Rightarrow> int" where
  "wire_verdict v = (case v of Valid \<Rightarrow> VERDICT_VALID | Invalid \<Rightarrow> VERDICT_INVALID)"

definition wire_status :: "stored_status \<Rightarrow> proof_verification_status" where
  "wire_status s =
     (let (phase, verdict, failure) =
        (case status s of
           StatusUnavailable \<Rightarrow> (PHASE_UNAVAILABLE, None, None)
         | StatusQueued \<Rightarrow> (PHASE_QUEUED, None, None)
         | StatusVerifying \<Rightarrow> (PHASE_VERIFYING, None, None)
         | StatusCompleted v \<Rightarrow> (PHASE_COMPLETED, Some (wire_verdict v), None)
         | StatusFailed f \<Rightarrow>
             (PHASE_FAILED, None,
              Some \<lparr>wire_code = failure_code f, wire_message = failure_message f,
                    wire_retryable = failure_retryable f\<rparr>))
      in \<lparr>wire_status_id = as_bytes (status_id s), wire_phase = phase,
          wire_verdict_field = (case verdict of None \<Rightarrow> VERDICT_UNSPECIFIED | Some v \<Rightarrow> v),
          wire_failure_field = failure\<rparr>)"

definition get_verification_results ::
  "'x store_externs_scheme \<Rightarrow> store \<Rightarrow> bytes list \<Rightarrow> verification_result list res" where
  "get_verification_results X s raws =
     bind_res (parse_ids X raws) (\<lambda>ids.
       Inr (map (\<lambda>r. \<lparr>result_id = as_bytes (completed_id r), result_verdict = wire_verdict (completed_verdict r)\<rparr>)
         (completed_results X s ids)))"

definition get_proof_statuses ::
  "'x store_externs_scheme \<Rightarrow> store \<Rightarrow> bytes list \<Rightarrow> proof_verification_status list res" where
  "get_proof_statuses X s raws =
     bind_res (parse_ids X raws) (\<lambda>ids. Inr (map wire_status (statuses X s ids)))"

section \<open>The service (\<open>service.rs\<close>)\<close>

text \<open>
  A gRPC status: its code and its message, which is a fixed text or the rendering of an
  error.
\<close>

datatype grpc_code =
    InvalidArgument | ResourceExhausted | FailedPrecondition | Unavailable | Internal

datatype status_text = FixedText string | Rendered error

datatype grpc_status = Status (status_code: grpc_code) (status_text: status_text)

definition rpc_status :: "error \<Rightarrow> grpc_status" where
  "rpc_status e =
     (case e of
        InvalidVerificationId _ \<Rightarrow> Status InvalidArgument (Rendered e)
      | InvalidVerificationRequest _ \<Rightarrow> Status InvalidArgument (Rendered e)
      | _ \<Rightarrow> Status Internal (FixedText ''verification service request failed''))"

definition rpc_get_verification_results ::
  "'x store_externs_scheme \<Rightarrow> store \<Rightarrow> bytes list \<Rightarrow> grpc_status + verification_result list" where
  "rpc_get_verification_results X s raws = map_err rpc_status (get_verification_results X s raws)"

definition rpc_get_proof_statuses ::
  "'x store_externs_scheme \<Rightarrow> store \<Rightarrow> bytes list \<Rightarrow> grpc_status + proof_verification_status list" where
  "rpc_get_proof_statuses X s raws = map_err rpc_status (get_proof_statuses X s raws)"

section \<open>Accepted requests\<close>

lemma parse_ids_loop_Inr:
  "parse_ids_loop X raws seen ids = Inr out \<longleftrightarrow>
     (\<forall>r \<in> set raws. length r = 32) \<and> distinct raws \<and> (\<forall>r \<in> set raws. VerificationId r \<notin> seen) \<and>
     out = ids @ map VerificationId raws"
proof (induction raws arbitrary: seen ids)
  case (Cons r raws)
  have id: "verification_id_try_from r = Inr i \<longleftrightarrow> i = VerificationId r \<and> length r = 32" for i
    by (cases i) auto
  have step: "parse_ids_loop X (r # raws) seen ids = Inr out \<longleftrightarrow>
      length r = 32 \<and> VerificationId r \<notin> seen \<and>
      parse_ids_loop X raws (insert (VerificationId r) seen) (ids @ [VerificationId r]) = Inr out"
    unfolding parse_ids_loop.simps bind_res_Inr_iff id by auto
  show ?case unfolding step Cons.IH by auto
qed auto

lemma parse_ids_Inr:
  "parse_ids X raws = Inr ids \<longleftrightarrow>
     length raws \<le> 512 \<and> distinct raws \<and> list_all (\<lambda>r. length r = 32) raws \<and> ids = map VerificationId raws"
  unfolding parse_ids_def MAX_VERIFICATION_IDS_def if_Inl_Inr_iff parse_ids_loop_Inr
  by (auto simp: list_all_iff)

lemma parse_ids_Inl: "parse_ids X raws = Inl e \<Longrightarrow> status_code (rpc_status e) = InvalidArgument"
proof -
  have "parse_ids_loop X raws seen ids = Inl e \<Longrightarrow> status_code (rpc_status e) = InvalidArgument" for seen ids
    by (induction raws arbitrary: seen ids)
       (auto simp: bind_res_def verification_id_try_from_def rpc_status_def split: if_splits)
  then show "parse_ids X raws = Inl e \<Longrightarrow> status_code (rpc_status e) = InvalidArgument"
    by (auto simp: parse_ids_def rpc_status_def split: if_splits)
qed

section \<open>Answers\<close>

text \<open>A status on the wire: a verdict exactly when completed, a bounded diagnostic exactly when failed.\<close>

definition wire_status_ok :: "proof_verification_status \<Rightarrow> bool" where
  "wire_status_ok st \<longleftrightarrow>
     wire_phase st \<in> {PHASE_UNAVAILABLE, PHASE_QUEUED, PHASE_VERIFYING, PHASE_COMPLETED, PHASE_FAILED} \<and>
     (wire_phase st = PHASE_COMPLETED \<longleftrightarrow> wire_verdict_field st \<in> {VERDICT_VALID, VERDICT_INVALID}) \<and>
     (wire_phase st \<noteq> PHASE_COMPLETED \<longleftrightarrow> wire_verdict_field st = VERDICT_UNSPECIFIED) \<and>
     (wire_phase st = PHASE_FAILED \<longleftrightarrow> wire_failure_field st \<noteq> None) \<and>
     (case wire_failure_field st of None \<Rightarrow> True
      | Some f \<Rightarrow> length (wire_code f) \<le> 64 \<and> length (wire_message f) \<le> 256)"

lemmas wire_enum_defs =
  VERDICT_UNSPECIFIED_def VERDICT_VALID_def VERDICT_INVALID_def PHASE_UNAVAILABLE_def
  PHASE_QUEUED_def PHASE_VERIFYING_def PHASE_COMPLETED_def PHASE_FAILED_def

definition completed_entry :: "proof_verification_status \<Rightarrow> bool" where
  "completed_entry st \<longleftrightarrow> wire_phase st = PHASE_COMPLETED"

definition entry_result :: "proof_verification_status \<Rightarrow> verification_result" where
  "entry_result st = \<lparr>result_id = wire_status_id st, result_verdict = wire_verdict_field st\<rparr>"

abbreviation phase_entry :: "verification_id \<Rightarrow> phase \<Rightarrow> proof_verification_status" where
  "phase_entry i ph \<equiv> wire_status \<lparr>status_id = i, status = phase_status ph\<rparr>"

lemma phase_entry_id [simp]: "wire_status_id (phase_entry i ph) = as_bytes i"
  by (simp add: wire_status_def split: prod.split)

lemma phase_entry_ok:
  assumes "\<And>f. ph = InState (Failed f) \<Longrightarrow> failure_ok f"
  shows "wire_status_ok (phase_entry i ph)"
  using assms
  by (auto simp: wire_status_ok_def wire_status_def phase_status_def wire_verdict_def wire_enum_defs
      failure_ok_def FAILURE_CODE_MAX_BYTES_def FAILURE_MESSAGE_MAX_BYTES_def
      split: phase.split verification_state.split verdict.split)

lemma phase_entry_result:
  "(case ph of InState (Completed v) \<Rightarrow> Some \<lparr>completed_id = i, completed_verdict = v\<rparr> | _ \<Rightarrow> None) =
     Some c \<longleftrightarrow>
   completed_entry (phase_entry i ph) \<and> completed_id c = i \<and>
   entry_result (phase_entry i ph) = \<lparr>result_id = as_bytes i, result_verdict = wire_verdict (completed_verdict c)\<rparr>"
  by (cases c)
     (auto simp: completed_entry_def entry_result_def wire_status_def phase_status_def wire_verdict_def
      wire_enum_defs split: phase.split verification_state.split verdict.split)

lemma results_of_statuses:
  assumes "moka X"
  shows "map (\<lambda>r. \<lparr>result_id = as_bytes (completed_id r), result_verdict = wire_verdict (completed_verdict r)\<rparr>)
           (completed_results X s is) =
         map entry_result (filter completed_entry (map wire_status (statuses X s is)))"
  unfolding completed_results_eq [OF assms] statuses_eq [OF assms]
proof (induction "is")
  case (Cons i "is")
  then show ?case
    using phase_entry_result [of i "phase_of (entry s i)"]
    by (cases "case phase_of (entry s i) of
        InState (Completed v) \<Rightarrow> Some \<lparr>completed_id = i, completed_verdict = v\<rparr> | _ \<Rightarrow> None")
       (auto simp: map_filter_simps completed_entry_def entry_result_def wire_status_def phase_status_def wire_enum_defs
          split: phase.splits verification_state.splits)
qed (simp add: map_filter_simps)

lemma reachable_phase_failure:
  assumes "reachable_store X s" "phase_of (entry s i) = InState (Failed f)"
  shows "failure_ok f"
  using reachable_good [OF assms(1)] store_inv_entry [of X s i] assms(2)
  by (auto simp: phase_of_def record_ok_def split: option.splits)

lemma proof_statuses_ok:
  assumes "reachable_store X s" "get_proof_statuses X s raws = Inr sts"
  shows "length sts \<le> 512 \<and> map wire_status_id sts = raws \<and> list_all (\<lambda>r. length r = 32) raws \<and>
         list_all wire_status_ok sts"
proof -
  have X: "moka X" using reachable_good [OF assms(1)] by auto
  have st: "sts = map (\<lambda>r. phase_entry (VerificationId r) (phase_of (entry s (VerificationId r)))) raws"
    and ids: "length raws \<le> 512" "list_all (\<lambda>r. length r = 32) raws"
    using assms(2) unfolding get_proof_statuses_def bind_res_Inr_iff parse_ids_Inr
    by (auto simp: statuses_eq [OF X] comp_def)
  have "list_all wire_status_ok sts"
    unfolding st list_all_iff using reachable_phase_failure [OF assms(1)]
    by (auto intro!: phase_entry_ok)
  with st ids show ?thesis by (simp add: comp_def)
qed

lemma demo_id_len: "length (as_bytes demo_id) = 32"
  unfolding demo_id_def by (rule verification_id_wf) (use demo_store_laws in simp)

lemma demo_parse_ids: "parse_ids demo_store_externs [as_bytes demo_id] = Inr [demo_id]"
  using demo_id_len by (simp add: parse_ids_Inr)

lemma demo_statuses:
  "rpc_get_proof_statuses demo_store_externs demo_completed [as_bytes demo_id] =
     Inr [phase_entry demo_id (InState (Completed Valid))]"
  by (simp add: rpc_get_proof_statuses_def get_proof_statuses_def statuses_eq [OF demo_moka]
      demo_completed_records phase_of_def demo_record_def demo_parse_ids)

text \<open>
  C26. The two queries of the chain: a request of at most 512 distinct identifiers of 32 bytes
  gets one status per identifier, in its order, with a verdict exactly when the verification is
  completed and a bounded diagnostic exactly when it failed; the results are exactly the completed
  ones among these statuses. Every other request is the client's error.
\<close>

theorem rpc_queries_contract:
  assumes "reachable_store X s"
  shows "if length raws \<le> 512 \<and> distinct raws \<and> list_all (\<lambda>r. length r = 32) raws
         then \<exists>sts. rpc_get_proof_statuses X s raws = Inr sts \<and>
                map wire_status_id sts = raws \<and> list_all wire_status_ok sts \<and>
                rpc_get_verification_results X s raws =
                  Inr (map entry_result (filter completed_entry sts))
         else \<exists>m. rpc_get_proof_statuses X s raws = Inl (Status InvalidArgument m) \<and>
                  rpc_get_verification_results X s raws = Inl (Status InvalidArgument m)"
proof (cases "length raws \<le> 512 \<and> distinct raws \<and> list_all (\<lambda>r. length r = 32) raws")
  case True
  have X: "moka X" using reachable_good [OF assms] by auto
  have ids: "parse_ids X raws = Inr (map VerificationId raws)" using True by (simp add: parse_ids_Inr)
  then have st: "get_proof_statuses X s raws = Inr (map wire_status (statuses X s (map VerificationId raws)))"
    by (simp add: get_proof_statuses_def)
  have "get_verification_results X s raws =
      Inr (map entry_result (filter completed_entry (map wire_status (statuses X s (map VerificationId raws)))))"
    using results_of_statuses [OF X, of s "map VerificationId raws"] ids
    by (simp add: get_verification_results_def)
  with st proof_statuses_ok [OF assms st] True show ?thesis
    by (simp add: rpc_get_proof_statuses_def rpc_get_verification_results_def)
next
  case False
  then obtain e where e: "parse_ids X raws = Inl e"
    using parse_ids_Inr [of X raws] by (cases "parse_ids X raws") auto
  with parse_ids_Inl [OF e] False show ?thesis
    by (cases "rpc_status e")
       (auto simp: rpc_get_proof_statuses_def rpc_get_verification_results_def get_proof_statuses_def
         get_verification_results_def)
qed

theorem rpc_queries_contract_witness:
  "rpc_get_verification_results demo_store_externs demo_completed [as_bytes demo_id] =
     Inr [\<lparr>result_id = as_bytes demo_id, result_verdict = 1\<rparr>] \<and>
   status_code (projl (rpc_get_verification_results demo_store_externs demo_completed
     [as_bytes demo_id, as_bytes demo_id])) = InvalidArgument"
  using rpc_queries_contract [OF demo_reach(5), of "[as_bytes demo_id]"]
    rpc_queries_contract [OF demo_reach(5), of "[as_bytes demo_id, as_bytes demo_id]"]
    demo_id_len demo_statuses
  by (auto simp: completed_entry_def entry_result_def wire_status_def phase_status_def
      wire_verdict_def wire_enum_defs)

section \<open>Message sizes\<close>

text \<open>
  The server (\<open>server.rs\<close>) refuses to read a request and to write an answer above its message
  limit. The sizes come from \<open>prost\<close>: a repeated field is one tag, length and content per entry, a
  field with its default value is omitted, and all tags of these messages take one byte.
\<close>

definition MAX_RPC_MESSAGE_BYTES :: nat where "MAX_RPC_MESSAGE_BYTES = 256 * 1024"

record query_codec =
  request_len :: "bytes list \<Rightarrow> nat"
  results_len :: "verification_result list \<Rightarrow> nat"
  statuses_len :: "proof_verification_status list \<Rightarrow> nat"

definition delimited_len :: "'x externs_scheme \<Rightarrow> nat \<Rightarrow> nat" where
  "delimited_len X n = 1 + encoded_len_varint X n + n"

definition text_field_len :: "'x externs_scheme \<Rightarrow> 'a list \<Rightarrow> nat" where
  "text_field_len X b = (if b = [] then 0 else delimited_len X (length b))"

definition enum_field_len :: "'x externs_scheme \<Rightarrow> int \<Rightarrow> nat" where
  "enum_field_len X v = (if v = 0 then 0 else 1 + encoded_len_varint X (nat v))"

definition result_message_len :: "'x externs_scheme \<Rightarrow> verification_result \<Rightarrow> nat" where
  "result_message_len X r = text_field_len X (result_id r) + enum_field_len X (result_verdict r)"

definition failure_message_len :: "'x externs_scheme \<Rightarrow> wire_failure \<Rightarrow> nat" where
  "failure_message_len X f =
     text_field_len X (wire_code f) + text_field_len X (wire_message f)
     + (if wire_retryable f then 2 else 0)"

definition status_message_len :: "'x externs_scheme \<Rightarrow> proof_verification_status \<Rightarrow> nat" where
  "status_message_len X st =
     text_field_len X (wire_status_id st) + enum_field_len X (wire_phase st)
     + enum_field_len X (wire_verdict_field st)
     + (case wire_failure_field st of None \<Rightarrow> 0 | Some f \<Rightarrow> delimited_len X (failure_message_len X f))"

definition prost_queries :: "'x externs_scheme \<Rightarrow> query_codec \<Rightarrow> bool" where
  "prost_queries X Q \<longleftrightarrow>
     (\<forall>raws. request_len Q raws = sum_list (map (\<lambda>r. delimited_len X (length r)) raws)) \<and>
     (\<forall>rs. results_len Q rs = sum_list (map (\<lambda>r. delimited_len X (result_message_len X r)) rs)) \<and>
     (\<forall>sts. statuses_len Q sts = sum_list (map (\<lambda>st. delimited_len X (status_message_len X st)) sts))"

definition demo_codec :: query_codec where
  "demo_codec =
     \<lparr>request_len = (\<lambda>raws. sum_list (map (\<lambda>r. delimited_len demo_store_externs (length r)) raws)),
      results_len = (\<lambda>rs. sum_list (map (\<lambda>r. delimited_len demo_store_externs
        (result_message_len demo_store_externs r)) rs)),
      statuses_len = (\<lambda>sts. sum_list (map (\<lambda>st. delimited_len demo_store_externs
        (status_message_len demo_store_externs st)) sts))\<rparr>"

lemma demo_codec_ok: "prost_queries demo_store_externs demo_codec"
  by (simp add: prost_queries_def demo_codec_def)

lemma delimited_len_le: "varint_len X \<Longrightarrow> n \<le> m \<Longrightarrow> delimited_len X n \<le> 11 + m"
  using varint_len_le [of X n] by (simp add: delimited_len_def)

lemma text_field_len_le: "varint_len X \<Longrightarrow> length b \<le> m \<Longrightarrow> text_field_len X b \<le> 11 + m"
  using delimited_len_le [of X "length b" m] by (simp add: text_field_len_def)

lemma enum_field_len_le: "varint_len X \<Longrightarrow> 0 \<le> v \<Longrightarrow> v \<le> 5 \<Longrightarrow> enum_field_len X v \<le> 2"
  by (simp add: enum_field_len_def varint_len_small)

lemma status_message_len_le:
  assumes X: "varint_len X" and ok: "wire_status_ok st" and i: "length (wire_status_id st) = 32"
  shows "status_message_len X st \<le> 406"
proof -
  have en: "enum_field_len X (wire_phase st) \<le> 2" "enum_field_len X (wire_verdict_field st) \<le> 2"
    using ok by (auto intro!: enum_field_len_le [OF X] simp: wire_status_ok_def wire_enum_defs)
  have f: "failure_message_len X f \<le> 344" if "wire_failure_field st = Some f" for f
    using ok that text_field_len_le [OF X, of "wire_code f" 64] text_field_len_le [OF X, of "wire_message f" 256]
    by (simp add: failure_message_len_def wire_status_ok_def)
  have "(case wire_failure_field st of None \<Rightarrow> 0 | Some f \<Rightarrow> delimited_len X (failure_message_len X f)) \<le> 355"
    using delimited_len_le [OF X f] by (auto split: option.split)
  then show ?thesis
    using en text_field_len_le [OF X, of "wire_status_id st" 32] i by (simp add: status_message_len_def)
qed

lemma result_message_len_le:
  assumes "varint_len X" "wire_status_ok st" "length (wire_status_id st) = 32"
  shows "result_message_len X (entry_result st) \<le> 45"
proof -
  have "enum_field_len X (wire_verdict_field st) \<le> 2"
    using assms(2) by (auto intro!: enum_field_len_le [OF assms(1)] simp: wire_status_ok_def wire_enum_defs)
  then show ?thesis
    using text_field_len_le [OF assms(1), of "wire_status_id st" 32] assms(3)
    by (simp add: result_message_len_def entry_result_def)
qed

lemma sum_list_map_le:
  assumes "\<And>x. x \<in> set xs \<Longrightarrow> f x \<le> (b :: nat)" "length xs \<le> n"
  shows "sum_list (map f xs) \<le> n * b"
proof -
  have "sum_list (map f xs) \<le> length xs * b"
    using assms(1) by (induction xs) (auto intro: add_mono)
  also have "\<dots> \<le> n * b" using assms(2) by simp
  finally show ?thesis .
qed

text \<open>
  C34. An accepted query stays within the message limit of the server, which therefore never
  refuses the request nor fails to send the answer, whatever diagnostics the records hold.
\<close>

theorem rpc_answers_fit:
  assumes "reachable_store X s" "prost_queries X Q"
    and "rpc_get_proof_statuses X s raws = Inr sts"
    and "rpc_get_verification_results X s raws = Inr rs"
  shows "request_len Q raws \<le> MAX_RPC_MESSAGE_BYTES \<and>
         statuses_len Q sts \<le> MAX_RPC_MESSAGE_BYTES \<and> results_len Q rs \<le> MAX_RPC_MESSAGE_BYTES"
proof -
  have X: "moka X" "varint_len X" using reachable_good [OF assms(1)] by auto
  have st: "get_proof_statuses X s raws = Inr sts"
    using assms(3) by (simp add: rpc_get_proof_statuses_def)
  note ok = proof_statuses_ok [OF assms(1) st]
  have len: "length raws \<le> 512" using ok by (metis length_map)
  have each: "wire_status_ok e" "length (wire_status_id e) = 32" if "e \<in> set sts" for e
    using ok that by (auto simp: list_all_iff)
  have rs: "rs = map entry_result (filter completed_entry sts)"
    using st assms(4) results_of_statuses [OF X(1), of s]
    by (auto simp: rpc_get_verification_results_def get_verification_results_def get_proof_statuses_def
        bind_res_Inr_iff)
  have "length r = 32" if "r \<in> set raws" for r
    using ok that by (simp add: list_all_iff)
  then have "request_len Q raws \<le> 512 * 43"
    using assms(2) delimited_len_le [OF X(2), of 32 32]
      sum_list_map_le [OF _ len, of "\<lambda>r. delimited_len X (length r)" 43]
    by (simp add: prost_queries_def)
  moreover have "statuses_len Q sts \<le> 512 * 417"
    using assms(2) ok delimited_len_le [OF X(2) status_message_len_le [OF X(2) each]]
      sum_list_map_le [of sts "\<lambda>e. delimited_len X (status_message_len X e)" 417 512]
    by (simp add: prost_queries_def)
  moreover have "length (filter completed_entry sts) \<le> 512"
    using ok length_filter_le [of completed_entry sts] by linarith
  then have "results_len Q rs \<le> 512 * 56"
    using assms(2) delimited_len_le [OF X(2) result_message_len_le [OF X(2) each]]
      sum_list_map_le [of "filter completed_entry sts"
        "\<lambda>e. delimited_len X (result_message_len X (entry_result e))" 56 512]
    by (simp add: prost_queries_def rs comp_def)
  ultimately show ?thesis by (simp add: MAX_RPC_MESSAGE_BYTES_def)
qed

theorem rpc_answers_fit_witness:
  "statuses_len demo_codec [phase_entry demo_id (InState (Completed Valid))] \<le> MAX_RPC_MESSAGE_BYTES \<and>
   prost_queries demo_store_externs demo_codec"
proof -
  obtain rs where "rpc_get_verification_results demo_store_externs demo_completed [as_bytes demo_id] = Inr rs"
    using demo_parse_ids by (simp add: rpc_get_verification_results_def get_verification_results_def)
  then show ?thesis
    using rpc_answers_fit [OF demo_reach(5) demo_codec_ok demo_statuses] demo_codec_ok by blast
qed

end
