(* ===== verification/Chain_Client.thy ===== *)
theory Chain_Client
  imports Proof_Identity Config
begin

text \<open>
  \<open>src/chain\<close>: what the verifier accepts from the chain. \<open>descriptor.rs\<close> validates a committed
  verification request, \<open>client.rs\<close> turns the answers of a CometBFT node into the data of the
  verifier. The node and the codecs are parameters; the lemmas show that the paginated query ends
  and returns exactly the pending requests of its height, and that no malformed answer passes.
\<close>

section \<open>Descriptors (\<open>descriptor.rs\<close>)\<close>

definition COMPONENT_HASH_LEN :: nat where "COMPONENT_HASH_LEN = 32"

definition MAX_PROOFS_PER_BLOCK :: nat where "MAX_PROOFS_PER_BLOCK = 256"

record chain_proof =
  chain_verification_id :: verification_id
  chain_submission_height :: nat
  chain_index_in_block :: nat

text \<open>
  The fields read of \<open>ProofRecord\<close> and \<open>FinalProofResult\<close>, and of \<open>QueryProofResponse\<close>
  around them.
\<close>

record proof_descriptor =
  desc_proof_type :: int
  desc_proof_hash :: bytes
  desc_public_inputs_hash :: bytes
  desc_verification_key_hash :: bytes
  desc_verification_id :: bytes

datatype query_state = Pending proof_descriptor | FinalResult nat proof_descriptor

record proof_key =
  submission_height :: nat
  index_in_block :: nat

record query_proof_response =
  response_key :: "proof_key option"
  response_state :: "query_state option"

definition component_hash :: "string \<Rightarrow> bytes \<Rightarrow> bytes res" where
  "component_hash name b =
     (if length b = COMPONENT_HASH_LEN then Inr b
      else Inl (InvalidChainContract (name @ '' must be '' @ show_nat COMPONENT_HASH_LEN @
        '' bytes, got '' @ show_nat (length b))))"

definition validate_descriptor ::
  "'x externs_scheme \<Rightarrow> int \<Rightarrow> bytes \<Rightarrow> bytes \<Rightarrow> bytes \<Rightarrow> bytes \<Rightarrow> verification_id res" where
  "validate_descriptor X ty ph pih vkh vid =
     bind_res (proof_type_try_from ty) (\<lambda>ty.
     bind_res (component_hash ''proof_hash'' ph) (\<lambda>ph.
     bind_res (component_hash ''public_inputs_hash'' pih) (\<lambda>pih.
     bind_res (component_hash ''verification_key_hash'' vkh) (\<lambda>vkh.
     bind_res (verification_id_try_from vid) (\<lambda>expected.
       if from_component_hashes X ty ph pih vkh \<noteq> expected
       then Inl (VerificationIdMismatch expected)
       else Inr expected)))))"

definition validate_position :: "nat \<Rightarrow> nat \<Rightarrow> nat \<Rightarrow> unit res" where
  "validate_position height index expected_height =
     (if height = 0 \<or> height \<noteq> expected_height
      then Inl (InvalidChainContract (''invalid proof submission height '' @ show_nat height @
        ''; expected '' @ show_nat expected_height))
      else if index \<ge> MAX_PROOFS_PER_BLOCK
      then Inl (InvalidChainContract (''proof index '' @ show_nat index @
        '' exceeds the per-block contract limit''))
      else Inr ())"

definition validate_pending_descriptor :: "'x externs_scheme \<Rightarrow> proof_descriptor \<Rightarrow> verification_id res" where
  "validate_pending_descriptor X d =
     validate_descriptor X (desc_proof_type d) (desc_proof_hash d) (desc_public_inputs_hash d)
       (desc_verification_key_hash d) (desc_verification_id d)"

definition validate_final_descriptor :: "'x externs_scheme \<Rightarrow> proof_descriptor \<Rightarrow> verification_id res" where
  "validate_final_descriptor X d =
     validate_descriptor X (desc_proof_type d) (desc_proof_hash d) (desc_public_inputs_hash d)
       (desc_verification_key_hash d) (desc_verification_id d)"

definition validate_final_position :: "nat \<Rightarrow> nat \<Rightarrow> nat \<Rightarrow> unit res" where
  "validate_final_position record_height height index =
     (if record_height \<noteq> height
      then Inl (InvalidChainContract ''final proof result disagrees with its proof key height'')
      else Inr ())"

definition validate_query_proof ::
  "'x externs_scheme \<Rightarrow> query_proof_response \<Rightarrow> nat \<Rightarrow> chain_proof option res" where
  "validate_query_proof X response requested_height =
     bind_res (ok_or (InvalidChainContract ''proof query response is missing proof_key'')
       (response_key response)) (\<lambda>key.
     bind_res (validate_position (submission_height key) (index_in_block key) requested_height) (\<lambda>_.
     bind_res
       (case response_state response of
          Some (Pending d) \<Rightarrow> bind_res (validate_pending_descriptor X d) (\<lambda>i. Inr (i, True))
        | Some (FinalResult height d) \<Rightarrow>
            bind_res (validate_final_position height (submission_height key) (index_in_block key)) (\<lambda>_.
            bind_res (validate_final_descriptor X d) (\<lambda>i. Inr (i, False)))
        | None \<Rightarrow> Inl (InvalidChainContract ''proof query response has no state'')) (\<lambda>(i, pending).
     Inr (if pending
          then Some \<lparr>chain_verification_id = i, chain_submission_height = submission_height key,
                     chain_index_in_block = index_in_block key\<rparr>
          else None))))"

text \<open>A descriptor that passes: its identifier is the hash of its components.\<close>

definition descriptor_ok :: "'x externs_scheme \<Rightarrow> proof_descriptor \<Rightarrow> bool" where
  "descriptor_ok X d \<longleftrightarrow>
     length (desc_proof_hash d) = 32 \<and> length (desc_public_inputs_hash d) = 32 \<and>
     length (desc_verification_key_hash d) = 32 \<and> length (desc_verification_id d) = 32 \<and>
     (\<exists>t. desc_proof_type d = proof_type_to_i32 t \<and>
        desc_verification_id d =
          as_bytes (from_component_hashes X t (desc_proof_hash d) (desc_public_inputs_hash d)
            (desc_verification_key_hash d)))"

lemma component_hash_Inr [simp]: "component_hash name b = Inr c \<longleftrightarrow> c = b \<and> length b = 32"
  by (auto simp: component_hash_def COMPONENT_HASH_LEN_def)

lemma validate_descriptor_Inr:
  "validate_descriptor X ty ph pih vkh vid = Inr i \<longleftrightarrow>
     i = VerificationId vid \<and>
     descriptor_ok X \<lparr>desc_proof_type = ty, desc_proof_hash = ph, desc_public_inputs_hash = pih,
       desc_verification_key_hash = vkh, desc_verification_id = vid\<rparr>"
  unfolding validate_descriptor_def bind_res_Inr_iff if_Inl_Inr_iff descriptor_ok_def
  by (cases i) (auto intro: exI)

lemma validate_position_Inr [simp]:
  "validate_position h k e = Inr u \<longleftrightarrow> 0 < h \<and> h = e \<and> k < 256"
  by (auto simp: validate_position_def MAX_PROOFS_PER_BLOCK_def)

lemma validate_records_Inr [simp]:
  "validate_pending_descriptor X d = Inr i \<longleftrightarrow> i = VerificationId (desc_verification_id d) \<and> descriptor_ok X d"
  "validate_final_descriptor X d = Inr i \<longleftrightarrow> i = VerificationId (desc_verification_id d) \<and> descriptor_ok X d"
  by (simp_all add: validate_pending_descriptor_def validate_final_descriptor_def validate_descriptor_Inr
      descriptor_ok_def)

lemma validate_final_position_Inr [simp]: "validate_final_position r h k = Inr u \<longleftrightarrow> r = h"
  by (simp add: validate_final_position_def)

text \<open>The request a response stands for, when it is pending.\<close>

definition response_proof :: "query_proof_response \<Rightarrow> chain_proof option" where
  "response_proof r =
     (case (response_key r, response_state r) of
        (Some key, Some (Pending d)) \<Rightarrow>
          Some \<lparr>chain_verification_id = VerificationId (desc_verification_id d),
                chain_submission_height = submission_height key,
                chain_index_in_block = index_in_block key\<rparr>
      | _ \<Rightarrow> None)"

definition response_ok :: "'x externs_scheme \<Rightarrow> nat \<Rightarrow> query_proof_response \<Rightarrow> bool" where
  "response_ok X h r \<longleftrightarrow>
     (case (response_key r, response_state r) of
        (Some key, Some st) \<Rightarrow>
          0 < h \<and> submission_height key = h \<and> index_in_block key < 256 \<and>
          (case st of Pending d \<Rightarrow> descriptor_ok X d | FinalResult h' d \<Rightarrow> h' = h \<and> descriptor_ok X d)
      | _ \<Rightarrow> False)"

lemma validate_query_proof_Inr:
  "validate_query_proof X r h = Inr p \<longleftrightarrow> response_ok X h r \<and> p = response_proof r"
  unfolding validate_query_proof_def bind_res_Inr_iff
  by (cases "response_key r"; cases "response_state r")
     (auto simp: response_ok_def response_proof_def bind_res_Inr_iff split: query_state.split)

section \<open>The node (\<open>client.rs\<close>)\<close>

text \<open>
  A call to the node times out or ends with an error text or a value. The record \<open>comet\<close> holds
  how the node answers while an operation runs, together with the conversion to a block height
  (\<open>tendermint\<close>) and the codec of the paginated query (\<open>prost\<close>).
\<close>

datatype 'a rpc_outcome = TimedOut | Answered "string + 'a"

record node_status =
  network :: string
  catching_up :: bool
  latest_block_height :: nat

record broadcast_response =
  response_hash :: bytes
  response_code :: nat
  response_codespace :: string
  response_log :: string

record validators_response =
  validators_height :: nat
  validators_total :: int
  validators_keys :: "bytes list"

record block_header =
  header_height :: nat
  header_validators_hash :: bytes

record page_request =
  page_height :: nat
  page_key :: bytes
  page_offset :: nat
  page_limit :: nat
  page_count_total :: bool
  page_reverse :: bool

record abci_response =
  abci_height :: nat
  abci_code :: nat
  abci_log :: string
  abci_value :: bytes

record proofs_page =
  page_proofs :: "query_proof_response list"
  page_next_key :: "bytes option"

record comet =
  comet_status :: "node_status rpc_outcome"
  comet_broadcast :: "bytes \<Rightarrow> broadcast_response rpc_outcome"
  comet_validators :: "nat \<Rightarrow> validators_response rpc_outcome"
  comet_block :: "nat \<Rightarrow> block_header rpc_outcome"
  abci_query :: "string \<Rightarrow> bytes \<Rightarrow> nat option \<Rightarrow> bool \<Rightarrow> abci_response rpc_outcome"
  height_try_from :: "nat \<Rightarrow> string + nat"
  encode_page_request :: "page_request \<Rightarrow> bytes"
  decode_proofs_page :: "bytes \<Rightarrow> string + proofs_page"

record pulsar_client =
  client_chain_id :: string
  client_rpc_url :: string
  client_timeout :: duration

record broadcast_receipt =
  receipt_hash :: bytes
  receipt_code :: nat
  receipt_codespace :: string
  receipt_log :: string

record committed_event =
  event_kind :: string
  event_attributes :: "(string \<times> string) list"

record committed_block =
  block_height :: nat
  block_validators_hash :: bytes
  block_events :: "committed_event list"

definition PROOFS_BY_HEIGHT_PATH :: string where
  "PROOFS_BY_HEIGHT_PATH = ''/pulsarchain.verification.v1.Query/ProofsByHeight''"

definition QUERY_PAGE_SIZE :: nat where "QUERY_PAGE_SIZE = 100"

definition chain_error :: "string \<Rightarrow> error" where "chain_error e = Chain e"

definition with_timeout :: "string \<Rightarrow> 'a rpc_outcome \<Rightarrow> 'a res" where
  "with_timeout operation oc =
     (case oc of
        TimedOut \<Rightarrow> Inl (Chain (''CometBFT '' @ operation @ '' timed out''))
      | Answered r \<Rightarrow> map_err chain_error r)"

definition bounded_text :: "string \<Rightarrow> nat \<Rightarrow> string" where
  "bounded_text s max_bytes =
     (if length s \<le> max_bytes then s else take (boundary_down s max_bytes) s)"

definition websocket_url :: "string \<Rightarrow> string res" where
  "websocket_url http_url =
     bind_res (ok_or (InvalidConfig ''chain.comet_rpc_url must include an HTTP scheme'')
       (split_once ''://'' http_url)) (\<lambda>(scheme, rest).
     bind_res
       (if scheme = ''http'' then Inr ''ws''
        else if scheme = ''https'' then Inr ''wss''
        else Inl (InvalidConfig ''chain.comet_rpc_url must use http or https'')) (\<lambda>websocket_scheme.
     Inr (websocket_scheme @ ''://'' @ trim_end_matches CHR ''/'' rest @ ''/websocket'')))"

text \<open>\<open>http_client\<close> stands for the parsing of the address and the building of the HTTP client.\<close>

definition pulsar_client_new :: "(string \<Rightarrow> string + unit) \<Rightarrow> chain_config \<Rightarrow> pulsar_client res" where
  "pulsar_client_new http_client cfg =
     bind_res (map_err chain_error (http_client (comet_rpc_url cfg))) (\<lambda>_.
       Inr \<lparr>client_chain_id = chain_id cfg, client_rpc_url = comet_rpc_url cfg,
            client_timeout = request_timeout cfg\<rparr>)"

definition client_status :: "comet \<Rightarrow> pulsar_client \<Rightarrow> nat res" where
  "client_status C cl =
     bind_res (with_timeout ''status'' (comet_status C)) (\<lambda>st.
       if network st \<noteq> client_chain_id cl
       then Inl (ChainIdMismatch (client_chain_id cl) (network st))
       else if catching_up st
       then Inl (Chain ''CometBFT node is still catching up'')
       else Inr (latest_block_height st))"

definition broadcast_tx_sync :: "comet \<Rightarrow> bytes \<Rightarrow> broadcast_receipt res" where
  "broadcast_tx_sync C tx_raw =
     bind_res (with_timeout ''broadcast_tx_sync'' (comet_broadcast C tx_raw)) (\<lambda>r.
       if length (response_hash r) \<noteq> 32
       then Inl (Chain ''transaction hash must contain 32 bytes'')
       else Inr \<lparr>receipt_hash = response_hash r, receipt_code = response_code r,
                 receipt_codespace = bounded_text (response_codespace r) 64,
                 receipt_log = bounded_text (response_log r) 512\<rparr>)"

fun unique_keys :: "bytes list \<Rightarrow> bytes list \<Rightarrow> bytes set res" where
  "unique_keys unique [] = Inr (set unique)"
| "unique_keys unique (key # keys) =
     (if length key \<noteq> 32
      then Inl (Chain (''validator public key must be Ed25519 (32 bytes), got '' @
        show_nat (length key) @ '' bytes''))
      else if key \<in> set unique
      then Inl (Chain ''validator set contains a duplicate public key'')
      else unique_keys (key # unique) keys)"

text \<open>The keys are returned as a set: the source collects a \<open>HashSet\<close>, whose order is arbitrary.\<close>

definition validator_public_keys :: "comet \<Rightarrow> nat \<Rightarrow> bytes set res" where
  "validator_public_keys C h =
     bind_res (map_err (\<lambda>e. Chain (''invalid validator height: '' @ e)) (height_try_from C h)) (\<lambda>height.
     bind_res (with_timeout ''validators'' (comet_validators C height)) (\<lambda>r.
       if validators_height r \<noteq> height
       then Inl (Chain (''validator response height '' @ show_nat (validators_height r) @
         '' does not match requested height '' @ show_nat height))
       else if validators_total r < 0
       then Inl (Chain (''validator response has invalid total '' @ show_int (validators_total r)))
       else if nat (validators_total r) \<noteq> length (validators_keys r)
       then Inl (Chain (''validator response count '' @ show_nat (length (validators_keys r)) @
         '' does not match total '' @ show_int (validators_total r)))
       else unique_keys [] (validators_keys r)))"

definition client_validators_hash :: "comet \<Rightarrow> nat \<Rightarrow> bytes res" where
  "client_validators_hash C h =
     bind_res (map_err (\<lambda>e. Chain (''invalid block height: '' @ e)) (height_try_from C h)) (\<lambda>height.
     bind_res (with_timeout ''block'' (comet_block C height)) (\<lambda>b.
       if header_height b \<noteq> height
       then Inl (Chain (''block response height '' @ show_nat (header_height b) @
         '' does not match requested height '' @ show_nat height))
       else if length (header_validators_hash b) \<noteq> 32
       then Inl (Chain ''validators_hash must contain 32 bytes'')
       else Inr (header_validators_hash b)))"

section \<open>The paginated query\<close>

definition pin_query_height :: "nat option \<Rightarrow> nat \<Rightarrow> nat option res" where
  "pin_query_height pinned response =
     (case pinned of
        Some expected \<Rightarrow>
          if response \<noteq> expected
          then Inl (InvalidChainContract (''ProofsByHeight response height '' @ show_nat response @
            '' does not match pinned height '' @ show_nat expected))
          else Inr (Some expected)
      | None \<Rightarrow> Inr (Some response))"

text \<open>What the query has collected: the positions seen, the last index and the pending requests.\<close>

record query_progress =
  positions :: "(nat \<times> nat) list"
  last_index :: "nat option"
  found :: "chain_proof list"

fun page_records ::
  "'x externs_scheme \<Rightarrow> nat \<Rightarrow> query_proof_response list \<Rightarrow> query_progress \<Rightarrow> query_progress res" where
  "page_records X height [] q = Inr q"
| "page_records X height (p # ps) q =
     bind_res (ok_or (InvalidChainContract ''proof query response is missing proof_key'')
       (response_key p)) (\<lambda>key.
     if (submission_height key, index_in_block key) \<in> set (positions q)
     then Inl (InvalidChainContract (''duplicate proof index '' @ show_nat (index_in_block key) @
       '' at height '' @ show_nat (submission_height key)))
     else if (case last_index q of None \<Rightarrow> False | Some k \<Rightarrow> index_in_block key \<le> k)
     then Inl (InvalidChainContract ''ProofsByHeight records are not strictly ordered by proof key'')
     else bind_res (validate_query_proof X p height) (\<lambda>v.
       page_records X height ps
         \<lparr>positions = (submission_height key, index_in_block key) # positions q,
          last_index = Some (index_in_block key),
          found = found q @ (case v of None \<Rightarrow> [] | Some cp \<Rightarrow> [cp])\<rparr>))"

lemma page_records_positions:
  "page_records X h ps q = Inr q' \<Longrightarrow> length (positions q') = length (positions q) + length ps"
proof (induction ps arbitrary: q)
  case (Cons p ps)
  from Cons.prems show ?case
    unfolding page_records.simps bind_res_Inr_iff if_Inl_Inr_iff by (auto dest!: Cons.IH)
qed simp

definition query_page :: "comet \<Rightarrow> nat \<Rightarrow> bytes \<Rightarrow> nat option \<Rightarrow> (nat option \<times> proofs_page) res" where
  "query_page C height next_key query_height =
     bind_res (with_timeout ''ProofsByHeight''
       (abci_query C PROOFS_BY_HEIGHT_PATH
         (encode_page_request C \<lparr>page_height = height, page_key = next_key, page_offset = 0,
           page_limit = QUERY_PAGE_SIZE, page_count_total = False, page_reverse = False\<rparr>)
         query_height False)) (\<lambda>response.
     bind_res (pin_query_height query_height (abci_height response)) (\<lambda>query_height.
       if abci_code response \<noteq> 0
       then Inl (Chain (''ProofsByHeight ABCI query failed with code '' @
         show_nat (abci_code response) @ '': '' @ abci_log response))
       else bind_res (map_err (\<lambda>e. InvalidChainContract (''invalid ProofsByHeight response: '' @ e))
         (decode_proofs_page C (abci_value response))) (\<lambda>page.
       Inr (query_height, page))))"

function proofs_loop ::
  "'x externs_scheme \<Rightarrow> comet \<Rightarrow> nat \<Rightarrow> bytes \<Rightarrow> bytes list \<Rightarrow> nat option \<Rightarrow> query_progress \<Rightarrow> chain_proof list res" where
  "proofs_loop X C height next_key pagination_keys query_height q =
     (if next_key \<in> set pagination_keys
      then Inl (InvalidChainContract ''ProofsByHeight repeated a pagination key'')
      else bind_res (query_page C height next_key query_height) (\<lambda>(query_height', page).
        bind_res (page_records X height (page_proofs page) q) (\<lambda>q'.
          if length (positions q') > MAX_PROOFS_PER_BLOCK
          then Inl (InvalidChainContract (''ProofsByHeight returned more than '' @
            show_nat MAX_PROOFS_PER_BLOCK @ '' records''))
          else let next_key' = (case page_next_key page of None \<Rightarrow> [] | Some k \<Rightarrow> k) in
            if next_key' = [] then Inr (found q')
            else if page_proofs page = []
            then Inl (InvalidChainContract ''ProofsByHeight returned an empty page with a continuation key'')
            else proofs_loop X C height next_key' (next_key # pagination_keys) query_height' q')))"
  by pat_completeness auto

text \<open>Every page that is continued adds a position, and there are at most 256.\<close>

termination
  by (relation "measure (\<lambda>(X, C, height, next_key, keys, qh, q). 257 - length (positions q))")
     (auto simp: MAX_PROOFS_PER_BLOCK_def neq_Nil_conv dest!: page_records_positions)

declare proofs_loop.simps [simp del]

definition proofs_by_height :: "'x externs_scheme \<Rightarrow> comet \<Rightarrow> nat \<Rightarrow> chain_proof list res" where
  "proofs_by_height X C height =
     (if height = 0
      then Inl (Chain ''proof query height must be positive'')
      else proofs_loop X C height [] [] None \<lparr>positions = [], last_index = None, found = []\<rparr>)"

section \<open>Committed blocks\<close>

text \<open>
  An event of the subscription: its kind, the block and the results of its transactions. An
  attribute holds the outcomes of reading its key and its value as text.
\<close>

record event_attribute =
  attribute_key :: "string + string"
  attribute_value :: "string + string"

record abci_event =
  abci_event_kind :: string
  abci_event_attributes :: "event_attribute list"

record tx_result =
  tx_code :: nat
  tx_events :: "abci_event list"

datatype event_data =
    NewBlock "block_header option" "tx_result list option"
  | OtherEvent

definition read_attribute :: "event_attribute \<Rightarrow> (string \<times> string) res" where
  "read_attribute a =
     bind_res (map_err (\<lambda>e. InvalidChainContract (''event attribute key is not UTF-8: '' @ e))
       (attribute_key a)) (\<lambda>k.
     bind_res (map_err (\<lambda>e. InvalidChainContract (''event attribute value is not UTF-8: '' @ e))
       (attribute_value a)) (\<lambda>v.
     Inr (k, v)))"

definition read_event :: "abci_event \<Rightarrow> committed_event res" where
  "read_event e =
     bind_res (collect_res read_attribute (abci_event_attributes e)) (\<lambda>attributes.
       Inr \<lparr>event_kind = abci_event_kind e, event_attributes = attributes\<rparr>)"

fun read_tx_results :: "tx_result list \<Rightarrow> committed_event list res" where
  "read_tx_results [] = Inr []"
| "read_tx_results (tx # txs) =
     (if tx_code tx \<noteq> 0 then read_tx_results txs
      else bind_res (collect_res read_event (tx_events tx)) (\<lambda>events.
           bind_res (read_tx_results txs) (\<lambda>rest. Inr (events @ rest))))"

definition committed_block_of :: "event_data \<Rightarrow> committed_block res" where
  "committed_block_of e =
     (case e of
        OtherEvent \<Rightarrow> Inl (InvalidChainContract ''NewBlock subscription returned a different event type'')
      | NewBlock block finalize \<Rightarrow>
          bind_res (ok_or (InvalidChainContract ''NewBlock event is missing block data'') block) (\<lambda>block.
          bind_res (ok_or (InvalidChainContract ''NewBlock event is missing FinalizeBlock data'') finalize)
            (\<lambda>txs.
          if length (header_validators_hash block) \<noteq> 32
          then Inl (InvalidChainContract ''block validators_hash must contain 32 bytes'')
          else bind_res (read_tx_results txs) (\<lambda>events.
            Inr \<lparr>block_height = header_height block, block_validators_hash = header_validators_hash block,
                 block_events = events\<rparr>))))"

text \<open>
  The subscription. \<open>next\<close> maps what the stream yields; \<open>close\<close> joins the transport task within
  the timeout of the client. \<open>subscribe_new_blocks\<close> takes the outcomes of its steps: the address
  check, the connection and the subscription.
\<close>

definition subscription_next :: "(string + event_data) option \<Rightarrow> committed_block option res" where
  "subscription_next item =
     (case item of
        None \<Rightarrow> Inr None
      | Some r \<Rightarrow> bind_res (map_err chain_error r) (\<lambda>e.
          bind_res (committed_block_of e) (\<lambda>b. Inr (Some b))))"

datatype driver_end = DriverEnded "string + unit" | DriverJoin join_error | DriverRunning

definition subscription_close :: "(string + unit) option \<Rightarrow> driver_end option \<Rightarrow> unit res" where
  "subscription_close client driver =
     bind_res (case client of None \<Rightarrow> Inr () | Some r \<Rightarrow> map_err chain_error r) (\<lambda>_.
       case driver of
         None \<Rightarrow> Inr ()
       | Some (DriverEnded r) \<Rightarrow> map_err chain_error r
       | Some (DriverJoin e) \<Rightarrow> Inl (Task e)
       | Some DriverRunning \<Rightarrow> Inl (Chain ''WebSocket driver did not stop before timeout''))"

definition subscribe_new_blocks ::
  "pulsar_client \<Rightarrow> (string \<Rightarrow> string + unit) \<Rightarrow> unit rpc_outcome \<Rightarrow> unit rpc_outcome \<Rightarrow> unit res" where
  "subscribe_new_blocks cl parse_url connect subscribe =
     bind_res (websocket_url (client_rpc_url cl)) (\<lambda>url.
     bind_res (map_err chain_error (parse_url url)) (\<lambda>_.
     bind_res (with_timeout ''WebSocket connect'' connect) (\<lambda>_.
       with_timeout ''NewBlock subscribe'' subscribe)))"

section \<open>What the query returns\<close>

abbreviation record_index :: "query_proof_response \<Rightarrow> nat" where
  "record_index r \<equiv> index_in_block (the (response_key r))"

abbreviation record_position :: "query_proof_response \<Rightarrow> nat \<times> nat" where
  "record_position r \<equiv> (submission_height (the (response_key r)), record_index r)"

text \<open>Records that are valid for the height and strictly ordered by their index.\<close>

definition records_ok :: "'x externs_scheme \<Rightarrow> nat \<Rightarrow> query_proof_response list \<Rightarrow> bool" where
  "records_ok X h rs \<longleftrightarrow> list_all (response_ok X h) rs \<and> sorted_wrt (<) (map record_index rs)"

text \<open>
  The node serves the records \<open>rs\<close> under the continuation keys \<open>keys\<close>: every page but the last has
  records and names the key of the next one, and all pages are read at the height of the first.
\<close>

inductive pages_from :: "comet \<Rightarrow> nat \<Rightarrow> bytes \<Rightarrow> nat option \<Rightarrow> bytes list \<Rightarrow> query_proof_response list \<Rightarrow> bool"
  for C :: comet and h :: nat where
  last_page: "\<lbrakk>query_page C h key qh = Inr (qh', page); page_next_key page \<in> {None, Some []}\<rbrakk>
     \<Longrightarrow> pages_from C h key qh [key] (page_proofs page)"
| next_page: "\<lbrakk>query_page C h key qh = Inr (qh', page); page_next_key page = Some k; k \<noteq> [];
      page_proofs page \<noteq> []; pages_from C h k qh' keys rs\<rbrakk>
     \<Longrightarrow> pages_from C h key qh (key # keys) (page_proofs page @ rs)"

inductive_simps pages_from_simps: "pages_from C h key qh keys rs"

definition progress :: "query_proof_response list \<Rightarrow> query_progress" where
  "progress rs =
     \<lparr>positions = rev (map record_position rs),
      last_index = (if rs = [] then None else Some (record_index (last rs))),
      found = List.map_filter response_proof rs\<rparr>"

lemma response_ok_key:
  "response_ok X h r \<Longrightarrow> \<exists>key. response_key r = Some key \<and> submission_height key = h \<and> index_in_block key < 256"
  by (auto simp: response_ok_def split: option.splits)

lemma records_ok_append: "records_ok X h (rs @ ps) \<Longrightarrow> records_ok X h rs"
  by (auto simp: records_ok_def sorted_wrt_append)

lemma records_ok_last:
  assumes "records_ok X h rs" "rs \<noteq> []"
  shows "(\<forall>r \<in> set rs. record_index r < k) \<longleftrightarrow> record_index (last rs) < k"
proof -
  have "record_index r \<le> record_index (last rs)" if "r \<in> set rs" for r
    using assms that
    by (induction rs rule: rev_induct) (auto simp: records_ok_def sorted_wrt_append less_imp_le)
  with assms(2) show ?thesis by (auto intro: order.strict_trans1)
qed

lemma records_ok_snoc:
  assumes "records_ok X h rs"
  shows "records_ok X h (rs @ [p]) \<longleftrightarrow>
     response_ok X h p \<and> (\<forall>r \<in> set rs. record_index r < record_index p)"
  using assms by (auto simp: records_ok_def sorted_wrt_append)

lemma records_ok_length: "records_ok X h rs \<Longrightarrow> length rs \<le> 256"
proof -
  assume ok: "records_ok X h rs"
  have "distinct (map record_index rs)" using ok strict_sorted_iff by (auto simp: records_ok_def)
  moreover have "set (map record_index rs) \<subseteq> {..<256}"
    using ok by (force simp: records_ok_def list_all_iff dest: response_ok_key)
  ultimately have "length (map record_index rs) \<le> card {..<256 :: nat}"
    by (metis card_mono distinct_card finite_lessThan)
  then show ?thesis by simp
qed

lemma page_records_step:
  assumes "records_ok X h done"
  shows "page_records X h (p # ps) (progress done) = Inr q \<longleftrightarrow>
     records_ok X h (done @ [p]) \<and> page_records X h ps (progress (done @ [p])) = Inr q"
proof (cases "response_ok X h p")
  case True
  then obtain key where key: "response_key p = Some key" "submission_height key = h"
    using response_ok_key by blast
  have v: "validate_query_proof X p h = Inr (response_proof p)"
    using True by (simp add: validate_query_proof_Inr)
  have pr: "progress (done @ [p]) = \<lparr>positions = (submission_height key, index_in_block key) # positions (progress done),
      last_index = Some (index_in_block key),
      found = found (progress done) @ (case response_proof p of None \<Rightarrow> [] | Some cp \<Rightarrow> [cp])\<rparr>"
    by (simp add: progress_def key map_filter_def split: option.split)
  have "(h, index_in_block key) \<in> set (positions (progress done)) \<longrightarrow> \<not> records_ok X h (done @ [p])"
    using assms key by (auto simp: progress_def records_ok_snoc)
  moreover have "(case last_index (progress done) of None \<Rightarrow> False | Some k \<Rightarrow> index_in_block key \<le> k)
      \<longleftrightarrow> \<not> records_ok X h (done @ [p])"
    using assms key True records_ok_last [OF assms, of "index_in_block key"]
    by (auto simp: progress_def records_ok_snoc)
  ultimately show ?thesis
    using True by (auto simp: key v pr simp del: validate_position_Inr)
next
  case False
  then have "validate_query_proof X p h \<noteq> Inr v" for v by (simp add: validate_query_proof_Inr)
  with False assms show ?thesis
    by (auto simp: bind_res_Inr_iff records_ok_snoc split: if_splits)
qed

lemma page_records_Inr:
  assumes "records_ok X h done"
  shows "page_records X h ps (progress done) = Inr q \<longleftrightarrow>
     records_ok X h (done @ ps) \<and> q = progress (done @ ps)"
  using assms
proof (induction ps arbitrary: "done")
  case (Cons p ps)
  show ?case
  proof (cases "records_ok X h (done @ [p])")
    case True
    with Cons.prems show ?thesis by (simp add: page_records_step Cons.IH del: page_records.simps)
  next
    case False
    then have "\<not> records_ok X h (done @ p # ps)"
      using records_ok_append [of X h "done @ [p]" ps] by auto
    with False Cons.prems show ?thesis by (simp add: page_records_step del: page_records.simps)
  qed
qed auto

lemma proofs_loop_Inr:
  assumes "records_ok X h done"
  shows "proofs_loop X C h key pk qh (progress done) = Inr out \<longleftrightarrow>
     (\<exists>keys rs. pages_from C h key qh keys rs \<and> distinct keys \<and> set keys \<inter> set pk = {} \<and>
        records_ok X h (done @ rs) \<and> out = List.map_filter response_proof (done @ rs))"
  (is "?loop key pk qh done \<longleftrightarrow> (\<exists>keys rs. ?spec key pk qh done keys rs)")
  using assms
proof (induction "256 - length done" arbitrary: key pk qh "done" rule: less_induct)
  case less
  show ?case
  proof (cases "query_page C h key qh")
    case (Inl e)
    then show ?thesis by (auto simp: proofs_loop.simps [of X C h key] elim: pages_from.cases)
  next
    case (Inr a)
    obtain qh' page where page: "query_page C h key qh = Inr (qh', page)" using Inr by (cases a) auto
    let ?done = "done @ page_proofs page"
    define k where "k = (case page_next_key page of None \<Rightarrow> [] | Some k \<Rightarrow> k)"
    have first: "pages_from C h key qh keys rs \<longleftrightarrow>
        (if k = [] then keys = [key] \<and> rs = page_proofs page
         else page_proofs page \<noteq> [] \<and> (\<exists>keys' rs'. pages_from C h k qh' keys' rs' \<and>
           keys = key # keys' \<and> rs = page_proofs page @ rs'))" for keys rs
      by (subst pages_from_simps) (auto simp: page k_def split: option.splits)
    show ?thesis
    proof (cases "key \<in> set pk \<or> \<not> records_ok X h ?done")
      case True
      have start: "\<exists>keys' rs'. keys = key # keys' \<and> rs = page_proofs page @ rs'"
        if "pages_from C h key qh keys rs" for keys rs
        using that unfolding first by (auto split: if_splits)
      have "\<not> ?spec key pk qh done keys rs" for keys rs
        using start [of keys rs] True records_ok_append [of X h ?done] by auto
      moreover have "\<not> ?loop key pk qh done"
        unfolding proofs_loop.simps [of X C h key pk qh "progress done"]
        using True less.prems by (auto simp: page page_records_Inr bind_res_Inr_iff)
      ultimately show ?thesis by blast
    next
      case False
      then have pr: "page_records X h (page_proofs page) (progress done) = Inr (progress ?done)"
        using page_records_Inr less.prems by blast
      have found: "found (progress rs) = List.map_filter response_proof rs" for rs
        by (simp add: progress_def)
      have "length (positions (progress ?done)) \<le> MAX_PROOFS_PER_BLOCK"
        using records_ok_length [of X h ?done] False by (simp add: progress_def MAX_PROOFS_PER_BLOCK_def)
      then have step: "?loop key pk qh done \<longleftrightarrow>
          (if k = [] then out = List.map_filter response_proof ?done
           else page_proofs page \<noteq> [] \<and> proofs_loop X C h k (key # pk) qh' (progress ?done) = Inr out)"
        unfolding proofs_loop.simps [of X C h key pk qh "progress done"]
        using False by (auto simp: page pr Let_def k_def [symmetric] found)
      have IH: "proofs_loop X C h k (key # pk) qh' (progress ?done) = Inr out \<longleftrightarrow>
          (\<exists>keys rs. ?spec k (key # pk) qh' ?done keys rs)" if "page_proofs page \<noteq> []"
      proof (rule less.hyps)
        show "256 - length ?done < 256 - length done"
          using records_ok_length [of X h ?done] False that by (cases "page_proofs page") auto
      qed (use False in simp)
      show ?thesis
      proof (cases "k = []")
        case True
        then show ?thesis unfolding step first using False by auto
      next
        case k: False
        show ?thesis
        proof (cases "page_proofs page = []")
          case True
          with k show ?thesis unfolding step first by simp
        next
          case ne: False
          have one: "?spec key pk qh done keys rs \<longleftrightarrow>
              (\<exists>keys' rs'. ?spec k (key # pk) qh' ?done keys' rs' \<and>
                 keys = key # keys' \<and> rs = page_proofs page @ rs')" for keys rs
            unfolding first using k ne False by auto
          have "(\<exists>keys rs. ?spec key pk qh done keys rs) \<longleftrightarrow>
              (\<exists>keys rs. ?spec k (key # pk) qh' ?done keys rs)"
            unfolding one by blast
          then show ?thesis unfolding step IH [OF ne] using k ne by argo
        qed
      qed
    qed
  qed
qed

lemma proofs_by_height_iff:
  "proofs_by_height X C h = Inr out \<longleftrightarrow>
     0 < h \<and> (\<exists>keys rs. pages_from C h [] None keys rs \<and> distinct keys \<and> records_ok X h rs \<and>
       length rs \<le> 256 \<and> out = List.map_filter response_proof rs)"
proof -
  have q0: "progress [] = \<lparr>positions = [], last_index = None, found = []\<rparr>"
    by (simp add: progress_def map_filter_simps)
  have "records_ok X h []" by (simp add: records_ok_def)
  note loop = proofs_loop_Inr [OF this, of C "[]" "[]" None out, unfolded q0]
  show ?thesis
    unfolding proofs_by_height_def if_Inl_Inr_iff loop using records_ok_length [of X h]
    by (simp; blast)
qed

text \<open>
  C27. The recovery query always ends, and it succeeds exactly when the node serves, under
  continuation keys that never repeat, valid records of the requested height in strictly
  increasing index order; it then returns exactly the pending ones among them, of which there are
  at most 256, in that order.
\<close>

theorem proofs_by_height_exact:
  "proofs_by_height X C h = Inr out \<longleftrightarrow>
     0 < h \<and> (\<exists>keys rs. pages_from C h [] None keys rs \<and> distinct keys \<and> records_ok X h rs \<and>
       length rs \<le> 256 \<and> out = List.map_filter response_proof rs)"
  by (rule proofs_by_height_iff)

text \<open>The addresses that the configuration accepts are the ones the subscription can use.\<close>

lemma validated_websocket_url:
  assumes "validate_chain E f required = Inr cfg"
  shows "\<exists>url. websocket_url (comet_rpc_url cfg) = Inr url"
proof -
  have "starts_with (comet_rpc_url cfg) ''http://'' \<or> starts_with (comet_rpc_url cfg) ''https://''"
    using assms unfolding validate_chain_def Let_def if_Inl_Inr_iff bind_res_Inr_iff by auto
  then obtain r where "comet_rpc_url cfg = ''http://'' @ r \<or> comet_rpc_url cfg = ''https://'' @ r"
    unfolding starts_with_def by (metis append_take_drop_id)
  then show ?thesis
    by (auto simp: websocket_url_def starts_with_def)
qed

lemma bounded_text_le: "length (bounded_text s n) \<le> n"
  using boundary_down_le [of s n] by (simp add: bounded_text_def)

lemma unique_keys_Inr:
  "unique_keys unique keys = Inr S \<longleftrightarrow>
     distinct keys \<and> set keys \<inter> set unique = {} \<and> (\<forall>k \<in> set keys. length k = 32) \<and>
     S = set unique \<union> set keys"
  by (induction unique keys rule: unique_keys.induct) auto

end
