(* ===== verification/Submission.thy ===== *)
theory Submission
  imports Contract Chain_Client
begin

text \<open>
  \<open>src/submission.rs\<close> and the request handling of \<open>src/rpc/submission.rs\<close>: the consumer ingress.
  A submission pairs a proof with a signed transaction. The lemmas show that an accepted submission
  binds the two, that the content is stored before the transaction is relayed, that a repeated
  submission is answered from its receipt, and that the limits of the server fit what it accepts.
\<close>

section \<open>Transactions\<close>

text \<open>The fields read of the Cosmos messages, and their decoders (\<open>prost\<close>) as parameters.\<close>

record tx_raw =
  body_bytes :: bytes
  auth_info_bytes :: bytes
  signatures :: "bytes list"

record any_message =
  type_url :: string
  any_value :: bytes

record msg_submit_proof =
  msg_signer :: string
  msg_proof_type :: int
  msg_proof_hash :: bytes
  msg_public_inputs_hash :: bytes
  msg_verification_key_hash :: bytes

record tx_codec =
  decode_tx_raw :: "bytes \<Rightarrow> string + tx_raw"
  decode_tx_body :: "bytes \<Rightarrow> string + any_message list"
  decode_auth_info :: "bytes \<Rightarrow> string + nat"
  decode_msg_submit_proof :: "bytes \<Rightarrow> string + msg_submit_proof"

definition MSG_SUBMIT_PROOF_TYPE_URL :: string where
  "MSG_SUBMIT_PROOF_TYPE_URL = ''/pulsarchain.verification.v1.MsgSubmitProof''"

record proof_submission =
  sub_proof :: zk_proof
  sub_tx_raw :: bytes

record submission_receipt =
  receipt_verification_id :: verification_id
  receipt_transaction_hash :: bytes

record validated_submission =
  valid_id :: verification_id
  valid_transaction_hash :: bytes
  valid_proof :: zk_proof
  valid_tx_raw :: bytes

definition invalid :: "string \<Rightarrow> error" where "invalid m = InvalidSubmission m"

definition submission_component_hash :: "string \<Rightarrow> bytes \<Rightarrow> bytes res" where
  "submission_component_hash name b =
     (if length b = 32 then Inr b
      else Inl (invalid (name @ '' must be '' @ show_nat 32 @ '' bytes, got '' @ show_nat (length b))))"

text \<open>The message of a transaction that passes the structural checks.\<close>

definition submit_message :: "tx_codec \<Rightarrow> bytes \<Rightarrow> msg_submit_proof res" where
  "submit_message K raw =
     bind_res (map_err (\<lambda>e. invalid (''invalid TxRaw: '' @ e)) (decode_tx_raw K raw)) (\<lambda>tx.
     if body_bytes tx = [] then Inl (invalid ''TxRaw body_bytes must not be empty'')
     else if auth_info_bytes tx = [] then Inl (invalid ''TxRaw auth_info_bytes must not be empty'')
     else
     bind_res (map_err (\<lambda>e. invalid (''invalid TxBody: '' @ e)) (decode_tx_body K (body_bytes tx))) (\<lambda>messages.
     bind_res (map_err (\<lambda>e. invalid (''invalid AuthInfo: '' @ e)) (decode_auth_info K (auth_info_bytes tx))) (\<lambda>signers.
     if signers = 0 then Inl (invalid ''AuthInfo must contain at least one signer_info'')
     else if length (signatures tx) \<noteq> signers
     then Inl (invalid (''signature count '' @ show_nat (length (signatures tx)) @
       '' does not match signer_info count '' @ show_nat signers))
     else if list_ex (\<lambda>s. s = []) (signatures tx)
     then Inl (invalid ''transaction signatures must not be empty'')
     else (case messages of
         [m] \<Rightarrow>
           if type_url m \<noteq> MSG_SUBMIT_PROOF_TYPE_URL
           then Inl (invalid (''unexpected transaction message type '' @ type_url m))
           else bind_res (map_err (\<lambda>e. invalid (''invalid MsgSubmitProof: '' @ e))
             (decode_msg_submit_proof K (any_value m))) (\<lambda>msg.
           if trim (msg_signer msg) = [] then Inl (invalid ''MsgSubmitProof signer must not be empty'')
           else Inr msg)
       | _ \<Rightarrow> Inl (invalid (''TxBody must contain exactly one MsgSubmitProof, got '' @
           show_nat (length messages) @ '' messages''))))))"

definition validate_submission ::
  "'x externs_scheme \<Rightarrow> tx_codec \<Rightarrow> proof_submission \<Rightarrow> nat \<Rightarrow> nat \<Rightarrow> validated_submission res" where
  "validate_submission X K sub max_proof max_transaction =
     (let p = sub_proof sub; i = verification_id X p; len = encoded_len X p in
      if len > max_proof then Inl (ProofTooLarge i len max_proof)
      else if length (sub_tx_raw sub) > max_transaction
      then Inl (TransactionTooLarge (length (sub_tx_raw sub)) max_transaction)
      else
      bind_res (submit_message K (sub_tx_raw sub)) (\<lambda>msg.
      bind_res (proof_type_try_from (msg_proof_type msg)) (\<lambda>message_type.
      if message_type \<noteq> proof_type p then Inl (invalid ''proof type does not match MsgSubmitProof'')
      else
      bind_res (submission_component_hash ''proof_hash'' (msg_proof_hash msg)) (\<lambda>ph.
      bind_res (submission_component_hash ''public_inputs_hash'' (msg_public_inputs_hash msg)) (\<lambda>pih.
      bind_res (submission_component_hash ''verification_key_hash'' (msg_verification_key_hash msg)) (\<lambda>vkh.
      if ph \<noteq> sha256 X (proof_bytes p) then Inl (invalid ''proof bytes do not match proof_hash'')
      else if pih \<noteq> sha256 X (public_inputs p)
      then Inl (invalid ''public input bytes do not match public_inputs_hash'')
      else if vkh \<noteq> sha256 X (verification_key p)
      then Inl (invalid ''verification key bytes do not match verification_key_hash'')
      else let descriptor_id = from_component_hashes X message_type ph pih vkh in
        if descriptor_id \<noteq> i then Inl (VerificationIdMismatch descriptor_id)
        else Inr \<lparr>valid_id = i, valid_transaction_hash = sha256 X (sub_tx_raw sub),
                  valid_proof = p, valid_tx_raw = sub_tx_raw sub\<rparr>))))))"

section \<open>The service\<close>

text \<open>
  The state of the service is the store and the cache of receipts; \<open>published\<close> and \<open>relayed\<close> record
  the events of the store and the transactions handed to the node. The cache drops entries on its
  own after a while (time to live, capacity), a step of the environment.
\<close>

record ingress =
  i_store :: store
  receipts :: "bytes \<rightharpoonup> submission_receipt"
  published :: "proof_store_event list"
  relayed :: "bytes list"

text \<open>
  \<open>moka::future::Cache::try_get_with\<close>: a cached value is returned without running the closure; a
  closure that succeeds fills the cache, an error is returned and not cached.
\<close>

definition try_get_with ::
  "ingress \<Rightarrow> bytes \<Rightarrow> (ingress \<Rightarrow> ingress \<times> submission_receipt res) \<Rightarrow> ingress \<times> submission_receipt res" where
  "try_get_with g key init =
     (case receipts g key of
        Some r \<Rightarrow> (g, Inr r)
      | None \<Rightarrow>
          (case init g of
             (g', Inl e) \<Rightarrow> (g', Inl e)
           | (g', Inr r) \<Rightarrow> (g'\<lparr>receipts := (receipts g')(key \<mapsto> r)\<rparr>, Inr r)))"

definition relay ::
  "'x store_externs_scheme \<Rightarrow> comet \<Rightarrow> instant \<Rightarrow> validated_submission \<Rightarrow> ingress \<Rightarrow> ingress \<times> submission_receipt res" where
  "relay X C now v g =
     (case insert_local_proof X now (i_store g) (valid_proof v) Rpc of
        (s, evs, Inl e) \<Rightarrow> (g\<lparr>i_store := s, published := published g @ evs\<rparr>, Inl e)
      | (s, evs, Inr _) \<Rightarrow>
          (g\<lparr>i_store := s, published := published g @ evs, relayed := relayed g @ [valid_tx_raw v]\<rparr>,
           bind_res (broadcast_tx_sync C (valid_tx_raw v)) (\<lambda>r.
             if receipt_hash r \<noteq> valid_transaction_hash v then Inl TransactionHashMismatch
             else if receipt_code r \<noteq> 0
             then Inl (CheckTxRejected (hex_encode X (valid_transaction_hash v)) (receipt_codespace r)
               (receipt_code r) (receipt_log r))
             else Inr \<lparr>receipt_verification_id = valid_id v,
                       receipt_transaction_hash = valid_transaction_hash v\<rparr>)))"

record submission_limits =
  limit_proof_bytes :: nat
  limit_transaction_bytes :: nat

definition submit ::
  "'x store_externs_scheme \<Rightarrow> tx_codec \<Rightarrow> submission_limits \<Rightarrow> comet \<Rightarrow> instant \<Rightarrow> proof_submission \<Rightarrow> ingress
    \<Rightarrow> ingress \<times> submission_receipt res" where
  "submit X K lim C now sub g =
     (case validate_submission X K sub (limit_proof_bytes lim) (limit_transaction_bytes lim) of
        Inl e \<Rightarrow> (g, Inl e)
      | Inr v \<Rightarrow> try_get_with g (valid_transaction_hash v) (relay X C now v))"

section \<open>The request handler (\<open>rpc/submission.rs\<close>)\<close>

definition PROTOBUF_ENVELOPE_OVERHEAD :: nat where "PROTOBUF_ENVELOPE_OVERHEAD = 16"

definition RESPONSE_MESSAGE_LIMIT :: nat where "RESPONSE_MESSAGE_LIMIT = 1024"

definition request_limit :: "nat \<Rightarrow> nat \<Rightarrow> nat res" where
  "request_limit max_proof max_transaction =
     ok_or (InvalidConfig ''submission request limit overflows usize'')
       (Option.bind (checked_add_usize max_proof max_transaction) (\<lambda>limit.
          checked_add_usize limit PROTOBUF_ENVELOPE_OVERHEAD))"

text \<open>The interceptor takes one of the permits of a semaphore; the handler gives it back.\<close>

record admission =
  permits :: nat
  admitted :: nat

definition admission_new :: "nat \<Rightarrow> admission" where
  "admission_new n = \<lparr>permits = n, admitted = 0\<rparr>"

definition admission_call :: "admission \<Rightarrow> admission \<times> (grpc_status + unit)" where
  "admission_call a =
     (if permits a = 0
      then (a, Inl (Status ResourceExhausted (FixedText ''submission concurrency limit reached'')))
      else (a\<lparr>permits := permits a - 1, admitted := Suc (admitted a)\<rparr>, Inr ()))"

definition admission_release :: "admission \<Rightarrow> admission" where
  "admission_release a = a\<lparr>permits := Suc (permits a), admitted := admitted a - 1\<rparr>"

definition submission_status :: "error \<Rightarrow> grpc_status" where
  "submission_status e =
     (case e of
        InvalidSubmission _ \<Rightarrow> Status InvalidArgument (Rendered e)
      | UnsupportedProofType _ \<Rightarrow> Status InvalidArgument (Rendered e)
      | VerificationIdMismatch _ \<Rightarrow> Status InvalidArgument (Rendered e)
      | ProofTooLarge _ _ _ \<Rightarrow> Status ResourceExhausted (Rendered e)
      | TransactionTooLarge _ _ \<Rightarrow> Status ResourceExhausted (Rendered e)
      | CheckTxRejected _ _ _ _ \<Rightarrow> Status FailedPrecondition (Rendered e)
      | Chain _ \<Rightarrow> Status Unavailable (FixedText ''local CometBFT RPC is unavailable'')
      | _ \<Rightarrow> Status Internal (FixedText ''submission service request failed''))"

record submit_request =
  request_proof :: "wire_proof option"
  request_tx_raw :: bytes

record submit_response =
  response_verification_id :: bytes
  response_transaction_hash :: bytes

definition submit_proof ::
  "'x store_externs_scheme \<Rightarrow> tx_codec \<Rightarrow> submission_limits \<Rightarrow> comet \<Rightarrow> instant \<Rightarrow> bool \<Rightarrow> submit_request \<Rightarrow> ingress
    \<Rightarrow> ingress \<times> (grpc_status + submit_response)" where
  "submit_proof X K lim C now has_permit req g =
     (if \<not> has_permit then (g, Inl (Status Internal (FixedText ''submission admission permit is missing'')))
      else case request_proof req of
        None \<Rightarrow> (g, Inl (Status InvalidArgument (FixedText ''proof is required'')))
      | Some w \<Rightarrow>
          (case proof_from_wire w of
             Inl e \<Rightarrow> (g, Inl (submission_status e))
           | Inr p \<Rightarrow>
               (case submit X K lim C now \<lparr>sub_proof = p, sub_tx_raw = request_tx_raw req\<rparr> g of
                  (g', Inl e) \<Rightarrow> (g', Inl (submission_status e))
                | (g', Inr r) \<Rightarrow>
                    (g', Inr \<lparr>response_verification_id = as_bytes (receipt_verification_id r),
                              response_transaction_hash = receipt_transaction_hash r\<rparr>))))"

section \<open>Binding of proof and transaction\<close>

definition tx_commits :: "'x externs_scheme \<Rightarrow> tx_codec \<Rightarrow> bytes \<Rightarrow> zk_proof \<Rightarrow> bool" where
  "tx_commits X K raw p \<longleftrightarrow>
     (\<exists>msg. submit_message K raw = Inr msg \<and> msg_proof_type msg = proof_type_to_i32 (proof_type p) \<and>
        msg_proof_hash msg = sha256 X (proof_bytes p) \<and>
        msg_public_inputs_hash msg = sha256 X (public_inputs p) \<and>
        msg_verification_key_hash msg = sha256 X (verification_key p))"

lemma submission_component_hash_Inr [simp]:
  "submission_component_hash name b = Inr c \<longleftrightarrow> c = b \<and> length b = 32"
  by (auto simp: submission_component_hash_def)

lemma validate_submission_Inr:
  assumes "sha256_len X"
  shows "validate_submission X K sub mp mt = Inr v \<longleftrightarrow>
     encoded_len X (sub_proof sub) \<le> mp \<and> length (sub_tx_raw sub) \<le> mt \<and>
     tx_commits X K (sub_tx_raw sub) (sub_proof sub) \<and>
     v = \<lparr>valid_id = verification_id X (sub_proof sub),
          valid_transaction_hash = sha256 X (sub_tx_raw sub),
          valid_proof = sub_proof sub, valid_tx_raw = sub_tx_raw sub\<rparr>"
  unfolding validate_submission_def Let_def if_Inl_Inr_iff bind_res_Inr_iff tx_commits_def
  using assms by (auto simp: verification_id_def)

text \<open>A transaction determines the identifier of the proofs it commits to.\<close>

lemma tx_commits_id:
  assumes "tx_commits X K raw p" "tx_commits X K raw q"
  shows "verification_id X p = verification_id X q"
proof -
  have "proof_type_to_i32 (proof_type p) = proof_type_to_i32 (proof_type q)"
    using assms by (auto simp: tx_commits_def)
  then have "proof_type p = proof_type q"
    using proof_type_try_from_Inr by (metis sum.inject(2))
  with assms show ?thesis by (auto simp: tx_commits_def verification_id_def)
qed

section \<open>Runs of the ingress\<close>

inductive ingress_step :: "'x store_externs_scheme \<Rightarrow> tx_codec \<Rightarrow> submission_limits \<Rightarrow> ingress \<Rightarrow> ingress \<Rightarrow> bool"
  for X :: "'x store_externs_scheme" and K :: tx_codec and lim :: submission_limits where
  step_submit: "submit X K lim C now sub g = (g', r) \<Longrightarrow> ingress_step X K lim g g'"
| step_forget: "ingress_step X K lim g (g\<lparr>receipts := (receipts g)(h := None)\<rparr>)"
| step_store: "store_step X now (i_store g) evs s \<Longrightarrow>
     ingress_step X K lim g (g\<lparr>i_store := s, published := published g @ evs\<rparr>)"

definition ingress_new :: "store \<Rightarrow> ingress" where
  "ingress_new s = \<lparr>i_store = s, receipts = Map.empty, published = [], relayed = []\<rparr>"

definition ingress_init :: "ingress \<Rightarrow> bool" where
  "ingress_init g \<longleftrightarrow> (\<exists>s. g = ingress_new s)"

text \<open>Every receipt in the cache was issued for a relayed transaction that commits to its proof.\<close>

definition receipts_ok :: "'x externs_scheme \<Rightarrow> tx_codec \<Rightarrow> ingress \<Rightarrow> bool" where
  "receipts_ok X K g \<longleftrightarrow>
     (\<forall>h r. receipts g h = Some r \<longrightarrow>
        (\<exists>tx \<in> set (relayed g). \<exists>p. h = sha256 X tx \<and> tx_commits X K tx p \<and>
           r = \<lparr>receipt_verification_id = verification_id X p, receipt_transaction_hash = h\<rparr>))"

lemma relay_result:
  assumes "relay X C now v g = (g', r)"
  shows "receipts g' = receipts g"
    and "relayed g' = relayed g \<or> relayed g' = relayed g @ [valid_tx_raw v]"
    and "r = Inr rec \<Longrightarrow> relayed g' = relayed g @ [valid_tx_raw v] \<and>
       rec = \<lparr>receipt_verification_id = valid_id v, receipt_transaction_hash = valid_transaction_hash v\<rparr>"
  using assms by (auto simp: relay_def bind_res_Inr_iff split: prod.splits sum.splits if_splits)

lemma submit_cases:
  assumes "submit X K lim C now sub g = (g', r)"
  obtains (refused) e where "g' = g" "r = Inl e"
  | (cached) v rec where "validate_submission X K sub (limit_proof_bytes lim) (limit_transaction_bytes lim) = Inr v"
      "receipts g (valid_transaction_hash v) = Some rec" "g' = g" "r = Inr rec"
  | (failed) v e where "validate_submission X K sub (limit_proof_bytes lim) (limit_transaction_bytes lim) = Inr v"
      "receipts g (valid_transaction_hash v) = None" "relay X C now v g = (g', Inl e)" "r = Inl e"
  | (relayed) v rec g1 where "validate_submission X K sub (limit_proof_bytes lim) (limit_transaction_bytes lim) = Inr v"
      "receipts g (valid_transaction_hash v) = None" "relay X C now v g = (g1, Inr rec)"
      "g' = g1\<lparr>receipts := (receipts g1)(valid_transaction_hash v \<mapsto> rec)\<rparr>" "r = Inr rec"
proof (cases "validate_submission X K sub (limit_proof_bytes lim) (limit_transaction_bytes lim)")
  case (Inl e)
  with assms have "g' = g" "r = Inl e" by (simp_all add: submit_def)
  then show ?thesis by (rule refused)
next
  case v: (Inr v)
  show ?thesis
  proof (cases "receipts g (valid_transaction_hash v)")
    case None
    obtain g1 r1 where g1: "relay X C now v g = (g1, r1)" by force
    show ?thesis
    proof (cases r1)
      case (Inl e)
      with assms v None g1 have "g' = g1" "r = Inl e" by (simp_all add: submit_def try_get_with_def)
      with failed [OF v None] g1 Inl show ?thesis by simp
    next
      case (Inr rec)
      with assms v None g1 have "g' = g1\<lparr>receipts := (receipts g1)(valid_transaction_hash v \<mapsto> rec)\<rparr>"
        "r = Inr rec"
        by (simp_all add: submit_def try_get_with_def)
      with relayed [OF v None] g1 Inr show ?thesis by simp
    qed
  next
    case (Some rec)
    with assms v have "g' = g" "r = Inr rec" by (simp_all add: submit_def try_get_with_def)
    with cached [OF v Some] show ?thesis by simp
  qed
qed

lemma receipts_ok_step:
  assumes X: "sha256_len X" and ok: "receipts_ok X K g" and step: "ingress_step X K lim g g'"
  shows "receipts_ok X K g'"
  using step
proof cases
  case (step_submit C now sub r)
  from step_submit show ?thesis
  proof (cases rule: submit_cases)
    case (failed v e)
    with ok relay_result [OF failed(3)] show ?thesis by (auto simp: receipts_ok_def)
  next
    case (relayed v rec g1)
    note res = relay_result [OF relayed(3)]
    have v: "valid_transaction_hash v = sha256 X (sub_tx_raw sub)" "valid_id v = verification_id X (sub_proof sub)"
      "valid_tx_raw v = sub_tx_raw sub" "tx_commits X K (sub_tx_raw sub) (sub_proof sub)"
      using relayed(1) unfolding validate_submission_Inr [OF X] by auto
    show ?thesis
      unfolding receipts_ok_def
    proof (intro allI impI)
      fix h r
      assume r: "receipts g' h = Some r"
      show "\<exists>tx \<in> set (relayed g'). \<exists>p. h = sha256 X tx \<and> tx_commits X K tx p \<and>
          r = \<lparr>receipt_verification_id = verification_id X p, receipt_transaction_hash = h\<rparr>"
      proof (cases "h = valid_transaction_hash v")
        case True
        then have "r = \<lparr>receipt_verification_id = valid_id v, receipt_transaction_hash = h\<rparr>"
          using r relayed(4) res(3) [OF refl] by simp
        moreover have "sub_tx_raw sub \<in> set (relayed g')"
          using relayed(4) res(3) [OF refl] v(3) by simp
        ultimately show ?thesis using True v by metis
      next
        case False
        then have "receipts g h = Some r" using r relayed(4) res(1) by simp
        then obtain tx p where "tx \<in> set (relayed g)" "h = sha256 X tx" "tx_commits X K tx p"
          "r = \<lparr>receipt_verification_id = verification_id X p, receipt_transaction_hash = h\<rparr>"
          using ok unfolding receipts_ok_def by blast
        moreover have "set (relayed g) \<subseteq> set (relayed g')" using relayed(4) res(2) by auto
        ultimately show ?thesis by blast
      qed
    qed
  qed (use ok in auto)
qed (use ok in \<open>auto simp: receipts_ok_def\<close>)

interpretation ingress_sys: transition_system ingress_init "ingress_step X K lim"
  "\<lambda>g. sha256_len X \<longrightarrow> receipts_ok X K g" for X K lim
proof
  show "sha256_len X \<longrightarrow> receipts_ok X K g" if "ingress_init g" for g
    using that by (auto simp: ingress_init_def ingress_new_def receipts_ok_def)
  show "sha256_len X \<longrightarrow> receipts_ok X K g'"
    if "sha256_len X \<longrightarrow> receipts_ok X K g" "ingress_step X K lim g g'" for g g'
    using that receipts_ok_step by blast
qed

lemma submit_receipt:
  assumes X: "sha256_len X" and ok: "receipts_ok X K g"
    and inj: "inj_on (sha256 X) (insert (sub_tx_raw sub) (set (relayed g)))"
    and run: "submit X K lim C now sub g = (g', Inr r)"
  shows "tx_commits X K (sub_tx_raw sub) (sub_proof sub) \<and> sub_tx_raw sub \<in> set (relayed g') \<and>
    receipts g' (sha256 X (sub_tx_raw sub)) = Some r \<and>
    r = \<lparr>receipt_verification_id = verification_id X (sub_proof sub),
         receipt_transaction_hash = sha256 X (sub_tx_raw sub)\<rparr>"
  using run
proof (cases rule: submit_cases)
  case (cached v rec)
  then have v: "valid_transaction_hash v = sha256 X (sub_tx_raw sub)"
    "tx_commits X K (sub_tx_raw sub) (sub_proof sub)"
    unfolding validate_submission_Inr [OF X] by auto
  from cached(2) ok obtain tx p where tx: "tx \<in> set (relayed g)" "valid_transaction_hash v = sha256 X tx"
    "tx_commits X K tx p"
    "rec = \<lparr>receipt_verification_id = verification_id X p, receipt_transaction_hash = valid_transaction_hash v\<rparr>"
    unfolding receipts_ok_def by blast
  have "tx = sub_tx_raw sub" using inj tx(1,2) v(1) by (auto dest: inj_onD)
  with tx v cached tx_commits_id [of X K tx p "sub_proof sub"] show ?thesis by auto
next
  case (relayed v rec g1)
  then show ?thesis
    using relay_result [OF relayed(3)] unfolding validate_submission_Inr [OF X] by auto
qed auto

lemma insert_stored:
  assumes X: "moka X" and ins: "insert_local_proof X now s p source = (t, evs, Inr c)"
  shows "\<exists>r. entry t (verification_id X p) = Some r \<and> record_proof r \<noteq> None"
proof -
  let ?i = "verification_id X p"
  have v: "validate_proof X s ?i p = Inr ()"
    using ins by (cases "validate_proof X s ?i p") (auto simp: insert_local_proof_def Let_def)
  show ?thesis
  proof (cases "records s ?i")
    case None
    with ins v show ?thesis
      by (auto simp: insert_local_proof_def Let_def insert_entry_def compute_eq(3) [OF X])
  next
    case (Some a)
    with ins v show ?thesis
      by (cases "record_proof (arc_val a)")
         (auto simp: insert_local_proof_def Let_def insert_entry_def compute_eq(2,3) [OF X] entry_def
            with_content_def queue_if_ready_def)
  qed
qed

lemma relay_stored:
  assumes "moka X" "relay X C now v g = (g', r)" "relayed g' \<noteq> relayed g"
  shows "\<exists>rec. entry (i_store g') (verification_id X (valid_proof v)) = Some rec \<and> record_proof rec \<noteq> None"
  using assms(2,3) insert_stored [OF assms(1), of now "i_store g" "valid_proof v" Rpc]
  by (auto simp: relay_def split: prod.splits sum.splits)

text \<open>A closed submission of the demonstration proof, accepted by the node.\<close>

definition demo_tx :: bytes where "demo_tx = [1, 2, 3]"

definition demo_tx_codec :: tx_codec where
  "demo_tx_codec =
     \<lparr>decode_tx_raw = (\<lambda>_. Inr \<lparr>body_bytes = [1], auth_info_bytes = [1], signatures = [[1]]\<rparr>),
      decode_tx_body = (\<lambda>_. Inr [\<lparr>type_url = MSG_SUBMIT_PROOF_TYPE_URL, any_value = []\<rparr>]),
      decode_auth_info = (\<lambda>_. Inr 1),
      decode_msg_submit_proof = (\<lambda>_. Inr \<lparr>msg_signer = ''cosmos1'',
        msg_proof_type = proof_type_to_i32 (proof_type demo_proof),
        msg_proof_hash = demo_sha256 (proof_bytes demo_proof),
        msg_public_inputs_hash = demo_sha256 (public_inputs demo_proof),
        msg_verification_key_hash = demo_sha256 (verification_key demo_proof)\<rparr>)\<rparr>"

definition accepting_node :: comet where
  "accepting_node =
     \<lparr>comet_status = TimedOut,
      comet_broadcast = (\<lambda>tx. Answered (Inr \<lparr>response_hash = demo_sha256 tx, response_code = 0,
        response_codespace = [], response_log = []\<rparr>)),
      comet_validators = (\<lambda>_. TimedOut), comet_block = (\<lambda>_. TimedOut),
      abci_query = (\<lambda>_ _ _ _. TimedOut), height_try_from = (\<lambda>h. Inr h),
      encode_page_request = (\<lambda>_. []), decode_proofs_page = (\<lambda>_. Inl [])\<rparr>"

definition demo_limits :: submission_limits where
  "demo_limits = \<lparr>limit_proof_bytes = 100, limit_transaction_bytes = 10\<rparr>"

definition demo_submission :: proof_submission where
  "demo_submission = \<lparr>sub_proof = demo_proof, sub_tx_raw = demo_tx\<rparr>"

definition demo_receipt :: submission_receipt where
  "demo_receipt = \<lparr>receipt_verification_id = demo_id, receipt_transaction_hash = demo_sha256 demo_tx\<rparr>"

definition demo_ingress :: ingress where
  "demo_ingress =
     \<lparr>i_store = demo_queued, receipts = [demo_sha256 demo_tx \<mapsto> demo_receipt],
      published = [ProofStored demo_id Rpc, VerificationChanged demo_id Queued], relayed = [demo_tx]\<rparr>"

lemma demo_signer: "trim ''cosmos1'' = ''cosmos1''"
  by code_simp

lemma demo_submit:
  "submit demo_store_externs demo_tx_codec demo_limits accepting_node 2 demo_submission
     (ingress_new demo_observed) = (demo_ingress, Inr demo_receipt)"
proof -
  have "submit_message demo_tx_codec demo_tx = Inr (projr (decode_msg_submit_proof demo_tx_codec []))"
    by (simp add: submit_message_def demo_tx_codec_def demo_signer)
  then have "validate_submission demo_store_externs demo_tx_codec demo_submission 100 10 =
      Inr \<lparr>valid_id = demo_id, valid_transaction_hash = demo_sha256 demo_tx, valid_proof = demo_proof,
           valid_tx_raw = demo_tx\<rparr>"
    unfolding validate_submission_Inr [OF demo_store_laws(2)]
    by (simp add: tx_commits_def demo_submission_def demo_id_def demo_tx_def demo_tx_codec_def)
  moreover have "length (demo_sha256 m) = 32" for m
    using demo_store_laws(2) by (simp add: sha256_len_def)
  ultimately show ?thesis
    by (simp add: submit_def demo_limits_def try_get_with_def relay_def ingress_new_def demo_insert
        broadcast_tx_sync_def accepting_node_def with_timeout_def demo_ingress_def demo_receipt_def)
qed

text \<open>
  C13. A receipt is honest: the transaction it names commits to the submitted proof by type and
  by the three hashes, it was handed to the node, and the receipt carries the identifier of this
  proof, also when it comes from the cache, as long as no two relayed transactions collide.
\<close>

theorem submit_sound:
  assumes "sha256_len X" "reach ingress_init (ingress_step X K lim) g"
    and "inj_on (sha256 X) (insert (sub_tx_raw sub) (set (relayed g)))"
    and "submit X K lim C now sub g = (g', Inr r)"
  shows "tx_commits X K (sub_tx_raw sub) (sub_proof sub) \<and> sub_tx_raw sub \<in> set (relayed g') \<and>
         r = \<lparr>receipt_verification_id = verification_id X (sub_proof sub),
              receipt_transaction_hash = sha256 X (sub_tx_raw sub)\<rparr>"
  using submit_receipt [OF assms(1) _ assms(3,4)] ingress_sys.reachable_inv [OF assms(2)] assms(1)
  by blast

theorem submit_sound_witness:
  "tx_commits demo_store_externs demo_tx_codec demo_tx demo_proof \<and>
   receipt_verification_id demo_receipt = demo_id"
proof -
  have "reach ingress_init (ingress_step demo_store_externs demo_tx_codec demo_limits) (ingress_new demo_observed)"
    by (rule reach.reach_init) (auto simp: ingress_init_def)
  from submit_sound [OF demo_store_laws(2) this _ demo_submit] show ?thesis
    by (simp add: ingress_new_def demo_submission_def demo_receipt_def)
qed



section \<open>Limits of the server\<close>

text \<open>
  The admission of requests: every request is admitted with a permit or refused, and at most the
  configured number run at a time.
\<close>

inductive admission_step :: "admission \<Rightarrow> admission \<Rightarrow> bool" where
  admit: "admission_step a (fst (admission_call a))"
| finish: "0 < admitted a \<Longrightarrow> admission_step a (admission_release a)"

definition admission_inv :: "nat \<Rightarrow> admission \<Rightarrow> bool" where
  "admission_inv n a \<longleftrightarrow> permits a + admitted a = n"

interpretation admission_sys: transition_system "\<lambda>a. a = admission_new n" admission_step "admission_inv n" for n
proof
  show "admission_inv n b" if "admission_inv n a" "admission_step a b" for a b
    using that(2,1)
    by cases (auto simp: admission_inv_def admission_call_def admission_release_def)
qed (simp add: admission_inv_def admission_new_def)

lemma admission_bounded:
  assumes "reach (\<lambda>a. a = admission_new n) admission_step a"
  shows "admitted a \<le> n \<and> (is_ok (snd (admission_call a)) \<longleftrightarrow> admitted a < n)"
  using admission_sys.reachable_inv [OF assms] by (auto simp: admission_inv_def admission_call_def)

text \<open>
  The size of a request message (\<open>prost\<close>): a message field and a bytes field. A varint takes one
  byte per started group of seven bits.
\<close>

definition varint_groups :: "'x externs_scheme \<Rightarrow> bool" where
  "varint_groups X \<longleftrightarrow> (\<forall>k n. 0 < k \<longrightarrow> n < 128 ^ k \<longrightarrow> encoded_len_varint X n \<le> k)"

definition submit_request_len :: "'x externs_scheme \<Rightarrow> (submit_request \<Rightarrow> nat) \<Rightarrow> bool" where
  "submit_request_len X L \<longleftrightarrow>
     (\<forall>req. L req =
        (case request_proof req of None \<Rightarrow> 0 | Some w \<Rightarrow> delimited_len X (wire_proof_encoded_len X w))
        + text_field_len X (request_tx_raw req))"

lemma varint_octets_groups: "0 < k \<Longrightarrow> n < 128 ^ k \<Longrightarrow> varint_octets m n \<le> k"
proof (induction m n arbitrary: k rule: varint_octets.induct)
  case (2 m n)
  show ?case
  proof (cases "n < 128")
    case False
    with "2.prems" obtain j where k: "k = Suc j" "0 < j" by (cases k; cases "k - 1") auto
    then have "n div 128 < 128 ^ j" using "2.prems"(2) by (simp add: div_less_iff_less_mult mult.commute)
    with "2.IH" [OF False k(2)] False k show ?thesis by simp
  qed (use "2.prems" in simp)
qed simp

lemma demo_varint_groups: "varint_groups demo_store_externs"
  by (auto simp: varint_groups_def demo_varint_def varint_octets_groups)

text \<open>
  The configured limits fit together: the limit of the server for a request is defined, and
  every request whose proof and transaction are within their own limits is below it, so no
  acceptable submission is refused for its size.
\<close>

lemma request_limit_fits:
  assumes X: "varint_len X" "varint_groups X" "wire_proof_len X" "submit_request_len X L"
    and cfg: "submission_config_ok cfg" "mp < u32_bound"
    and p: "in_memory p" "encoded_len X p \<le> mp" "length tx \<le> max_transaction_bytes cfg"
  shows "\<exists>n. request_limit mp (max_transaction_bytes cfg) = Inr n \<and>
     L \<lparr>request_proof = Some (proof_to_wire p), request_tx_raw = tx\<rparr> \<le> n"
proof -
  have tx: "max_transaction_bytes cfg \<le> 16777216" using cfg(1) by (simp add: submission_config_ok_def)
  have v: "encoded_len_varint X (encoded_len X p) \<le> 5" "encoded_len_varint X (length tx) \<le> 4"
    using X(2) p cfg(2) tx by (auto simp: varint_groups_def u32_bound_def)
  have "L \<lparr>request_proof = Some (proof_to_wire p), request_tx_raw = tx\<rparr> \<le>
      mp + max_transaction_bytes cfg + 11"
    using X(4) v p encoded_len_wire [OF X(1,3) p(1)]
    by (simp add: submit_request_len_def delimited_len_def text_field_len_def)
  moreover have "request_limit mp (max_transaction_bytes cfg) = Inr (mp + max_transaction_bytes cfg + 16)"
    using cfg(2) tx by (simp add: request_limit_def checked_add_usize_def PROTOBUF_ENVELOPE_OVERHEAD_def word_bounds)
  ultimately show ?thesis by simp
qed

end
