(* ===== verification/Listener.thy ===== *)
theory Listener
  imports Chain_Client Store_Lifecycle
begin

text \<open>
  \<open>src/listener.rs\<close>: the observation of committed blocks. The theory models the parsing of a
  block's events, the recovery of the active window, the session with the node and the reconnect
  loop. The lemmas show what a block must hold to be accepted, that no height of the active window
  is skipped across gaps and reconnections, that the installed validator set follows the hash the
  listener remembers, and which errors end the listener.
\<close>

section \<open>Events of a block\<close>

definition PROOF_SUBMITTED_EVENT :: string where
  "PROOF_SUBMITTED_EVENT = ''verification.proof_submitted''"

definition ACTIVE_PROOF_HEIGHTS :: nat where "ACTIVE_PROOF_HEIGHTS = 3"

definition VERIFICATION_ID :: string where "VERIFICATION_ID = ''verification_id''"
definition PROOF_HASH :: string where "PROOF_HASH = ''proof_hash''"
definition PUBLIC_INPUTS_HASH :: string where "PUBLIC_INPUTS_HASH = ''public_inputs_hash''"
definition VERIFICATION_KEY_HASH :: string where "VERIFICATION_KEY_HASH = ''verification_key_hash''"
definition SUBMISSION_HEIGHT :: string where "SUBMISSION_HEIGHT = ''submission_height''"
definition INDEX_IN_BLOCK :: string where "INDEX_IN_BLOCK = ''index_in_block''"
definition PROOF_TYPE :: string where "PROOF_TYPE = ''proof_type''"

type_synonym attribute_map = "string \<rightharpoonup> string"

fun attributes_from :: "attribute_map \<Rightarrow> (string \<times> string) list \<Rightarrow> attribute_map res" where
  "attributes_from values [] = Inr values"
| "attributes_from values ((key, v) # rest) =
     (if values key \<noteq> None
      then Inl (InvalidChainContract (''duplicate '' @ key @ '' attribute in '' @ PROOF_SUBMITTED_EVENT))
      else attributes_from (values(key \<mapsto> v)) rest)"

definition attributes :: "committed_event \<Rightarrow> attribute_map res" where
  "attributes e = attributes_from Map.empty (event_attributes e)"

definition required :: "attribute_map \<Rightarrow> string \<Rightarrow> string res" where
  "required m key =
     ok_or (InvalidChainContract (PROOF_SUBMITTED_EVENT @ '' is missing '' @ key)) (m key)"

definition parse_attribute :: "(string \<Rightarrow> string + 'a) \<Rightarrow> attribute_map \<Rightarrow> string \<Rightarrow> 'a res" where
  "parse_attribute parse m key =
     bind_res (required m key) (\<lambda>v.
       map_err (\<lambda>e. InvalidChainContract (PROOF_SUBMITTED_EVENT @ '' has invalid '' @ key @ '': '' @ e))
         (parse v))"

text \<open>\<open>hex_decode\<close> is a parameter, the function \<open>hex::decode\<close> with the text of its errors.\<close>

definition parse_hex :: "(string \<Rightarrow> string + bytes) \<Rightarrow> attribute_map \<Rightarrow> string \<Rightarrow> bytes res" where
  "parse_hex hex_decode = parse_attribute hex_decode"

definition parse_u64 :: "attribute_map \<Rightarrow> string \<Rightarrow> nat res" where
  "parse_u64 = parse_attribute str_parse_u64"

definition parse_u32 :: "attribute_map \<Rightarrow> string \<Rightarrow> nat res" where
  "parse_u32 = parse_attribute str_parse_u32"

definition parse_i32 :: "attribute_map \<Rightarrow> string \<Rightarrow> int res" where
  "parse_i32 = parse_attribute str_parse_i32"

definition parse_proof_event ::
  "'x externs_scheme \<Rightarrow> (string \<Rightarrow> string + bytes) \<Rightarrow> nat \<Rightarrow> nat set \<Rightarrow> committed_event \<Rightarrow> (nat \<times> verification_id) res" where
  "parse_proof_event X hex_decode height seen e =
     bind_res (attributes e) (\<lambda>m.
     bind_res (parse_u64 m SUBMISSION_HEIGHT) (\<lambda>sh.
     bind_res (parse_u32 m INDEX_IN_BLOCK) (\<lambda>index.
     bind_res (validate_position sh index height) (\<lambda>_.
     if index \<in> seen
     then Inl (InvalidChainContract (''duplicate proof index '' @ show_nat index @
       '' in committed block '' @ show_nat height))
     else bind_res (parse_i32 m PROOF_TYPE) (\<lambda>ty.
       bind_res (parse_hex hex_decode m PROOF_HASH) (\<lambda>ph.
       bind_res (parse_hex hex_decode m PUBLIC_INPUTS_HASH) (\<lambda>pih.
       bind_res (parse_hex hex_decode m VERIFICATION_KEY_HASH) (\<lambda>vkh.
       bind_res (parse_hex hex_decode m VERIFICATION_ID) (\<lambda>vid.
       bind_res (validate_descriptor X ty ph pih vkh vid) (\<lambda>i. Inr (index, i)))))))))))"

fun parse_events_loop ::
  "'x externs_scheme \<Rightarrow> (string \<Rightarrow> string + bytes) \<Rightarrow> nat \<Rightarrow> nat set \<Rightarrow> committed_event list \<Rightarrow> verification_id list res" where
  "parse_events_loop X hex_decode height seen [] = Inr []"
| "parse_events_loop X hex_decode height seen (e # es) =
     bind_res (parse_proof_event X hex_decode height seen e) (\<lambda>(index, i).
     bind_res (parse_events_loop X hex_decode height (insert index seen) es) (\<lambda>rest.
     Inr (i # rest)))"

definition parse_proof_events ::
  "'x externs_scheme \<Rightarrow> (string \<Rightarrow> string + bytes) \<Rightarrow> committed_block \<Rightarrow> verification_id list res" where
  "parse_proof_events X hex_decode b =
     parse_events_loop X hex_decode (block_height b) {}
       (filter (\<lambda>e. event_kind e = PROOF_SUBMITTED_EVENT) (block_events b))"

section \<open>State and steps\<close>

text \<open>
  The store, the events it published, the identifiers handed to it with success,
  \<open>ListenerState\<close>, whether readiness was signalled, and the heights at which the validator set
  was replaced. A step is a function on this state with a
  result; \<open>bind_l\<close> is the question mark operator.
\<close>

record listener =
  l_store :: store
  l_events :: "proof_store_event list"
  l_observed :: "verification_id list"
  last_height :: "nat option"
  validators_hash :: "bytes option"
  l_ready :: bool
  replaced_at :: "nat list"

type_synonym 'a listener_step = "listener \<Rightarrow> listener \<times> 'a res"

definition bind_l :: "'a listener_step \<Rightarrow> ('a \<Rightarrow> 'b listener_step) \<Rightarrow> 'b listener_step" where
  "bind_l m f l = (case m l of (l', Inl e) \<Rightarrow> (l', Inl e) | (l', Inr x) \<Rightarrow> f x l')"

definition pure_l :: "'a res \<Rightarrow> 'a listener_step" where "pure_l r l = (l, r)"

definition upd_l :: "(listener \<Rightarrow> listener) \<Rightarrow> unit listener_step" where "upd_l f l = (f l, Inr ())"

text \<open>
  The environment of a step: the externs of the store, the decoder of hexadecimal text, the node
  and the client, the instant at which an identifier is observed, and the capability to replace
  the validator set, if the network is enabled (\<open>ValidatorSetUpdater::replace_at\<close>).
\<close>

record 'x listener_env =
  env_externs :: 'x
  env_hex_decode :: "string \<Rightarrow> string + bytes"
  env_node :: comet
  env_client :: pulsar_client
  env_at :: "verification_id \<Rightarrow> instant"
  env_updater :: "(nat \<Rightarrow> unit res) option"

definition observe_one :: "'x store_externs_scheme listener_env \<Rightarrow> verification_id \<Rightarrow> unit listener_step" where
  "observe_one E i l =
     (case observe_chain_verification (env_externs E) (env_at E i) (l_store l) i of
        (s, evs, r) \<Rightarrow>
          (l\<lparr>l_store := s, l_events := l_events l @ evs,
             l_observed := (if is_ok r then i # l_observed l else l_observed l)\<rparr>,
           bind_res r (\<lambda>_. Inr ())))"

fun observe_all :: "'x store_externs_scheme listener_env \<Rightarrow> verification_id list \<Rightarrow> unit listener_step" where
  "observe_all E [] = pure_l (Inr ())"
| "observe_all E (i # is) = bind_l (observe_one E i) (\<lambda>_. observe_all E is)"

definition active_heights :: "nat \<Rightarrow> nat list" where
  "active_heights latest = [max (latest - (ACTIVE_PROOF_HEIGHTS - 1)) 1 ..< Suc latest]"

fun reconcile_heights :: "'x store_externs_scheme listener_env \<Rightarrow> nat list \<Rightarrow> unit listener_step" where
  "reconcile_heights E [] = pure_l (Inr ())"
| "reconcile_heights E (h # hs) =
     bind_l (pure_l (proofs_by_height (env_externs E) (env_node E) h)) (\<lambda>ps.
     bind_l (observe_all E (map chain_verification_id ps)) (\<lambda>_.
     reconcile_heights E hs))"

definition reconcile_active_window :: "'x store_externs_scheme listener_env \<Rightarrow> nat \<Rightarrow> unit listener_step" where
  "reconcile_active_window E latest = reconcile_heights E (active_heights latest)"

definition validator_set_changed :: "bytes option \<Rightarrow> bytes \<Rightarrow> bool" where
  "validator_set_changed previous current \<longleftrightarrow> previous \<noteq> Some current"

definition replace_set :: "(nat \<Rightarrow> unit res) \<Rightarrow> nat \<Rightarrow> unit listener_step" where
  "replace_set updater height =
     bind_l (pure_l (updater height)) (\<lambda>_. upd_l (\<lambda>l. l\<lparr>replaced_at := replaced_at l @ [height]\<rparr>))"

definition initialize :: "'x store_externs_scheme listener_env \<Rightarrow> unit listener_step" where
  "initialize E =
     bind_l (pure_l (client_status (env_node E) (env_client E))) (\<lambda>latest.
     bind_l (reconcile_active_window E latest) (\<lambda>_.
     bind_l
       (case env_updater E of
          None \<Rightarrow> pure_l (Inr ())
        | Some updater \<Rightarrow>
            bind_l (pure_l (client_validators_hash (env_node E) latest)) (\<lambda>hash.
            bind_l (\<lambda>l. (if validator_set_changed (validators_hash l) hash
                        then replace_set updater latest else pure_l (Inr ())) l) (\<lambda>_.
            upd_l (\<lambda>l. l\<lparr>validators_hash := Some hash\<rparr>)))) (\<lambda>_.
     upd_l (\<lambda>l. l\<lparr>last_height := Some latest\<rparr>))))"

text \<open>The parts of \<open>process_block\<close>: recovery across a gap, and the step to the new height.\<close>

definition recover_gap :: "'x store_externs_scheme listener_env \<Rightarrow> committed_block \<Rightarrow> unit listener_step" where
  "recover_gap E b l =
     (if (case last_height l of None \<Rightarrow> False | Some h \<Rightarrow> block_height b > saturating_add_u64 h 1)
      then reconcile_active_window E (block_height b) else pure_l (Inr ())) l"

definition advance_to :: "'x store_externs_scheme listener_env \<Rightarrow> committed_block \<Rightarrow> unit listener_step" where
  "advance_to E b l =
     (if (case last_height l of None \<Rightarrow> True | Some h \<Rightarrow> block_height b > h)
      then bind_l
        (case env_updater E of
           Some updater \<Rightarrow>
             if validator_set_changed (validators_hash l) (block_validators_hash b)
             then replace_set updater (block_height b) else pure_l (Inr ())
         | None \<Rightarrow> pure_l (Inr ()))
        (\<lambda>_. upd_l (\<lambda>l. l\<lparr>validators_hash := Some (block_validators_hash b),
                        last_height := Some (block_height b)\<rparr>))
      else pure_l (Inr ())) l"

definition process_block :: "'x store_externs_scheme listener_env \<Rightarrow> committed_block \<Rightarrow> unit listener_step" where
  "process_block E b =
     bind_l (pure_l (parse_proof_events (env_externs E) (env_hex_decode E) b)) (\<lambda>observations.
     bind_l (recover_gap E b) (\<lambda>_.
     bind_l (observe_all E observations) (\<lambda>_.
     advance_to E b)))"

definition is_fatal :: "error \<Rightarrow> bool" where
  "is_fatal e =
     (case e of
        ChainIdMismatch _ _ \<Rightarrow> True | InvalidChainContract _ \<Rightarrow> True | InvalidVerificationId _ \<Rightarrow> True
      | UnsupportedProofType _ \<Rightarrow> True | VerificationIdMismatch _ \<Rightarrow> True
      | LocalValidatorRemoved _ \<Rightarrow> True | ProofStoreError _ \<Rightarrow> True | _ \<Rightarrow> False)"

section \<open>Sessions and reconnection\<close>

text \<open>
  A session is driven by what happens around it: the outcome of the subscription (none when the
  stop signal comes first), the initialization, which the stop signal may cut off after some
  observations, the items of the stream, each with the environment in which it is processed, and
  what closing the subscription reports. A session whose items run out is still running.
\<close>

datatype 'e init_run = InitCancelled 'e "verification_id list" | InitRun 'e

datatype 'e stream_input = StopInput | BlockInput 'e "committed_block option res"

record 'e session =
  session_subscribe :: "unit res option"
  session_init :: "'e init_run"
  session_inputs :: "'e stream_input list"
  session_close :: "unit res"

datatype session_exit = Stopped | Reconnect error bool

definition fail_session :: "error \<Rightarrow> bool \<Rightarrow> session_exit res" where
  "fail_session e established = (if is_fatal e then Inl e else Inr (Reconnect e established))"

definition stop_session :: "unit res \<Rightarrow> session_exit res" where
  "stop_session close = bind_res close (\<lambda>_. Inr Stopped)"

fun session_loop ::
  "unit res \<Rightarrow> 'x store_externs_scheme listener_env stream_input list \<Rightarrow> listener
    \<Rightarrow> listener \<times> session_exit res option" where
  "session_loop close [] l = (l, None)"
| "session_loop close (StopInput # ins) l = (l, Some (stop_session close))"
| "session_loop close (BlockInput E item # ins) l =
     (case item of
        Inr (Some block) \<Rightarrow>
          (case process_block E block l of
             (l', Inl e) \<Rightarrow> (l', Some (fail_session e True))
           | (l', Inr _) \<Rightarrow> session_loop close ins l')
      | Inr None \<Rightarrow> (l, Some (Inr (Reconnect (Chain ''NewBlock subscription closed'') True)))
      | Inl e \<Rightarrow> (l, Some (fail_session e True)))"

definition run_session ::
  "'x store_externs_scheme listener_env session \<Rightarrow> listener \<Rightarrow> listener \<times> session_exit res option" where
  "run_session sess l =
     (case session_subscribe sess of
        None \<Rightarrow> (l, Some (Inr Stopped))
      | Some (Inl e) \<Rightarrow> (l, Some (fail_session e False))
      | Some (Inr _) \<Rightarrow>
          (case session_init sess of
             InitCancelled E ids \<Rightarrow> (fst (observe_all E ids l), Some (stop_session (session_close sess)))
           | InitRun E \<Rightarrow>
               (case initialize E l of
                  (l', Inl e) \<Rightarrow> (l', Some (fail_session e False))
                | (l', Inr _) \<Rightarrow>
                    session_loop (session_close sess) (session_inputs sess) (l'\<lparr>l_ready := True\<rparr>))))"

text \<open>\<open>rand::random_range(0..=max)\<close> is a draw reduced to the range.\<close>

definition full_jitter :: "duration \<Rightarrow> nat \<Rightarrow> duration" where
  "full_jitter maximum draw =
     (let max_millis = min (maximum div 1000000) (u64_bound - 1) in from_millis (draw mod Suc max_millis))"

definition next_backoff :: "listener_config \<Rightarrow> duration \<Rightarrow> duration" where
  "next_backoff cfg backoff =
     min (case duration_checked_mul backoff 2 of None \<Rightarrow> reconnect_max_backoff cfg | Some d \<Rightarrow> d)
       (reconnect_max_backoff cfg)"

text \<open>Each turn has its session, a random draw and whether the stop signal ends the pause.\<close>

fun run_listener ::
  "listener_config \<Rightarrow> ('x store_externs_scheme listener_env session \<times> nat \<times> bool) list \<Rightarrow> duration \<Rightarrow> listener
    \<Rightarrow> listener \<times> duration list \<times> unit res option" where
  "run_listener cfg [] backoff l = (l, [], None)"
| "run_listener cfg ((sess, draw, stopped) # rest) backoff l =
     (case run_session sess l of
        (l', None) \<Rightarrow> (l', [], None)
      | (l', Some (Inr Stopped)) \<Rightarrow> (l', [], Some (Inr ()))
      | (l', Some (Inl e)) \<Rightarrow> (l', [], Some (Inl e))
      | (l', Some (Inr (Reconnect e established))) \<Rightarrow>
          (let backoff = (if established then reconnect_initial_backoff cfg else backoff);
               delay = full_jitter backoff draw
           in if stopped then (l', [delay], Some (Inr ()))
              else case run_listener cfg rest (next_backoff cfg backoff) l' of
                (l'', delays, r) \<Rightarrow> (l'', delay # delays, r)))"

section \<open>The steps of the listener\<close>

lemma bind_l_Inr:
  "bind_l m f l = (l', Inr x) \<longleftrightarrow> (\<exists>l1 y. m l = (l1, Inr y) \<and> f y l1 = (l', Inr x))"
  by (auto simp: bind_l_def split: prod.split sum.split)

lemma pure_l_simps [simp]: "pure_l r l = (l', x) \<longleftrightarrow> l' = l \<and> r = x"
  by (auto simp: pure_l_def)

lemma upd_l_simps [simp]: "upd_l f l = (l', x) \<longleftrightarrow> l' = f l \<and> x = Inr ()"
  by (auto simp: upd_l_def)

text \<open>
  A property of the state that a step keeps, whatever its result. Most steps only observe: they
  change the store along its own steps and leave the remembered height and hash alone.
\<close>

definition keeps :: "(listener \<Rightarrow> listener \<Rightarrow> bool) \<Rightarrow> 'a listener_step \<Rightarrow> bool" where
  "keeps R m \<longleftrightarrow> (\<forall>l. R l (fst (m l)))"

lemma keepsD: "keeps R m \<Longrightarrow> m l = (l', r) \<Longrightarrow> R l l'"
  by (metis fst_conv keeps_def)

lemma keeps_bind:
  assumes "transp R" "keeps R m" "\<And>x. keeps R (f x)"
  shows "keeps R (bind_l m f)"
  unfolding keeps_def bind_l_def
proof
  fix l
  obtain l1 r where m: "m l = (l1, r)" by force
  have 1: "R l l1" using keepsD [OF assms(2) m] .
  show "R l (fst (case m l of (l', Inl e) \<Rightarrow> (l', Inl e) | (l', Inr x) \<Rightarrow> f x l'))"
  proof (cases r)
    case (Inr x)
    have "R l1 (fst (f x l1))" using assms(3) by (simp add: keeps_def)
    with 1 assms(1) Inr m show ?thesis by (auto dest: transpD)
  qed (use 1 m in simp)
qed

lemma keeps_pure: "reflp R \<Longrightarrow> keeps R (pure_l r)"
  by (auto simp: keeps_def pure_l_def dest: reflpD)

definition only_observes :: "listener \<Rightarrow> listener \<Rightarrow> bool" where
  "only_observes l l' \<longleftrightarrow>
     set (l_observed l) \<subseteq> set (l_observed l') \<and> last_height l' = last_height l \<and>
     validators_hash l' = validators_hash l \<and> replaced_at l' = replaced_at l \<and> l_ready l' = l_ready l"

lemma only_observes_order: "reflp only_observes" "transp only_observes"
  by (auto simp: only_observes_def reflp_def transp_def)

lemma observe_one_keeps: "keeps only_observes (observe_one E i)"
  by (auto simp: keeps_def only_observes_def observe_one_def split: prod.split)

lemma observe_all_keeps: "keeps only_observes (observe_all E is)"
  by (induction "is") (auto intro!: keeps_pure keeps_bind observe_one_keeps only_observes_order)

lemma reconcile_heights_keeps: "keeps only_observes (reconcile_heights E hs)"
  by (induction hs) (auto intro!: keeps_pure keeps_bind observe_all_keeps only_observes_order)

lemma observe_all_done: "observe_all E is l = (l', Inr u) \<Longrightarrow> set is \<subseteq> set (l_observed l')"
proof (induction "is" arbitrary: l)
  case (Cons i "is")
  then obtain l1 u1 where 1: "observe_one E i l = (l1, Inr u1)" and 2: "observe_all E is l1 = (l', Inr u)"
    by (auto simp: bind_l_Inr)
  have "i \<in> set (l_observed l1)"
    using 1 by (auto simp: observe_one_def bind_res_Inr_iff split: prod.splits)
  moreover have "set (l_observed l1) \<subseteq> set (l_observed l')"
    using keepsD [OF observe_all_keeps 2] by (simp add: only_observes_def)
  ultimately show ?case using Cons.IH [OF 2] by auto
qed simp

text \<open>An identifier observed in the store stays observed while the listener runs.\<close>

definition observed_in :: "store \<Rightarrow> verification_id \<Rightarrow> bool" where
  "observed_in s i \<longleftrightarrow> (\<exists>r. entry s i = Some r \<and> chain_observed_at (metadata r) \<noteq> None)"

definition recorded :: "listener \<Rightarrow> bool" where
  "recorded l \<longleftrightarrow> (\<forall>i \<in> set (l_observed l). observed_in (l_store l) i)"

lemma queue_if_ready_observed [simp]:
  "chain_observed_at (metadata (queue_if_ready r)) = chain_observed_at (metadata r)"
  by (simp add: queue_if_ready_def)

lemma observe_result:
  assumes "moka X"
  obtains (seen) a c where "records s i = Some a" "chain_observed_at (metadata (arc_val a)) \<noteq> None"
      "observe_chain_verification X now s i = (skip_record s, [], Inr c)"
  | (put) r evs c where "chain_observed_at (metadata r) \<noteq> None"
      "observe_chain_verification X now s i = (put_record s i r, evs, Inr c)"
proof (cases "records s i")
  case None
  then show ?thesis
    by (intro put [of "\<lparr>metadata = \<lparr>chain_observed_at = Some now, content_source = None,
          content_stored_at = None, verification = None, completed_at = None\<rparr>, record_proof = None\<rparr>"])
       (simp_all add: observe_chain_verification_def observe_entry_def compute_eq(3) [OF assms])
next
  case (Some a)
  show ?thesis
  proof (cases "chain_observed_at (metadata (arc_val a)) = None")
    case True
    with Some show ?thesis
      by (intro put [of "queue_if_ready ((arc_val a)
            \<lparr>metadata := (metadata (arc_val a))\<lparr>chain_observed_at := Some now\<rparr>\<rparr>)"])
         (simp_all add: observe_chain_verification_def observe_entry_def Let_def compute_eq(3) [OF assms])
  next
    case False
    with Some show ?thesis
      by (intro seen) (simp_all add: observe_chain_verification_def observe_entry_def Let_def
        compute_eq(2) [OF assms])
  qed
qed

lemma observe_observed:
  assumes "moka X" "observe_chain_verification X now s i = (t, evs, r)"
  shows "is_ok r" "observed_in t i" "observed_in s j \<Longrightarrow> observed_in t j"
proof -
  have "is_ok r \<and> observed_in t i \<and> (observed_in s j \<longrightarrow> observed_in t j)"
  proof (rule observe_result [OF assms(1), of s i now], goal_cases)
    case (1 a c)
    with assms(2) show ?thesis by (auto simp: observed_in_def entry_def)
  next
    case (2 r evs c)
    with assms(2) show ?thesis by (auto simp: observed_in_def)
  qed
  then show "is_ok r" "observed_in t i" "observed_in s j \<Longrightarrow> observed_in t j" by auto
qed

lemma observe_one_recorded:
  assumes "moka (env_externs E)"
  shows "keeps (\<lambda>l l'. recorded l \<longrightarrow> recorded l') (observe_one E i)"
  unfolding keeps_def
proof
  fix l :: listener
  obtain t evs r where o: "observe_chain_verification (env_externs E) (env_at E i) (l_store l) i = (t, evs, r)"
    by (metis prod_cases3)
  show "recorded l \<longrightarrow> recorded (fst (observe_one E i l))"
    using observe_observed [OF assms o] by (auto simp: observe_one_def o recorded_def)
qed

section \<open>The active window\<close>

text \<open>
  What the chain holds: the identifiers submitted at each height, those already finalized, and
  the validator set hash in each header. A node answers truthfully when the recovery query misses
  no pending request and the header hash is the one of the chain; a committed block lists the
  requests of its height.
\<close>

record chain_truth =
  submitted :: "nat \<Rightarrow> verification_id set"
  finalized :: "verification_id set"
  set_hash :: "nat \<Rightarrow> bytes"

definition truthful :: "chain_truth \<Rightarrow> 'x store_externs_scheme listener_env \<Rightarrow> bool" where
  "truthful T E \<longleftrightarrow>
     moka (env_externs E) \<and> env_updater E \<noteq> None \<and>
     (\<forall>h out. proofs_by_height (env_externs E) (env_node E) h = Inr out \<longrightarrow>
        submitted T h - finalized T \<subseteq> chain_verification_id ` set out) \<and>
     (\<forall>h v. client_validators_hash (env_node E) h = Inr v \<longrightarrow> v = set_hash T h)"

definition truthful_block :: "chain_truth \<Rightarrow> 'x store_externs_scheme listener_env \<Rightarrow> committed_block \<Rightarrow> bool" where
  "truthful_block T E b \<longleftrightarrow>
     block_validators_hash b = set_hash T (block_height b) \<and>
     (\<forall>ids. parse_proof_events (env_externs E) (env_hex_decode E) b = Inr ids \<longrightarrow>
        submitted T (block_height b) \<subseteq> set ids)"

definition window_seen :: "chain_truth \<Rightarrow> listener \<Rightarrow> nat \<Rightarrow> bool" where
  "window_seen T l H \<longleftrightarrow> (\<forall>h \<in> set (active_heights H). submitted T h - finalized T \<subseteq> set (l_observed l))"

definition listener_inv :: "chain_truth \<Rightarrow> listener \<Rightarrow> bool" where
  "listener_inv T l \<longleftrightarrow>
     recorded l \<and> (case last_height l of None \<Rightarrow> True | Some H \<Rightarrow> window_seen T l H) \<and>
     validators_hash l = (if replaced_at l = [] then None else Some (set_hash T (last (replaced_at l))))"

text \<open>Steps that only observe keep the invariant and every window already seen.\<close>

definition observing :: "listener \<Rightarrow> listener \<Rightarrow> bool" where
  "observing l l' \<longleftrightarrow> only_observes l l' \<and> (recorded l \<longrightarrow> recorded l')"

lemma observing_order: "reflp observing" "transp observing"
  by (auto simp: observing_def only_observes_def reflp_def transp_def)

lemma observe_all_observing: "moka (env_externs E) \<Longrightarrow> keeps observing (observe_all E is)"
proof (induction "is")
  case (Cons i "is")
  have "keeps observing (observe_one E i)"
    using observe_one_keeps [of E i] observe_one_recorded [OF Cons.prems, of i]
    by (simp add: keeps_def observing_def)
  with Cons show ?case by (auto intro!: keeps_bind observing_order)
qed (auto intro!: keeps_pure observing_order)

lemma reconcile_observing: "moka (env_externs E) \<Longrightarrow> keeps observing (reconcile_active_window E H)"
proof -
  assume X: "moka (env_externs E)"
  have "keeps observing (reconcile_heights E hs)" for hs
    by (induction hs) (auto intro!: keeps_pure keeps_bind observe_all_observing [OF X] observing_order)
  then show ?thesis by (simp add: reconcile_active_window_def)
qed

lemma observing_inv: "observing l l' \<Longrightarrow> listener_inv T l \<Longrightarrow> listener_inv T l'"
  by (auto simp: observing_def only_observes_def listener_inv_def window_seen_def split: option.splits)

lemma observing_window: "observing l l' \<Longrightarrow> window_seen T l H \<Longrightarrow> window_seen T l' H"
  by (auto simp: observing_def only_observes_def window_seen_def)

lemma reconcile_window:
  assumes "truthful T E" "reconcile_active_window E H l = (l', Inr u)"
  shows "window_seen T l' H"
proof -
  have "submitted T h - finalized T \<subseteq> set (l_observed l')"
    if "reconcile_heights E hs l = (l', Inr u)" "h \<in> set hs" for hs h l
    using that
  proof (induction hs arbitrary: l)
    case (Cons k hs)
    then obtain ps l1 u1 where q: "proofs_by_height (env_externs E) (env_node E) k = Inr ps"
      and o: "observe_all E (map chain_verification_id ps) l = (l1, Inr u1)"
      and r: "reconcile_heights E hs l1 = (l', Inr u)"
      by (auto simp: bind_l_Inr)
    have "set (l_observed l1) \<subseteq> set (l_observed l')"
      using keepsD [OF reconcile_heights_keeps r] by (simp add: only_observes_def)
    moreover have "submitted T k - finalized T \<subseteq> set (l_observed l1)"
      using observe_all_done [OF o] q assms(1) by (fastforce simp: truthful_def)
    ultimately show ?case using Cons.IH [OF r] Cons.prems(2) by auto
  qed simp
  with assms(2) show ?thesis by (auto simp: window_seen_def reconcile_active_window_def)
qed

text \<open>The window of the next block is the one before it, shifted by its own height.\<close>

lemma window_next:
  assumes "window_seen T l H" "K \<le> Suc H" "submitted T K \<subseteq> set (l_observed l)"
    "H < K"
  shows "window_seen T l K"
  unfolding window_seen_def
proof
  fix h
  assume "h \<in> set (active_heights K)"
  then have "h = K \<or> h \<in> set (active_heights H)"
    using assms(2,4) by (auto simp: active_heights_def ACTIVE_PROOF_HEIGHTS_def)
  with assms(1,3) show "submitted T h - finalized T \<subseteq> set (l_observed l)"
    by (auto simp: window_seen_def)
qed

text \<open>
  A step from a state with \<open>P\<close> ends in an error with the invariant, or with a value and \<open>Q\<close>.
\<close>

definition triple ::
  "chain_truth \<Rightarrow> (listener \<Rightarrow> bool) \<Rightarrow> 'a listener_step \<Rightarrow> ('a \<Rightarrow> listener \<Rightarrow> bool) \<Rightarrow> bool" where
  "triple T P m Q \<longleftrightarrow>
     (\<forall>l. P l \<longrightarrow> (case m l of (l', Inl e) \<Rightarrow> listener_inv T l' | (l', Inr x) \<Rightarrow> Q x l'))"

named_theorems triples

lemma triple_bind [triples]:
  assumes "triple T P m Q" "\<And>x. triple T (Q x) (f x) R"
  shows "triple T P (bind_l m f) R"
  unfolding triple_def
proof (intro allI impI)
  fix l
  assume "P l"
  obtain l1 r where m: "m l = (l1, r)" by force
  show "case bind_l m f l of (l', Inl e) \<Rightarrow> listener_inv T l' | (l', Inr x) \<Rightarrow> R x l'"
  proof (cases r)
    case (Inl e)
    then show ?thesis using \<open>P l\<close> assms(1) m by (auto simp: triple_def bind_l_def split: prod.splits)
  next
    case (Inr x)
    then have "Q x l1" using \<open>P l\<close> assms(1) m by (auto simp: triple_def split: prod.splits)
    with assms(2) [of x] Inr m show ?thesis by (auto simp: triple_def bind_l_def split: prod.splits)
  qed
qed

lemma triple_pure:
  assumes "\<And>l. P l \<Longrightarrow> listener_inv T l" "\<And>l x. P l \<Longrightarrow> r = Inr x \<Longrightarrow> Q x l"
  shows "triple T P (pure_l r) Q"
  using assms by (auto simp: triple_def pure_l_def split: sum.split)

lemma triple_skip: "(\<And>l. P l \<Longrightarrow> Q () l) \<Longrightarrow> triple T P (pure_l (Inr ())) Q"
  by (auto simp: triple_def pure_l_def)

lemma triple_upd: "(\<And>l. P l \<Longrightarrow> Q () (f l)) \<Longrightarrow> triple T P (upd_l f) Q"
  by (auto simp: triple_def upd_l_def)

lemma triple_state:
  assumes "\<And>l0. P l0 \<Longrightarrow> triple T (\<lambda>l. l = l0) (m l0) Q"
  shows "triple T P (\<lambda>l. m l l) Q"
  using assms by (auto simp: triple_def)

lemma triple_weaken: "triple T P m Q \<Longrightarrow> (\<And>l. P' l \<Longrightarrow> P l) \<Longrightarrow> triple T P' m Q"
  by (auto simp: triple_def)

lemma triple_observing:
  assumes "keeps observing m" "\<And>l. P l \<Longrightarrow> listener_inv T l"
    "\<And>l l' x. P l \<Longrightarrow> observing l l' \<Longrightarrow> m l = (l', Inr x) \<Longrightarrow> Q x l'"
  shows "triple T P m Q"
  unfolding triple_def
proof (intro allI impI)
  fix l
  assume "P l"
  obtain l' r where m: "m l = (l', r)" by force
  have "observing l l'" using keepsD [OF assms(1) m] .
  with \<open>P l\<close> assms(2,3) m observing_inv [of l l' T]
  show "case m l of (l', Inl e) \<Rightarrow> listener_inv T l' | (l', Inr x) \<Rightarrow> Q x l'"
    by (cases r) auto
qed

text \<open>The set was just installed whose hash is about to be remembered.\<close>

definition installed :: "chain_truth \<Rightarrow> bytes \<Rightarrow> listener \<Rightarrow> bool" where
  "installed T hash l \<longleftrightarrow>
     recorded l \<and> (case last_height l of None \<Rightarrow> True | Some H \<Rightarrow> window_seen T l H) \<and>
     replaced_at l \<noteq> [] \<and> set_hash T (last (replaced_at l)) = hash"

lemma replace_set_triple:
  assumes "hash = set_hash T h" "\<And>l. W l \<Longrightarrow> W (l\<lparr>replaced_at := replaced_at l @ [h]\<rparr>)"
  shows "triple T (\<lambda>l. listener_inv T l \<and> W l) (replace_set updater h) (\<lambda>_ l. installed T hash l \<and> W l)"
  unfolding replace_set_def
  by (rule triples, rule triple_pure [where Q = "\<lambda>_ l. listener_inv T l \<and> W l"], simp, simp, rule triple_upd)
     (use assms in \<open>auto simp: listener_inv_def installed_def recorded_def window_seen_def split: option.splits\<close>)

lemma remember_hash: "installed T hash l \<Longrightarrow> listener_inv T (l\<lparr>validators_hash := Some hash\<rparr>)"
  by (auto simp: installed_def listener_inv_def recorded_def window_seen_def split: option.splits)

lemma unchanged_hash: "listener_inv T l \<Longrightarrow> \<not> validator_set_changed (validators_hash l) hash \<Longrightarrow> installed T hash l"
  by (auto simp: installed_def listener_inv_def validator_set_changed_def split: if_splits)

text \<open>Replacing the set when its hash changed: afterwards the set with this hash is installed.\<close>

lemma install_triple:
  assumes "hash = set_hash T h" "\<And>l. W l \<Longrightarrow> W (l\<lparr>replaced_at := replaced_at l @ [h]\<rparr>)"
  shows "triple T (\<lambda>l. listener_inv T l \<and> W l)
    (\<lambda>l. (if validator_set_changed (validators_hash l) hash then replace_set updater h
         else pure_l (Inr ())) l) (\<lambda>_ l. installed T hash l \<and> W l)"
proof (rule triple_state [where m = "\<lambda>l. if validator_set_changed (validators_hash l) hash
    then replace_set updater h else pure_l (Inr ())"])
  fix l0
  assume l0: "listener_inv T l0 \<and> W l0"
  show "triple T (\<lambda>l. l = l0) (if validator_set_changed (validators_hash l0) hash then replace_set updater h
      else pure_l (Inr ())) (\<lambda>_ l. installed T hash l \<and> W l)"
    using triple_weaken [OF replace_set_triple [where W = W, OF assms], of "\<lambda>l. l = l0" updater] l0
      unchanged_hash [of T l0 hash]
    by (auto intro!: triple_skip)
qed

lemma initialize_triple:
  assumes E: "truthful T E"
  shows "triple T (listener_inv T) (initialize E) (\<lambda>_ l. listener_inv T l \<and> last_height l \<noteq> None)"
proof -
  have X: "moka (env_externs E)" using E by (simp add: truthful_def)
  obtain updater where U: "env_updater E = Some updater" using E by (auto simp: truthful_def)
  have rec: "triple T (listener_inv T) (reconcile_active_window E latest)
      (\<lambda>_ l. listener_inv T l \<and> window_seen T l latest)" for latest
    by (rule triple_observing [OF reconcile_observing [OF X]])
       (use observing_inv reconcile_window [OF E] in blast)+
  have hash: "triple T (\<lambda>l. listener_inv T l \<and> window_seen T l latest)
      (pure_l (client_validators_hash (env_node E) latest))
      (\<lambda>v l. v = set_hash T latest \<and> listener_inv T l \<and> window_seen T l latest)" for latest
    by (rule triple_pure) (use E in \<open>auto simp: truthful_def\<close>)
  have install: "triple T (\<lambda>l. v = set_hash T latest \<and> listener_inv T l \<and> window_seen T l latest)
      (\<lambda>l. (if validator_set_changed (validators_hash l) v then replace_set updater latest
           else pure_l (Inr ())) l) (\<lambda>_ l. installed T v l \<and> window_seen T l latest)" for v latest
    using install_triple [where W = "\<lambda>l. window_seen T l latest" and hash = v and h = latest and T = T and updater = updater]
    by (cases "v = set_hash T latest") (auto simp: triple_def window_seen_def)
  show ?thesis
    unfolding initialize_def U option.case
    by (rule triples, rule triple_pure [where Q = "\<lambda>_. listener_inv T"], assumption, assumption,
        rule triples, rule rec, rule triples [where Q = "\<lambda>_ l. listener_inv T l \<and> window_seen T l _"],
        rule triples, rule hash, rule triples, rule install, rule triple_upd)
       (auto intro!: triple_upd remember_hash simp: window_seen_def,
        auto simp: listener_inv_def recorded_def window_seen_def)
qed

text \<open>Ready for the block at height \<open>K\<close>: its window is seen, or it is the next one.\<close>

definition near :: "chain_truth \<Rightarrow> nat \<Rightarrow> listener \<Rightarrow> bool" where
  "near T K l \<longleftrightarrow> listener_inv T l \<and>
     (\<exists>H. last_height l = Some H \<and> (H < K \<longrightarrow> K \<le> Suc H \<or> window_seen T l K))"

lemma near_inv: "near T K l \<Longrightarrow> listener_inv T l"
  by (simp add: near_def)

lemma near_observing: "near T K l \<Longrightarrow> observing l l' \<Longrightarrow> near T K l'"
  using observing_inv [of l l' T] observing_window [of l l' T K]
  by (auto simp: near_def observing_def only_observes_def)

lemma triple_frame: "triple T P m Q \<Longrightarrow> triple T (\<lambda>l. C \<and> P l) m (\<lambda>x l. C \<and> Q x l)"
  by (cases C) (auto simp: triple_def)

lemma triple_post:
  assumes "triple T P m Q" "\<And>x l. Q x l \<Longrightarrow> R x l"
  shows "triple T P m R"
  unfolding triple_def
proof (intro allI impI)
  fix l
  assume "P l"
  with assms(1) have "case m l of (l', Inl e) \<Rightarrow> listener_inv T l' | (l', Inr x) \<Rightarrow> Q x l'"
    by (auto simp: triple_def)
  with assms(2) show "case m l of (l', Inl e) \<Rightarrow> listener_inv T l' | (l', Inr x) \<Rightarrow> R x l'"
    by (auto split: prod.splits sum.splits)
qed

lemma recover_gap_triple:
  assumes E: "truthful T E"
  shows "triple T (\<lambda>l. listener_inv T l \<and> last_height l \<noteq> None) (recover_gap E b) (\<lambda>_. near T (block_height b))"
  unfolding recover_gap_def
proof (rule triple_state [where m = "\<lambda>l. if (case last_height l of None \<Rightarrow> False
    | Some h \<Rightarrow> block_height b > saturating_add_u64 h 1) then reconcile_active_window E (block_height b) else pure_l (Inr ())"])
  fix l0
  assume l0: "listener_inv T l0 \<and> last_height l0 \<noteq> None"
  have X: "moka (env_externs E)" using E by (simp add: truthful_def)
  have "triple T (\<lambda>l. l = l0) (reconcile_active_window E (block_height b)) (\<lambda>_. near T (block_height b))"
  proof (rule triple_observing [OF reconcile_observing [OF X]])
    fix l l' x
    assume l: "l = l0" "observing l l'" "reconcile_active_window E (block_height b) l = (l', Inr x)"
    have "last_height l' = last_height l0" using l(1,2) by (simp add: observing_def only_observes_def)
    with l l0 show "near T (block_height b) l'"
      using reconcile_window [OF E l(3)] observing_inv [OF l(2)] by (auto simp: near_def)
  qed (use l0 in simp)
  moreover have "near T (block_height b) l0"
    if "\<not> (case last_height l0 of None \<Rightarrow> False | Some h \<Rightarrow> block_height b > saturating_add_u64 h 1)"
    using that l0 by (auto simp: near_def saturating_add_u64_def)
  ultimately show "triple T (\<lambda>l. l = l0) (if (case last_height l0 of None \<Rightarrow> False
      | Some h \<Rightarrow> block_height b > saturating_add_u64 h 1) then reconcile_active_window E (block_height b)
      else pure_l (Inr ())) (\<lambda>_. near T (block_height b))"
    by (auto intro!: triple_skip)
qed

lemma advance_to_triple:
  assumes E: "truthful T E" and b: "truthful_block T E b"
  shows "triple T (\<lambda>l. near T (block_height b) l \<and> submitted T (block_height b) \<subseteq> set (l_observed l))
    (advance_to E b) (\<lambda>_ l. listener_inv T l \<and> last_height l \<noteq> None)"
proof -
  let ?K = "block_height b" and ?v = "block_validators_hash b"
  obtain updater where U: "env_updater E = Some updater" using E by (auto simp: truthful_def)
  have last: "triple T (\<lambda>l. installed T ?v l \<and> window_seen T l ?K)
      (upd_l (\<lambda>l. l\<lparr>validators_hash := Some ?v, last_height := Some ?K\<rparr>))
      (\<lambda>_ l. listener_inv T l \<and> last_height l \<noteq> None)"
    by (rule triple_upd) (auto simp: installed_def listener_inv_def recorded_def window_seen_def)
  have inst: "triple T (\<lambda>l. l = l0) (if validator_set_changed (validators_hash l0) ?v
      then replace_set updater ?K else pure_l (Inr ())) (\<lambda>_ l. installed T ?v l \<and> window_seen T l ?K)"
    if "listener_inv T l0" "window_seen T l0 ?K" for l0
    using install_triple [where W = "\<lambda>l. window_seen T l ?K" and hash = ?v and h = ?K
        and T = T and updater = updater] b that
    by (auto simp: triple_def truthful_block_def window_seen_def)
  have main: "triple T (\<lambda>l. l = l0) (advance_to E b) (\<lambda>_ l. listener_inv T l \<and> last_height l \<noteq> None)"
    if l0: "near T ?K l0" "submitted T ?K \<subseteq> set (l_observed l0)" for l0
  proof -
    obtain H where H: "last_height l0 = Some H" "H < ?K \<longrightarrow> ?K \<le> Suc H \<or> window_seen T l0 ?K"
      using l0 by (auto simp: near_def)
    have "window_seen T l0 ?K" if "H < ?K"
      using H(2) that l0 window_next [of T l0 H ?K] near_inv [OF l0(1)] H(1) by (auto simp: listener_inv_def)
    with triple_bind [OF inst last, of l0] near_inv [OF l0(1)] H(1) show ?thesis
      by (auto simp: triple_def advance_to_def U pure_l_def)
  qed
  show ?thesis using main by (auto simp: triple_def)
qed

lemma process_block_triple:
  assumes E: "truthful T E" and b: "truthful_block T E b"
  shows "triple T (\<lambda>l. listener_inv T l \<and> last_height l \<noteq> None) (process_block E b)
    (\<lambda>_ l. listener_inv T l \<and> last_height l \<noteq> None)"
proof -
  have X: "moka (env_externs E)" using E by (simp add: truthful_def)
  have parse: "triple T (\<lambda>l. listener_inv T l \<and> last_height l \<noteq> None)
      (pure_l (parse_proof_events (env_externs E) (env_hex_decode E) b))
      (\<lambda>ids l. submitted T (block_height b) \<subseteq> set ids \<and> listener_inv T l \<and> last_height l \<noteq> None)"
    by (rule triple_pure) (use b in \<open>auto simp: truthful_block_def\<close>)
  have "triple T (near T (block_height b)) (observe_all E ids)
      (\<lambda>_ l. near T (block_height b) l \<and> set ids \<subseteq> set (l_observed l))" for ids
    by (rule triple_observing [OF observe_all_observing [OF X]])
       (use near_observing near_inv observe_all_done in blast)+
  then have obs: "triple T (\<lambda>l. submitted T (block_height b) \<subseteq> set ids \<and> near T (block_height b) l) (observe_all E ids)
      (\<lambda>_ l. near T (block_height b) l \<and> submitted T (block_height b) \<subseteq> set (l_observed l))" for ids
    by (rule triple_post [OF triple_frame]) auto
  show ?thesis
    unfolding process_block_def
    by (rule triples, rule parse, rule triples, rule triple_frame [OF recover_gap_triple [OF E]],
        rule triples, rule obs, rule advance_to_triple [OF assms])
qed

section \<open>Whole runs\<close>

definition truthful_input :: "chain_truth \<Rightarrow> 'x store_externs_scheme listener_env stream_input \<Rightarrow> bool" where
  "truthful_input T i =
     (case i of
        StopInput \<Rightarrow> True
      | BlockInput E item \<Rightarrow>
          truthful T E \<and> (case item of Inr (Some b) \<Rightarrow> truthful_block T E b | _ \<Rightarrow> True))"

definition truthful_session :: "chain_truth \<Rightarrow> 'x store_externs_scheme listener_env session \<Rightarrow> bool" where
  "truthful_session T sess \<longleftrightarrow>
     (case session_init sess of InitCancelled E ids \<Rightarrow> moka (env_externs E) | InitRun E \<Rightarrow> truthful T E) \<and>
     list_all (truthful_input T) (session_inputs sess)"

definition fresh_listener :: "store \<Rightarrow> listener" where
  "fresh_listener s =
     \<lparr>l_store = s, l_events = [], l_observed = [], last_height = None, validators_hash = None,
      l_ready = False, replaced_at = []\<rparr>"

lemma listener_inv_ready [simp]: "listener_inv T (l\<lparr>l_ready := x\<rparr>) = listener_inv T l"
  by (simp add: listener_inv_def recorded_def window_seen_def split: option.split)

lemma tripleD:
  assumes "triple T P m Q" "P l" "m l = (l', r)"
  shows "case r of Inl e \<Rightarrow> listener_inv T l' | Inr x \<Rightarrow> Q x l'"
  using assms by (auto simp: triple_def split: sum.splits)

lemma session_loop_inv:
  assumes "listener_inv T l" "last_height l \<noteq> None" "list_all (truthful_input T) ins"
    "session_loop close ins l = (l', r)"
  shows "listener_inv T l'"
  using assms
proof (induction close ins l rule: session_loop.induct)
  case (3 close E item ins l)
  show ?case
  proof (cases "\<exists>b. item = Inr (Some b)")
    case True
    then obtain b where b: "item = Inr (Some b)" ..
    obtain l1 r1 where p: "process_block E b l = (l1, r1)" by force
    have "truthful T E" "truthful_block T E b" using "3.prems"(3) b by (simp_all add: truthful_input_def)
    from tripleD [OF process_block_triple [OF this] _ p] "3.prems" b p "3.IH"
    show ?thesis by (cases r1) auto
  next
    case False
    with "3.prems" show ?thesis by (auto split: sum.splits option.splits)
  qed
qed auto

lemma run_session_inv:
  assumes l: "listener_inv T l" and sess: "truthful_session T sess" and run: "run_session sess l = (l', r)"
  shows "listener_inv T l'"
proof (cases "session_init sess")
  case (InitCancelled E ids)
  then have "moka (env_externs E)" using sess by (simp add: truthful_session_def)
  then have "observing l (fst (observe_all E ids l))"
    using observe_all_observing by (auto simp: keeps_def)
  with observing_inv [OF _ l] l run InitCancelled show ?thesis
    by (auto simp: run_session_def split: option.splits sum.splits)
next
  case (InitRun E)
  then have E: "truthful T E" using sess by (simp add: truthful_session_def)
  obtain l1 r1 where i: "initialize E l = (l1, r1)" by force
  from tripleD [OF initialize_triple [OF E] l i] l run InitRun sess
    session_loop_inv [of T "l1\<lparr>l_ready := True\<rparr>" "session_inputs sess" "session_close sess" l' r]
  show ?thesis
    by (auto simp: run_session_def i truthful_session_def split: option.splits sum.splits)
qed

lemma run_listener_inv:
  assumes "listener_inv T l" "list_all (\<lambda>(sess, _). truthful_session T sess) script"
    "run_listener cfg script backoff l = (l', delays, r)"
  shows "listener_inv T l'"
  using assms
proof (induction cfg script backoff l arbitrary: delays r rule: run_listener.induct)
  case (2 cfg sess draw stopped rest backoff l)
  obtain l1 r1 where s: "run_session sess l = (l1, r1)" by force
  have inv: "listener_inv T l1" using run_session_inv [OF _ _ s] "2.prems" by simp
  show ?case
  proof (cases "\<exists>e established. r1 = Some (Inr (Reconnect e established)) \<and> \<not> stopped")
    case True
    then obtain e established where r1: "r1 = Some (Inr (Reconnect e established))" "\<not> stopped" by auto
    obtain d where "run_listener cfg rest (next_backoff cfg
        (if established then reconnect_initial_backoff cfg else backoff)) l1 = (l', d, r)"
      using "2.prems"(3) r1 by (auto simp: s Let_def split: prod.splits)
    with "2.IH" [OF s [symmetric] r1(1) refl refl refl refl r1(2) inv] "2.prems"(2) show ?thesis by auto
  next
    case False
    with "2.prems"(3) inv s show ?thesis
      by (auto simp: Let_def split: option.splits sum.splits session_exit.splits)
  qed
qed simp

lemma full_jitter_le: "full_jitter maximum draw \<le> maximum"
proof -
  have "draw mod Suc (min (maximum div 1000000) (u64_bound - 1)) \<le> maximum div 1000000"
    by (meson mod_less_divisor less_Suc_eq_le min.bounded_iff zero_less_Suc)
  then have "full_jitter maximum draw \<le> maximum div 1000000 * 1000000"
    by (simp add: full_jitter_def from_millis_def Let_def)
  also have "\<dots> \<le> maximum" by simp
  finally show ?thesis .
qed

lemma next_backoff_le: "next_backoff cfg b \<le> reconnect_max_backoff cfg"
  by (simp add: next_backoff_def)

text \<open>How a session ends with an error.\<close>

lemma fail_session_Inl [simp]: "fail_session e b = Inl e' \<longleftrightarrow> e' = e \<and> is_fatal e"
  by (auto simp: fail_session_def)

lemma stop_session_Inl [simp]: "stop_session c = Inl e \<longleftrightarrow> c = Inl e"
  by (cases c) (auto simp: stop_session_def)

lemma session_loop_error:
  "session_loop close ins l = (l', Some (Inl e)) \<Longrightarrow> is_fatal e \<or> close = Inl e"
  by (induction close ins l rule: session_loop.induct)
     (auto split: sum.splits option.splits prod.splits)

lemma run_session_error: "run_session sess l = (l', Some (Inl e)) \<Longrightarrow> is_fatal e \<or> session_close sess = Inl e"
  by (auto simp: run_session_def dest!: session_loop_error
      split: option.splits sum.splits init_run.splits prod.splits)

lemma run_listener_bounds:
  assumes "reconnect_initial_backoff cfg \<le> reconnect_max_backoff cfg" "backoff \<le> reconnect_max_backoff cfg"
    "run_listener cfg script backoff l = (l', delays, r)"
  shows "list_all (\<lambda>d. d \<le> reconnect_max_backoff cfg) delays \<and>
    (\<forall>e. r = Some (Inl e) \<longrightarrow> is_fatal e \<or> Inl e \<in> (session_close \<circ> fst) ` set script)"
  using assms
proof (induction cfg script backoff l arbitrary: delays rule: run_listener.induct)
  case (2 cfg sess draw stopped rest backoff l)
  obtain l1 r1 where s: "run_session sess l = (l1, r1)" by force
  show ?case
  proof (cases "\<exists>e established. r1 = Some (Inr (Reconnect e established))")
    case True
    then obtain e established where r1: "r1 = Some (Inr (Reconnect e established))" by auto
    let ?b = "if established then reconnect_initial_backoff cfg else backoff"
    have d: "full_jitter ?b draw \<le> reconnect_max_backoff cfg"
      using full_jitter_le [of ?b draw] "2.prems"(1,2) by (auto split: if_splits)
    show ?thesis
    proof (cases stopped)
      case True
      with "2.prems"(3) d r1 show ?thesis by (auto simp: s Let_def)
    next
      case False
      obtain ds where rec: "run_listener cfg rest (next_backoff cfg ?b) l1 = (l', ds, r)"
        and ds: "delays = full_jitter ?b draw # ds"
        using "2.prems"(3) r1 False by (auto simp: s Let_def split: prod.splits)
      from "2.IH" [OF s [symmetric] r1 refl refl refl refl False "2.prems"(1) next_backoff_le rec] d ds
      show ?thesis by auto
    qed
  next
    case False
    with "2.prems"(3) run_session_error [of sess l l1] s show ?thesis
      by (auto split: option.splits sum.splits session_exit.splits)
  qed
qed simp

text \<open>A closed run: one session at height 1, whose recovery query serves one pending request.\<close>

definition demo_descriptor :: proof_descriptor where
  "demo_descriptor =
     \<lparr>desc_proof_type = proof_type_to_i32 (proof_type demo_proof),
      desc_proof_hash = demo_sha256 (proof_bytes demo_proof),
      desc_public_inputs_hash = demo_sha256 (public_inputs demo_proof),
      desc_verification_key_hash = demo_sha256 (verification_key demo_proof),
      desc_verification_id = as_bytes demo_id\<rparr>"

definition demo_response :: query_proof_response where
  "demo_response =
     \<lparr>response_key = Some \<lparr>submission_height = 1, index_in_block = 0\<rparr>,
      response_state = Some (Pending demo_descriptor)\<rparr>"

definition demo_node :: comet where
  "demo_node =
     \<lparr>comet_status = Answered (Inr \<lparr>network = ''pulsar'', catching_up = False, latest_block_height = 1\<rparr>),
      comet_broadcast = (\<lambda>_. TimedOut), comet_validators = (\<lambda>_. TimedOut),
      comet_block = (\<lambda>h. Answered (Inr \<lparr>header_height = h, header_validators_hash = replicate 32 0\<rparr>)),
      abci_query = (\<lambda>_ _ _ _. Answered (Inr \<lparr>abci_height = 1, abci_code = 0, abci_log = [], abci_value = []\<rparr>)),
      height_try_from = (\<lambda>h. Inr h), encode_page_request = (\<lambda>_. []),
      decode_proofs_page = (\<lambda>_. Inr \<lparr>page_proofs = [demo_response], page_next_key = None\<rparr>)\<rparr>"

definition demo_client :: pulsar_client where
  "demo_client = \<lparr>client_chain_id = ''pulsar'', client_rpc_url = ''http://localhost'', client_timeout = 1\<rparr>"

definition demo_env :: "store_externs listener_env" where
  "demo_env =
     \<lparr>env_externs = demo_store_externs, env_hex_decode = (\<lambda>_. Inr []), env_node = demo_node,
      env_client = demo_client, env_at = (\<lambda>_. 1), env_updater = Some (\<lambda>_. Inr ())\<rparr>"

definition demo_truth :: chain_truth where
  "demo_truth =
     \<lparr>submitted = (\<lambda>h. if h = 1 then {demo_id} else {}), finalized = {}, set_hash = (\<lambda>_. replicate 32 0)\<rparr>"

definition demo_script :: "(store_externs listener_env session \<times> nat \<times> bool) list" where
  "demo_script =
     [(\<lparr>session_subscribe = Some (Inr ()), session_init = InitRun demo_env,
        session_inputs = [StopInput], session_close = Inr ()\<rparr>, 0, False)]"

lemma demo_descriptor_ok: "descriptor_ok demo_store_externs demo_descriptor"
  using demo_store_laws(2) verification_id_wf [OF demo_store_laws(2), of demo_proof]
  by (auto simp: descriptor_ok_def demo_descriptor_def demo_id_def verification_id_def sha256_len_def)

lemma demo_proofs:
  "proofs_by_height demo_store_externs demo_node 1 =
     Inr [\<lparr>chain_verification_id = demo_id, chain_submission_height = 1, chain_index_in_block = 0\<rparr>]"
proof -
  have "pages_from demo_node 1 [] None [[]] [demo_response]"
    by (subst pages_from_simps)
       (simp add: query_page_def demo_node_def with_timeout_def pin_query_height_def)
  moreover have "records_ok demo_store_externs 1 [demo_response]"
    by (simp add: records_ok_def response_ok_def demo_response_def demo_descriptor_ok)
  ultimately show ?thesis
    unfolding proofs_by_height_iff
    by (intro conjI exI [of _ "[[]]"] exI [of _ "[demo_response]"])
       (simp_all add: map_filter_simps response_proof_def demo_response_def demo_descriptor_def)
qed

lemma demo_truthful: "truthful demo_truth demo_env"
proof -
  have "submitted demo_truth h \<subseteq> chain_verification_id ` set out"
    if "proofs_by_height demo_store_externs demo_node h = Inr out" for h out
    using that demo_proofs by (auto simp: demo_truth_def)
  moreover have "client_validators_hash demo_node h = Inr (replicate 32 0)" for h
    by (simp add: client_validators_hash_def demo_node_def with_timeout_def)
  ultimately show ?thesis
    using demo_moka by (auto simp: truthful_def demo_env_def demo_truth_def)
qed

lemma demo_run:
  "\<exists>l. run_listener demo_cfg demo_script b (fresh_listener demo_store0) = (l, [], Some (Inr ())) \<and>
     last_height l = Some 1"
proof -
  obtain t evs r where o: "observe_chain_verification demo_store_externs 1 demo_store0 demo_id = (t, evs, r)"
    by (metis prod_cases3)
  have r: "is_ok r" using observe_observed(1) [OF demo_moka o] .
  then obtain c where c: "r = Inr c" by (cases r) auto
  let ?l0 = "fresh_listener demo_store0"
  let ?l1 = "?l0\<lparr>l_store := t, l_events := evs, l_observed := [demo_id]\<rparr>"
  have h: "active_heights 1 = [1]" by (simp add: active_heights_def ACTIVE_PROOF_HEIGHTS_def upt_rec)
  have sel: "env_externs demo_env = demo_store_externs" "env_node demo_env = demo_node" "env_at demo_env i = 1"
    "env_client demo_env = demo_client" "env_updater demo_env = Some (\<lambda>_. Inr ())" for i
    by (simp_all add: demo_env_def)
  have rec: "reconcile_active_window demo_env 1 ?l0 = (?l1, Inr ())"
    using demo_proofs o c
    by (simp add: reconcile_active_window_def h bind_l_def pure_l_def sel observe_one_def fresh_listener_def
        del: One_nat_def)
  have st: "client_status demo_node demo_client = Inr 1"
    by (simp add: client_status_def demo_node_def demo_client_def with_timeout_def)
  have vh: "client_validators_hash demo_node h = Inr (replicate 32 0)" for h
    by (simp add: client_validators_hash_def demo_node_def with_timeout_def)
  have fields: "validators_hash ?l1 = None" by (simp add: fresh_listener_def)
  have "\<exists>l. initialize demo_env ?l0 = (l, Inr ()) \<and> last_height l = Some 1"
    unfolding initialize_def sel st option.case bind_l_def pure_l_def prod.case sum.case rec vh
    by (simp add: validator_set_changed_def replace_set_def bind_l_def pure_l_def upd_l_def fields)
  then show ?thesis
    by (auto simp: demo_script_def run_session_def stop_session_def)
qed





end
