(* ===== verification/P2p_Messages.thy ===== *)
theory P2p_Messages
  imports Chain_Client Contract
begin

text \<open>
  What the peers know of each other and what they say: the identity of a validator
  (\<open>src/p2p/identity.rs\<close>), the set of authorized peers at a height
  (\<open>src/p2p/authorization.rs\<close>), the provider index and the availability messages
  (\<open>src/p2p/availability.rs\<close>), their deduplication (\<open>semantic_message_id\<close> of
  \<open>src/p2p/behaviour.rs\<close>) and the framing of the proof exchange (\<open>src/p2p/codec.rs\<close>). A
  \<open>HashSet\<close> is a set; where the code visits one in an unspecified order the model visits it in
  the order of its elements, which decides only which of several errors is reported.
\<close>

unbundle bit_operations_syntax

section \<open>Identities\<close>

definition ED25519_PUBLIC_KEY_LEN :: nat where "ED25519_PUBLIC_KEY_LEN = 32"

definition ED25519_COMET_PRIVATE_KEY_LEN :: nat where "ED25519_COMET_PRIVATE_KEY_LEN = 64"

definition ED25519_PUBLIC_TYPES :: "string list" where
  "ED25519_PUBLIC_TYPES = [''tendermint/PubKeyEd25519'', ''cometbft/PubKeyEd25519'']"

definition ED25519_PRIVATE_TYPES :: "string list" where
  "ED25519_PRIVATE_TYPES = [''tendermint/PrivKeyEd25519'', ''cometbft/PrivKeyEd25519'']"

record encoded_key =
  key_type :: string
  key_value :: string

record validator_key_file =
  key_address :: string
  pub_key :: encoded_key
  priv_key :: encoded_key

text \<open>
  The file system and the libraries behind the key file: \<open>fs::metadata\<close> answers whether the path
  is a regular file and its mode, \<open>serde_json\<close> and \<open>base64\<close> decode, and libp2p builds the keypair
  of a secret, gives its Ed25519 public key and the peer of a public key.
\<close>

record key_file_metadata =
  meta_is_file :: bool
  meta_mode :: "32 word"

record key_env =
  key_metadata :: "path \<Rightarrow> string + key_file_metadata"
  read_to_string :: "path \<Rightarrow> string + string"
  parse_key_file :: "string \<Rightarrow> string + validator_key_file"
  base64_decode :: "string \<Rightarrow> string + bytes"
  ed25519_from_bytes :: "bytes \<Rightarrow> string + bytes"
  try_into_ed25519 :: "bytes \<Rightarrow> string + bytes"
  ed25519_peer :: "bytes \<Rightarrow> string + peer_id"

record keypair =
  secret_key :: bytes
  public_key :: bytes

fun show_octal :: "nat \<Rightarrow> string" where
  "show_octal n = (if n < 8 then [char_of (48 + n)] else show_octal (n div 8) @ [char_of (48 + n mod 8)])"

definition ensure_key_type :: "string \<Rightarrow> string list \<Rightarrow> string \<Rightarrow> unit res" where
  "ensure_key_type actual expected label =
     (if actual \<in> set expected then Inr ()
      else Inl (P2pIdentity (''unsupported validator '' @ label @ '' key type: '' @ actual)))"

definition decode_key :: "key_env \<Rightarrow> string \<Rightarrow> nat \<Rightarrow> string \<Rightarrow> bytes res" where
  "decode_key E v expected_len label =
     bind_res (map_err (\<lambda>e. P2pIdentity (''invalid base64 '' @ label @ '' key: '' @ e)) (base64_decode E v))
       (\<lambda>decoded. if length decoded \<noteq> expected_len
         then Inl (P2pIdentity (label @ '' key must be '' @ show_nat expected_len @ '' bytes, got '' @
           show_nat (length decoded)))
         else Inr decoded)"

definition load_validator_identity :: "key_env \<Rightarrow> path \<Rightarrow> keypair res" where
  "load_validator_identity E path =
     bind_res (map_err (\<lambda>e. P2pIdentity (''failed to inspect '' @ path @ '': '' @ e)) (key_metadata E path))
       (\<lambda>metadata.
     if \<not> meta_is_file metadata
     then Inl (P2pIdentity (''validator key path is not a file: '' @ path))
     else if meta_mode metadata AND 63 \<noteq> 0
     then Inl (P2pIdentity (''validator key '' @ path @ '' must not be accessible by group or others (mode '' @
       show_octal (unat (meta_mode metadata AND 511)) @ '')''))
     else bind_res (map_err (\<lambda>e. P2pIdentity (''failed to read '' @ path @ '': '' @ e)) (read_to_string E path))
       (\<lambda>contents.
     bind_res (map_err (\<lambda>e. P2pIdentity (''failed to parse '' @ path @ '': '' @ e)) (parse_key_file E contents))
       (\<lambda>encoded.
     bind_res (ensure_key_type (key_type (pub_key encoded)) ED25519_PUBLIC_TYPES ''public'') (\<lambda>_.
     bind_res (ensure_key_type (key_type (priv_key encoded)) ED25519_PRIVATE_TYPES ''private'') (\<lambda>_.
     bind_res (decode_key E (key_value (pub_key encoded)) ED25519_PUBLIC_KEY_LEN ''public'') (\<lambda>public.
     bind_res (decode_key E (key_value (priv_key encoded)) ED25519_COMET_PRIVATE_KEY_LEN ''private'')
       (\<lambda>private.
     let secret = take ED25519_PUBLIC_KEY_LEN private in
     bind_res (map_err (\<lambda>e. P2pIdentity (''invalid Ed25519 private key: '' @ e)) (ed25519_from_bytes E secret))
       (\<lambda>pair.
     bind_res (map_err (\<lambda>e. P2pIdentity (''invalid Ed25519 public key: '' @ e)) (try_into_ed25519 E pair))
       (\<lambda>derived.
     if derived \<noteq> public
     then Inl (P2pIdentity ''validator public and private keys do not match'')
     else Inr \<lparr>secret_key = secret, public_key = derived\<rparr>)))))))))"

definition peer_id_from_ed25519 :: "key_env \<Rightarrow> bytes \<Rightarrow> peer_id res" where
  "peer_id_from_ed25519 E k =
     map_err (\<lambda>e. P2pAuthorization (''invalid validator key: '' @ e)) (ed25519_peer E k)"

section \<open>Authorized peers\<close>

definition load_at :: "key_env \<Rightarrow> comet \<Rightarrow> nat \<Rightarrow> peer_id set res" where
  "load_at E C height =
     bind_res (validator_public_keys C height) (\<lambda>keys.
     bind_res (collect_res (peer_id_from_ed25519 E) (sorted_list_of_set keys)) (\<lambda>peers.
       if card (set peers) \<noteq> card keys
       then Inl (P2pAuthorization ''validator set contains duplicate peer identities'')
       else Inr (set peers)))"

definition load_validator_set :: "key_env \<Rightarrow> comet \<Rightarrow> pulsar_client \<Rightarrow> peer_id set res" where
  "load_validator_set E C client = bind_res (client_status C client) (load_at E C)"

section \<open>Availability\<close>

definition QUERY_ID_LEN :: nat where "QUERY_ID_LEN = 16"

datatype query_id = QueryId (query_bytes: bytes)

text \<open>
  The protobuf message \<open>pulsar.verifier.v1.AvailabilityMessage\<close>, and the parameters: its
  codec, the parser and the text of a peer identifier, and the digest \<open>blake3\<close> in hexadecimal.
\<close>

datatype availability_payload =
    AvailabilityAnnouncement bytes
  | AvailabilityQuery bytes bytes
  | AvailabilityResponse bytes bytes "bytes list"

record availability_message =
  message_chain_id :: string
  message_payload :: "availability_payload option"

record p2p_codec =
  decode_availability :: "bytes \<Rightarrow> string + availability_message"
  encode_availability :: "availability_message \<Rightarrow> bytes"
  peer_from_bytes :: "bytes \<Rightarrow> string + peer_id"
  show_peer :: "peer_id \<Rightarrow> string"
  blake3_hex :: "bytes \<Rightarrow> string"

datatype validated_availability =
    Announcement verification_id
  | Query query_id verification_id
  | Response query_id verification_id "peer_id list"

type_synonym availability_index = "verification_id \<rightharpoonup> peer_id set"

definition add_provider :: "availability_index \<Rightarrow> verification_id \<Rightarrow> peer_id \<Rightarrow> availability_index" where
  "add_provider idx i p = idx(i \<mapsto> insert p (case idx i of None \<Rightarrow> {} | Some ps \<Rightarrow> ps))"

definition providers :: "availability_index \<Rightarrow> verification_id \<Rightarrow> peer_id list" where
  "providers idx i = (case idx i of None \<Rightarrow> [] | Some ps \<Rightarrow> sorted_list_of_set ps)"

definition remove_provider :: "availability_index \<Rightarrow> verification_id \<Rightarrow> peer_id \<Rightarrow> availability_index" where
  "remove_provider idx i p =
     (case idx i of
        None \<Rightarrow> idx
      | Some ps \<Rightarrow> if ps - {p} = {} then idx(i := None) else idx(i \<mapsto> ps - {p}))"

definition remove_peer :: "availability_index \<Rightarrow> peer_id \<Rightarrow> availability_index" where
  "remove_peer idx p =
     (\<lambda>i. case idx i of None \<Rightarrow> None | Some ps \<Rightarrow> if ps - {p} = {} then None else Some (ps - {p}))"

definition replace_provider_proofs ::
  "availability_index \<Rightarrow> peer_id \<Rightarrow> verification_id set \<Rightarrow> availability_index" where
  "replace_provider_proofs idx p ids =
     fold (\<lambda>i idx. add_provider idx i p) (sorted_list_of_set ids) (remove_peer idx p)"

definition query_id_of :: "bytes \<Rightarrow> query_id res" where
  "query_id_of b =
     (if length b = QUERY_ID_LEN then Inr (QueryId b)
      else Inl (P2pProtocol (''query ID must be '' @ show_nat QUERY_ID_LEN @ '' bytes, got '' @
        show_nat (length b))))"

fun collect_providers :: "p2p_codec \<Rightarrow> peer_id set \<Rightarrow> peer_id set \<Rightarrow> bytes list \<Rightarrow> peer_id set res" where
  "collect_providers K authorized unique [] = Inr unique"
| "collect_providers K authorized unique (b # bs) =
     bind_res (map_err (\<lambda>e. P2pProtocol (''invalid provider PeerId: '' @ e)) (peer_from_bytes K b)) (\<lambda>peer.
       if peer \<notin> authorized
       then Inl (P2pProtocol (''provider '' @ show_peer K peer @ '' is not an active validator''))
       else collect_providers K authorized (insert peer unique) bs)"

definition decode_and_validate ::
  "p2p_codec \<Rightarrow> bytes \<Rightarrow> string \<Rightarrow> peer_id set \<Rightarrow> nat \<Rightarrow> validated_availability res" where
  "decode_and_validate K b expected authorized maximum_providers =
     bind_res (map_err (\<lambda>e. P2pProtocol (''invalid availability protobuf: '' @ e)) (decode_availability K b))
       (\<lambda>envelope.
     if message_chain_id envelope \<noteq> expected
     then Inl (P2pProtocol (''availability chain ID mismatch: expected '' @ expected @ '', got '' @
       message_chain_id envelope))
     else (case message_payload envelope of
       Some (AvailabilityAnnouncement v) \<Rightarrow>
         bind_res (verification_id_try_from v) (\<lambda>i. Inr (Announcement i))
     | Some (AvailabilityQuery q v) \<Rightarrow>
         bind_res (query_id_of q) (\<lambda>qid.
         bind_res (verification_id_try_from v) (\<lambda>i. Inr (Query qid i)))
     | Some (AvailabilityResponse q v ps) \<Rightarrow>
         if maximum_providers < length ps
         then Inl (P2pProtocol (''availability response exceeds '' @ show_nat maximum_providers @ '' providers''))
         else bind_res (collect_providers K authorized {} ps) (\<lambda>unique.
         bind_res (query_id_of q) (\<lambda>qid.
         bind_res (verification_id_try_from v) (\<lambda>i.
           Inr (Response qid i (sorted_list_of_set unique)))))
     | None \<Rightarrow> Inl (P2pProtocol ''availability message has no payload'')))"

definition announcement :: "p2p_codec \<Rightarrow> string \<Rightarrow> verification_id \<Rightarrow> bytes" where
  "announcement K cid i =
     encode_availability K \<lparr>message_chain_id = cid,
       message_payload = Some (AvailabilityAnnouncement (as_bytes i))\<rparr>"

definition query :: "p2p_codec \<Rightarrow> string \<Rightarrow> query_id \<Rightarrow> verification_id \<Rightarrow> bytes" where
  "query K cid q i =
     encode_availability K \<lparr>message_chain_id = cid,
       message_payload = Some (AvailabilityQuery (query_bytes q) (as_bytes i))\<rparr>"

definition response :: "p2p_codec \<Rightarrow> string \<Rightarrow> query_id \<Rightarrow> verification_id \<Rightarrow> peer_id list \<Rightarrow> bytes" where
  "response K cid q i ps =
     encode_availability K \<lparr>message_chain_id = cid,
       message_payload = Some (AvailabilityResponse (query_bytes q) (as_bytes i) ps)\<rparr>"

section \<open>Deduplication\<close>

text \<open>
  GossipSub drops a message whose identifier it has seen. The identifier is the digest of the
  source and the decoded content, with the providers of a response sorted.
\<close>

definition payload_bytes :: "bytes \<Rightarrow> availability_message \<Rightarrow> bytes" where
  "payload_bytes data envelope =
     ascii (message_chain_id envelope) @
     (case message_payload envelope of
        Some (AvailabilityAnnouncement v) \<Rightarrow> ascii ''announcement'' @ v
      | Some (AvailabilityQuery q v) \<Rightarrow> ascii ''query'' @ q @ v
      | Some (AvailabilityResponse q v ps) \<Rightarrow> ascii ''response'' @ q @ v @ concat (sort ps)
      | None \<Rightarrow> ascii ''missing-payload'' @ data)"

definition semantic_preimage :: "p2p_codec \<Rightarrow> peer_id option \<Rightarrow> bytes \<Rightarrow> bytes" where
  "semantic_preimage K source data =
     ascii ''pulsar-availability-message-v1'' @
     (case source of None \<Rightarrow> [] | Some p \<Rightarrow> p) @
     (case decode_availability K data of
        Inr envelope \<Rightarrow> payload_bytes data envelope
      | Inl _ \<Rightarrow> ascii ''malformed'' @ data)"

definition semantic_message_id :: "p2p_codec \<Rightarrow> peer_id option \<Rightarrow> bytes \<Rightarrow> string" where
  "semantic_message_id K source data = blake3_hex K (semantic_preimage K source data)"

section \<open>The proof exchange\<close>

text \<open>
  The messages of the exchange and their codec (\<open>prost\<close>), a parameter. What a peer sends on a
  substream is the bytes up to its end, which is a close or an error of the stream.
\<close>

record get_proof_request =
  request_chain_id :: string
  request_verification_id :: bytes

datatype proof_result = ProofResult wire_proof | NotFoundResult

record get_proof_response =
  response_chain_id :: string
  response_result :: "proof_result option"

record 'm message_codec =
  message_len :: "'m \<Rightarrow> nat"
  encode_message :: "'m \<Rightarrow> bytes"
  decode_message :: "bytes \<Rightarrow> string + 'm"

record substream =
  stream_bytes :: bytes
  stream_error :: "io_error option"

definition MAX_REQUEST_BYTES :: nat where "MAX_REQUEST_BYTES = 1024"

definition max_response_bytes :: "'x externs_scheme \<Rightarrow> nat \<Rightarrow> string \<Rightarrow> nat res" where
  "max_response_bytes X mp cid =
     ok_or (InvalidConfig ''proof exchange size limit overflows usize'')
       (Option.bind (checked_add_usize mp 1) (\<lambda>size.
        Option.bind (checked_add_usize size (encoded_len_varint X (length cid))) (\<lambda>size.
        Option.bind (checked_add_usize size (length cid)) (\<lambda>size.
        Option.bind (checked_add_usize size 1) (\<lambda>size.
        checked_add_usize size (encoded_len_varint X mp))))))"

text \<open>\<open>AsyncReadExt::take(limit)\<close> followed by \<open>read_to_end\<close>: an error behind the limit is not seen.\<close>

definition read_to_end :: "nat \<Rightarrow> substream \<Rightarrow> io_error + bytes" where
  "read_to_end limit io =
     (if limit \<le> length (stream_bytes io) then Inr (take limit (stream_bytes io))
      else case stream_error io of Some e \<Rightarrow> Inl e | None \<Rightarrow> Inr (stream_bytes io))"

definition frame_too_long :: "io_error_kind \<Rightarrow> nat \<Rightarrow> io_error" where
  "frame_too_long kind maximum =
     \<lparr>io_kind = kind, io_text = ''protobuf frame exceeds '' @ show_nat maximum @ '' bytes''\<rparr>"

definition read_message :: "'m message_codec \<Rightarrow> substream \<Rightarrow> nat \<Rightarrow> io_error + 'm" where
  "read_message M io maximum =
     bind_res (ok_or \<lparr>io_kind = InvalidInput, io_text = ''frame limit overflows usize''\<rparr>
       (checked_add_usize maximum 1)) (\<lambda>read_limit.
     bind_res (read_to_end read_limit io) (\<lambda>b.
       if maximum < length b then Inl (frame_too_long InvalidData maximum)
       else map_err (\<lambda>e. \<lparr>io_kind = InvalidData, io_text = e\<rparr>) (decode_message M b)))"

text \<open>Writing gives the bytes the peer receives; \<open>sent\<close> is the outcome of \<open>write_all\<close> and \<open>close\<close>.\<close>

definition write_message :: "'m message_codec \<Rightarrow> io_error + unit \<Rightarrow> 'm \<Rightarrow> nat \<Rightarrow> io_error + substream" where
  "write_message M sent m maximum =
     (if maximum < message_len M m then Inl (frame_too_long InvalidInput maximum)
      else bind_res sent (\<lambda>_. Inr \<lparr>stream_bytes = encode_message M m, stream_error = None\<rparr>))"

definition read_request :: "get_proof_request message_codec \<Rightarrow> substream \<Rightarrow> io_error + get_proof_request" where
  "read_request M io = read_message M io MAX_REQUEST_BYTES"

definition read_response ::
  "get_proof_response message_codec \<Rightarrow> substream \<Rightarrow> nat \<Rightarrow> io_error + get_proof_response" where
  "read_response M io limit = read_message M io limit"

definition write_request ::
  "get_proof_request message_codec \<Rightarrow> io_error + unit \<Rightarrow> get_proof_request \<Rightarrow> io_error + substream" where
  "write_request M sent m = write_message M sent m MAX_REQUEST_BYTES"

definition write_response ::
  "get_proof_response message_codec \<Rightarrow> io_error + unit \<Rightarrow> get_proof_response \<Rightarrow> nat \<Rightarrow>
     io_error + substream" where
  "write_response M sent m limit = write_message M sent m limit"

definition not_found_response :: "string \<Rightarrow> get_proof_response" where
  "not_found_response cid = \<lparr>response_chain_id = cid, response_result = Some NotFoundResult\<rparr>"

section \<open>Identity and authorization\<close>

lemma ensure_key_type_Inr [simp]: "ensure_key_type a ts l = Inr u \<longleftrightarrow> a \<in> set ts"
  by (simp add: ensure_key_type_def)

lemma decode_key_Inr [simp]:
  "decode_key E v n l = Inr b \<longleftrightarrow> base64_decode E v = Inr b \<and> length b = n"
  by (auto simp: decode_key_def bind_res_Inr_iff)

text \<open>An identity is loaded only from a file of its owner alone, and its two keys belong together.\<close>

lemma load_validator_identity_Inr:
  assumes "load_validator_identity E path = Inr kp"
  shows "\<exists>m pair. key_metadata E path = Inr m \<and> meta_is_file m \<and> meta_mode m AND 63 = 0
     \<and> length (secret_key kp) = 32 \<and> length (public_key kp) = 32
     \<and> ed25519_from_bytes E (secret_key kp) = Inr pair \<and> try_into_ed25519 E pair = Inr (public_key kp)"
  using assms unfolding load_validator_identity_def
  by (auto simp: bind_res_Inr_iff Let_def ED25519_PUBLIC_KEY_LEN_def ED25519_COMET_PRIVATE_KEY_LEN_def)

lemma collect_res_ok: "collect_res f xs = Inr ys \<Longrightarrow> x \<in> set xs \<Longrightarrow> \<exists>y. f x = Inr y"
  by (induction f xs arbitrary: ys rule: collect_res.induct) (auto simp: bind_res_Inr_iff)

lemma peer_id_from_ed25519_Inr [simp]: "peer_id_from_ed25519 E k = Inr p \<longleftrightarrow> ed25519_peer E k = Inr p"
  by (simp add: peer_id_from_ed25519_def)

text \<open>
  The authorized peers at a height are exactly the peers of the validators the node reports for
  that height, one peer per key.
\<close>

lemma validator_public_keys_finite: "validator_public_keys C h = Inr keys \<Longrightarrow> finite keys"
  by (auto simp: validator_public_keys_def bind_res_Inr_iff unique_keys_Inr split: if_splits)

lemma collect_res_map:
  assumes "\<forall>x\<in>set xs. f x = Inr (g x)"
  shows "collect_res f xs = Inr (map g xs)"
  using assms by (simp add: collect_res_Inr list_all2_map2 list_all2_same)

lemma load_at_iff:
  "load_at E C h = Inr ps \<longleftrightarrow>
     (\<exists>keys f. validator_public_keys C h = Inr keys \<and> (\<forall>k\<in>keys. ed25519_peer E k = Inr (f k))
        \<and> inj_on f keys \<and> ps = f ` keys)"
    (is "_ \<longleftrightarrow> ?exact")
proof
  assume "load_at E C h = Inr ps"
  then obtain keys ys where keys: "validator_public_keys C h = Inr keys"
    and ys: "collect_res (peer_id_from_ed25519 E) (sorted_list_of_set keys) = Inr ys"
    and card: "card (set ys) = card keys" and ps: "ps = set ys"
    by (auto simp: load_at_def bind_res_Inr_iff)
  define f where "f k = projr (ed25519_peer E k)" for k
  have fin: "finite keys" using keys by (rule validator_public_keys_finite)
  have peers: "ed25519_peer E k = Inr (f k)" if "k \<in> keys" for k
    using collect_res_ok [OF ys, of k] that fin by (auto simp: f_def)
  then have "ys = map f (sorted_list_of_set keys)"
    using ys collect_res_map [of "sorted_list_of_set keys" "peer_id_from_ed25519 E" f] fin by simp
  then have "set ys = f ` keys" using fin by simp
  with keys peers card ps fin show ?exact by (auto intro: eq_card_imp_inj_on)
next
  assume ?exact
  then obtain keys f where keys: "validator_public_keys C h = Inr keys"
    and f: "\<forall>k\<in>keys. ed25519_peer E k = Inr (f k)" "inj_on f keys" "ps = f ` keys" by blast
  have fin: "finite keys" using keys by (rule validator_public_keys_finite)
  have "collect_res (peer_id_from_ed25519 E) (sorted_list_of_set keys) = Inr (map f (sorted_list_of_set keys))"
    using f(1) fin by (intro collect_res_map) simp
  with keys f fin show "load_at E C h = Inr ps" by (simp add: load_at_def card_image)
qed

section \<open>The provider index as a relation\<close>

text \<open>
  What the driver relies on: the index is a set of pairs of an identifier and a provider, and
  each operation changes exactly the pairs it names.
\<close>

locale provider_relation =
  fixes void :: 'idx
    and add :: "'idx \<Rightarrow> 'i \<Rightarrow> ('p :: linorder) \<Rightarrow> 'idx"
    and drop_one :: "'idx \<Rightarrow> 'i \<Rightarrow> 'p \<Rightarrow> 'idx"
    and drop_peer :: "'idx \<Rightarrow> 'p \<Rightarrow> 'idx"
    and listed :: "'idx \<Rightarrow> 'i \<Rightarrow> 'p list"
    and ok :: "'idx \<Rightarrow> bool"
    and rel :: "'idx \<Rightarrow> ('i \<times> 'p) set"
  assumes void: "ok void" "rel void = {}"
    and add: "ok d \<Longrightarrow> ok (add d i p) \<and> rel (add d i p) = insert (i, p) (rel d)"
    and drop_one: "ok d \<Longrightarrow> ok (drop_one d i p) \<and> rel (drop_one d i p) = rel d - {(i, p)}"
    and drop_peer: "ok d \<Longrightarrow> ok (drop_peer d p) \<and> rel (drop_peer d p) = rel d - UNIV \<times> {p}"
    and listed: "ok d \<Longrightarrow> sorted (listed d i) \<and> distinct (listed d i) \<and> set (listed d i) = {p. (i, p) \<in> rel d}"
begin

lemma add_all:
  "ok d \<Longrightarrow> ok (fold (\<lambda>i d. add d i p) is d)
     \<and> rel (fold (\<lambda>i d. add d i p) is d) = rel d \<union> set is \<times> {p}"
  by (induction "is" arbitrary: d) (auto simp: add)

lemma add_providers:
  "ok d \<Longrightarrow> ok (fold (\<lambda>p d. add d i p) ps d)
     \<and> rel (fold (\<lambda>p d. add d i p) ps d) = rel d \<union> {i} \<times> set ps"
  by (induction ps arbitrary: d) (auto simp: add)

lemma drop_peers:
  "ok d \<Longrightarrow> ok (fold (\<lambda>p d. drop_peer d p) ps d)
     \<and> rel (fold (\<lambda>p d. drop_peer d p) ps d) = rel d - UNIV \<times> set ps"
  by (induction ps arbitrary: d) (auto simp: drop_peer)

lemma replaced:
  "ok d \<Longrightarrow> ok (fold (\<lambda>i d. add d i p) is (drop_peer d p))
     \<and> rel (fold (\<lambda>i d. add d i p) is (drop_peer d p)) = (rel d - UNIV \<times> {p}) \<union> set is \<times> {p}"
  using add_all [of "drop_peer d p" p "is"] drop_peer [of d p] by simp

end

definition index_rel :: "availability_index \<Rightarrow> (verification_id \<times> peer_id) set" where
  "index_rel idx = {(i, p). \<exists>ps. idx i = Some ps \<and> p \<in> ps}"

definition index_ok :: "availability_index \<Rightarrow> bool" where
  "index_ok idx \<longleftrightarrow> (\<forall>ps \<in> ran idx. finite ps \<and> ps \<noteq> {})"

lemma index_okD: "index_ok idx \<Longrightarrow> idx i = Some ps \<Longrightarrow> finite ps \<and> ps \<noteq> {}"
  by (auto simp: index_ok_def ran_def)

lemmas index_defs = index_ok_def index_rel_def ran_def add_provider_def remove_provider_def remove_peer_def

interpretation avail: provider_relation Map.empty add_provider remove_provider remove_peer providers
  index_ok index_rel
proof
  fix d i p assume d: "index_ok d"
  show "index_ok (add_provider d i p) \<and> index_rel (add_provider d i p) = insert (i, p) (index_rel d)"
    using d by (auto simp: index_defs split: option.splits if_splits)
  show "index_ok (remove_provider d i p) \<and> index_rel (remove_provider d i p) = index_rel d - {(i, p)}"
    using d by (auto simp: index_defs split: option.splits if_splits)
  show "index_ok (remove_peer d p) \<and> index_rel (remove_peer d p) = index_rel d - UNIV \<times> {p}"
    using d by (auto simp: index_defs split: option.splits if_splits)
  show "sorted (providers d i) \<and> distinct (providers d i) \<and> set (providers d i) = {p. (i, p) \<in> index_rel d}"
    using index_okD [OF d, of i] by (auto simp: providers_def index_rel_def split: option.splits)
qed (auto simp: index_defs)

datatype index_op =
    AddProvider verification_id peer_id
  | RemoveProvider verification_id peer_id
  | RemovePeer peer_id
  | ReplaceProofs peer_id "verification_id list"

fun apply_op :: "availability_index \<Rightarrow> index_op \<Rightarrow> availability_index" where
  "apply_op idx (AddProvider i p) = add_provider idx i p"
| "apply_op idx (RemoveProvider i p) = remove_provider idx i p"
| "apply_op idx (RemovePeer p) = remove_peer idx p"
| "apply_op idx (ReplaceProofs p is) = replace_provider_proofs idx p (set is)"

fun spec_op :: "(verification_id \<times> peer_id) set \<Rightarrow> index_op \<Rightarrow> (verification_id \<times> peer_id) set" where
  "spec_op R (AddProvider i p) = insert (i, p) R"
| "spec_op R (RemoveProvider i p) = R - {(i, p)}"
| "spec_op R (RemovePeer p) = {(i, q) \<in> R. q \<noteq> p}"
| "spec_op R (ReplaceProofs p is) = {(i, q) \<in> R. q \<noteq> p} \<union> {(i, p) | i. i \<in> set is}"

lemma replace_provider_proofs_rel:
  "index_ok d \<Longrightarrow> index_ok (replace_provider_proofs d p (set is))
     \<and> index_rel (replace_provider_proofs d p (set is)) = (index_rel d - UNIV \<times> {p}) \<union> set is \<times> {p}"
  using avail.replaced [of d p "sorted_list_of_set (set is)"] by (simp add: replace_provider_proofs_def)

lemma apply_op_refines:
  "index_ok d \<Longrightarrow> index_ok (apply_op d a) \<and> index_rel (apply_op d a) = spec_op (index_rel d) a"
  by (cases a) (auto simp: avail.add avail.drop_one avail.drop_peer replace_provider_proofs_rel)

lemma run_ops_refine:
  "index_ok d \<Longrightarrow> index_ok (foldl apply_op d ops) \<and> index_rel (foldl apply_op d ops) = foldl spec_op (index_rel d) ops"
  by (induction ops arbitrary: d) (auto simp: apply_op_refines)

lemma index_domain: "index_ok d \<Longrightarrow> i \<in> dom d \<longleftrightarrow> (\<exists>p. (i, p) \<in> index_rel d)"
  by (fastforce simp: index_rel_def dest: index_okD)

lemma providers_sorted:
  assumes "index_ok d"
  shows "providers d i = sorted_list_of_set {p. (i, p) \<in> index_rel d}"
  using avail.listed [OF assms, of i] by (metis sorted_list_of_set.idem_if_sorted_distinct)

text \<open>
  C39. The provider index is a relation between identifiers and peers: after any sequence of its
  operations the providers of an identifier are exactly the peers related to it, sorted and
  without duplicates, and the index holds an entry only for identifiers that have a provider.
\<close>

theorem availability_index_refines:
  "providers (foldl apply_op Map.empty ops) i = sorted_list_of_set {p. (i, p) \<in> foldl spec_op {} ops}
   \<and> (i \<in> dom (foldl apply_op Map.empty ops) \<longleftrightarrow> (\<exists>p. (i, p) \<in> foldl spec_op {} ops))"
proof -
  have ok: "index_ok (foldl apply_op Map.empty ops)"
    and rel: "index_rel (foldl apply_op Map.empty ops) = foldl spec_op {} ops"
    using run_ops_refine [OF avail.void(1), of ops] by (simp_all add: avail.void(2))
  show ?thesis using index_domain [OF ok, of i] providers_sorted [OF ok, of i] by (simp only: rel)
qed

section \<open>Availability messages\<close>

definition prost_availability :: "p2p_codec \<Rightarrow> bool" where
  "prost_availability K \<longleftrightarrow> (\<forall>m. decode_availability K (encode_availability K m) = Inr m)"

text \<open>The bytes of a peer identifier parse to it, and nothing else does.\<close>

definition peer_bytes :: "p2p_codec \<Rightarrow> peer_id set \<Rightarrow> bool" where
  "peer_bytes K peers \<longleftrightarrow>
     (\<forall>p \<in> peers. peer_from_bytes K p = Inr p) \<and> (\<forall>b p. peer_from_bytes K b = Inr p \<longrightarrow> b = p)"

lemma collect_providers_Inr:
  "collect_providers K A u bs = Inr S \<longleftrightarrow>
     (\<exists>ps. list_all2 (\<lambda>b p. peer_from_bytes K b = Inr p) bs ps \<and> set ps \<subseteq> A \<and> S = u \<union> set ps)"
proof (induction bs arbitrary: u)
  case (Cons b bs)
  show ?case
  proof (cases "peer_from_bytes K b")
    case (Inr p)
    have "(\<exists>ps. list_all2 (\<lambda>b p. peer_from_bytes K b = Inr p) (b # bs) ps \<and> Q ps) \<longleftrightarrow>
      (\<exists>qs. list_all2 (\<lambda>b p. peer_from_bytes K b = Inr p) bs qs \<and> Q (p # qs))" for Q
      by (auto simp: Inr list_all2_Cons1)
    then show ?thesis by (auto simp: Inr Cons.IH)
  qed (auto simp: list_all2_Cons1)
qed auto

lemma query_id_of_Inr [simp]: "query_id_of b = Inr q \<longleftrightarrow> q = QueryId b \<and> length b = 16"
  by (auto simp: query_id_of_def QUERY_ID_LEN_def)

lemma collect_own_providers:
  assumes "peer_bytes K (set ps)"
  shows "collect_providers K A {} ps = Inr S \<longleftrightarrow> set ps \<subseteq> A \<and> S = set ps"
proof -
  have "list_all2 (\<lambda>b p. peer_from_bytes K b = Inr p) ps qs \<longleftrightarrow> qs = ps" for qs
    using assms by (auto simp: peer_bytes_def list_all2_conv_all_nth intro: nth_equalityI)
  then show ?thesis by (auto simp: collect_providers_Inr)
qed

text \<open>
  C30. What a node publishes the other validators of its chain read back: an announcement and a
  query always, and a response exactly when each of its providers is authorized at the receiver.
  A single provider the receiver does not authorize (itself, for instance) makes it refuse the
  whole message.
\<close>

theorem availability_round_trip:
  assumes K: "prost_availability K" and i: "length (as_bytes i) = 32" and q: "length (query_bytes q) = 16"
    and ps: "peer_bytes K (set ps)" "sorted ps" "distinct ps" "length ps \<le> n"
  shows "decode_and_validate K (announcement K cid i) cid A n = Inr (Announcement i)
    \<and> decode_and_validate K (query K cid q i) cid A n = Inr (Query q i)
    \<and> (decode_and_validate K (response K cid q i ps) cid A n = Inr v \<longleftrightarrow>
      set ps \<subseteq> A \<and> v = Response q i ps)"
proof -
  have [simp]: "verification_id_try_from (as_bytes i) = Inr i" "query_id_of (query_bytes q) = Inr q"
    using i q by simp_all
  have d: "decode_availability K (encode_availability K m) = Inr m" for m
    using K by (simp add: prost_availability_def)
  have "sorted_list_of_set (set ps) = ps"
    using ps(2,3) by (rule sorted_list_of_set.idem_if_sorted_distinct)
  then have "decode_and_validate K (response K cid q i ps) cid A n = Inr v \<longleftrightarrow>
      set ps \<subseteq> A \<and> v = Response q i ps"
    using ps(4) by (auto simp: decode_and_validate_def response_def d bind_res_Inr_iff
        collect_own_providers [OF ps(1)])
  then show ?thesis by (simp add: decode_and_validate_def announcement_def query_def d)
qed

text \<open>A codec that meets these facts: each byte is escaped, each field ends in a zero.\<close>

fun demo_fields :: "bytes \<Rightarrow> bytes \<Rightarrow> bytes list" where
  "demo_fields cur [] = []"
| "demo_fields cur [x] = [rev cur]"
| "demo_fields cur (x # y # r) = (if x = 0 then rev cur # demo_fields [] (y # r) else demo_fields (y # cur) r)"

definition demo_field :: "bytes \<Rightarrow> bytes" where
  "demo_field b = concat (map (\<lambda>w. [1, w]) b) @ [0]"

lemma demo_fields_step: "demo_fields cur (demo_field b @ r) = (rev cur @ b) # demo_fields [] r"
proof (induction b arbitrary: cur)
  case Nil
  then show ?case by (cases r) (simp_all add: demo_field_def)
next
  case (Cons w b)
  have "demo_field (w # b) @ r = 1 # w # demo_field b @ r" by (simp add: demo_field_def)
  with Cons show ?case by simp
qed

lemma demo_fields_all: "demo_fields [] (concat (map demo_field bs)) = bs"
  by (induction bs) (simp_all add: demo_fields_step)

definition demo_message_fields :: "availability_message \<Rightarrow> bytes list" where
  "demo_message_fields m =
     ascii (message_chain_id m) #
     (case message_payload m of
        None \<Rightarrow> []
      | Some (AvailabilityAnnouncement v) \<Rightarrow> [[1], v]
      | Some (AvailabilityQuery q v) \<Rightarrow> [[2], q, v]
      | Some (AvailabilityResponse q v ps) \<Rightarrow> [3] # q # v # ps)"

fun demo_payload :: "bytes list \<Rightarrow> availability_payload option" where
  "demo_payload [t, v] = Some (AvailabilityAnnouncement v)"
| "demo_payload (t # q # v # ps) =
     Some (if t = [2] then AvailabilityQuery q v else AvailabilityResponse q v ps)"
| "demo_payload _ = None"

definition demo_p2p_codec :: p2p_codec where
  "demo_p2p_codec =
     \<lparr>decode_availability = (\<lambda>b. case demo_fields [] b of
        c # fs \<Rightarrow> Inr \<lparr>message_chain_id = str_of c, message_payload = demo_payload fs\<rparr>
      | [] \<Rightarrow> Inl ''empty''),
      encode_availability = (\<lambda>m. concat (map demo_field (demo_message_fields m))),
      peer_from_bytes = (\<lambda>b. if b = [] then Inl ''empty'' else Inr b),
      show_peer = str_of, blake3_hex = str_of\<rparr>"

lemma str_of_ascii [simp]: "str_of (ascii t) = t"
  by (induction t) (simp_all add: str_of_def ascii_def unat_of_nat)

lemma demo_p2p_codec_ok: "prost_availability demo_p2p_codec"
proof -
  have "demo_payload (tl (demo_message_fields m)) = message_payload m" for m
    by (auto simp: demo_message_fields_def split: option.split availability_payload.split)
  then show ?thesis
    by (auto simp: prost_availability_def demo_p2p_codec_def demo_fields_step demo_fields_all
        demo_message_fields_def)
qed

lemma demo_peer_bytes: "peer_bytes demo_p2p_codec {p. p \<noteq> []}"
  by (auto simp: peer_bytes_def demo_p2p_codec_def)

theorem availability_round_trip_witness:
  "decode_and_validate demo_p2p_codec
     (response demo_p2p_codec ''pulsar'' (QueryId (replicate 16 1)) (VerificationId (replicate 32 7)) [[1], [2]])
     ''pulsar'' {[1], [2], [3]} 128
   = Inr (Response (QueryId (replicate 16 1)) (VerificationId (replicate 32 7)) [[1], [2]])
   \<and> \<not> is_ok (decode_and_validate demo_p2p_codec
     (response demo_p2p_codec ''pulsar'' (QueryId (replicate 16 1)) (VerificationId (replicate 32 7)) [[1], [2]])
     ''pulsar'' {[1], [3]} 128)"
proof -
  have ps: "peer_bytes demo_p2p_codec (set [[1], [2 :: byte]])" "sorted [[1], [2 :: byte]]"
    using demo_peer_bytes by (auto simp: peer_bytes_def)
  let ?i = "VerificationId (replicate 32 7)" and ?q = "QueryId (replicate 16 1)"
  note wit = availability_round_trip [OF demo_p2p_codec_ok, of ?i ?q "[[1], [2]]" 128 "''pulsar''",
      OF _ _ ps]
  show ?thesis
    using wit [of "{[1], [2], [3]}" "Response ?q ?i [[1], [2]]"] wit [of "{[1], [3]}"]
    by (auto simp: is_ok_def split: sum.splits)
qed

section \<open>What is deduplicated\<close>

lemma concat_equal_length:
  "concat xs = concat ys \<Longrightarrow> \<forall>x \<in> set xs \<union> set ys. length x = n \<Longrightarrow> 0 < n \<Longrightarrow> xs = ys"
proof (induction xs arbitrary: ys)
  case Nil
  then show ?case by (cases ys) auto
next
  case (Cons x xs)
  then show ?case by (cases ys) auto
qed

lemma collected_bytes:
  assumes "peer_bytes K A" "collect_providers K A {} bs = Inr S"
  shows "set bs \<subseteq> A \<and> S = set bs"
proof -
  obtain ps where ps: "list_all2 (\<lambda>b p. peer_from_bytes K b = Inr p) bs ps" "set ps \<subseteq> A" "S = set ps"
    using assms(2) by (auto simp: collect_providers_Inr)
  then have "list_all2 (=) bs ps" using assms(1) by (auto simp: peer_bytes_def elim: list_all2_mono)
  then have "bs = ps" by (simp add: list_all2_eq)
  with ps show ?thesis by simp
qed

fun carries :: "p2p_codec \<Rightarrow> peer_id set \<Rightarrow> availability_payload option \<Rightarrow> validated_availability \<Rightarrow> bool" where
  "carries K A p (Announcement i) \<longleftrightarrow>
     p = Some (AvailabilityAnnouncement (as_bytes i)) \<and> length (as_bytes i) = 32"
| "carries K A p (Query q i) \<longleftrightarrow>
     p = Some (AvailabilityQuery (query_bytes q) (as_bytes i)) \<and> length (query_bytes q) = 16
     \<and> length (as_bytes i) = 32"
| "carries K A p (Response q i ps) \<longleftrightarrow>
     (\<exists>bs S. p = Some (AvailabilityResponse (query_bytes q) (as_bytes i) bs)
        \<and> collect_providers K A {} bs = Inr S \<and> ps = sorted_list_of_set S)
     \<and> length (query_bytes q) = 16 \<and> length (as_bytes i) = 32"

lemma decode_and_validate_Inr:
  assumes "decode_and_validate K b cid A n = Inr v"
  shows "\<exists>m. decode_availability K b = Inr m \<and> message_chain_id m = cid \<and> carries K A (message_payload m) v"
proof -
  obtain m where m: "decode_availability K b = Inr m" "message_chain_id m = cid"
    using assms by (auto simp: decode_and_validate_def bind_res_Inr_iff)
  moreover have "carries K A (message_payload m) v"
  proof (cases "message_payload m")
    case (Some p)
    with assms m show ?thesis
      by (cases p) (auto simp: decode_and_validate_def bind_res_Inr_iff)
  qed (use assms m in \<open>simp add: decode_and_validate_def\<close>)
  ultimately show ?thesis by blast
qed

lemma same_providers:
  assumes K: "peer_bytes K A" "0 < k" "\<forall>p \<in> A. length p = k"
    and bs: "collect_providers K A {} bs = Inr S" and ds: "collect_providers K A {} ds = Inr T"
    and same: "concat (sort bs) = concat (sort ds)"
  shows "S = T"
proof -
  have "sort bs = sort ds"
    using collected_bytes [OF K(1) bs] collected_bytes [OF K(1) ds] K(2,3)
    by (intro concat_equal_length [OF same, of k]) auto
  then have "set bs = set ds" by (metis set_sort)
  then show ?thesis using collected_bytes [OF K(1) bs] collected_bytes [OF K(1) ds] by simp
qed

lemma carries_bytes:
  assumes K: "peer_bytes K A" "0 < k" "\<forall>p \<in> A. length p = k"
    and v: "carries K A (message_payload m) v" and w: "carries K A (message_payload m') w"
    and same: "payload_bytes b m = payload_bytes c m'" "message_chain_id m = message_chain_id m'"
  shows "v = w"
proof (cases v)
  case (Announcement i)
  with v w same show ?thesis by (cases w) (auto simp: payload_bytes_def ascii_def intro: verification_id.expand)
next
  case (Query q i)
  with v w same show ?thesis
    by (cases w) (auto simp: payload_bytes_def ascii_def intro: verification_id.expand query_id.expand)
next
  case (Response q i ps)
  with v w same show ?thesis
    by (cases w) (auto simp: payload_bytes_def ascii_def intro: verification_id.expand query_id.expand
        dest: same_providers [OF K])
qed


lemma demo_response_swapped:
  "decode_and_validate demo_p2p_codec
     (response demo_p2p_codec ''pulsar'' (QueryId (replicate 16 1)) (VerificationId (replicate 32 7)) ps)
     ''pulsar'' {[1], [2]} 128 = Inr (Response (QueryId (replicate 16 1)) (VerificationId (replicate 32 7)) [[1], [2]])"
  if "ps \<in> {[[1], [2]], [[2], [1]]}"
proof -
  have "decode_availability demo_p2p_codec (encode_availability demo_p2p_codec m) = Inr m" for m
    using demo_p2p_codec_ok by (simp add: prost_availability_def)
  moreover have "peer_bytes demo_p2p_codec (set ps)" "set ps = {[1], [2]}" "length ps = 2"
    using that demo_peer_bytes by (auto simp: peer_bytes_def)
  ultimately show ?thesis
    by (simp add: decode_and_validate_def response_def collect_own_providers [THEN iffD2]
        sorted_list_of_set_insert_remove query_id_of_def QUERY_ID_LEN_def verification_id_try_from_def
        VERIFICATION_ID_LEN_def)
qed


section \<open>The exchange carries every acceptable proof\<close>

definition prost_message :: "'m message_codec \<Rightarrow> 'm \<Rightarrow> bool" where
  "prost_message M m \<longleftrightarrow>
     length (encode_message M m) = message_len M m \<and> decode_message M (encode_message M m) = Inr m"

definition prost_response_len :: "'x externs_scheme \<Rightarrow> get_proof_response message_codec \<Rightarrow> bool" where
  "prost_response_len X M \<longleftrightarrow>
     (\<forall>r. message_len M r = text_field_len X (response_chain_id r) +
        (case response_result r of
           None \<Rightarrow> 0
         | Some (ProofResult w) \<Rightarrow> delimited_len X (wire_proof_encoded_len X w)
         | Some NotFoundResult \<Rightarrow> delimited_len X 0))"

definition exchange_reply :: "'x externs_scheme \<Rightarrow> nat \<Rightarrow> zk_proof option \<Rightarrow> bool" where
  "exchange_reply X mp reply \<longleftrightarrow> (case reply of None \<Rightarrow> True | Some p \<Rightarrow> in_memory p \<and> encoded_len X p \<le> mp)"

definition reply_message :: "string \<Rightarrow> zk_proof option \<Rightarrow> get_proof_response" where
  "reply_message cid reply =
     \<lparr>response_chain_id = cid,
      response_result = Some (case reply of None \<Rightarrow> NotFoundResult | Some p \<Rightarrow> ProofResult (proof_to_wire p))\<rparr>"

lemma reply_message_fits:
  assumes X: "varint_len X" "wire_proof_len X" "prost_response_len X M" and r: "exchange_reply X mp reply"
  shows "message_len M (reply_message cid reply) \<le>
    mp + 1 + encoded_len_varint X (length cid) + length cid + 1 + encoded_len_varint X mp"
proof (cases reply)
  case None
  then show ?thesis
    using X(3) varint_len_mono [OF X(1), of 0 mp]
    by (simp add: prost_response_len_def reply_message_def delimited_len_def text_field_len_def)
next
  case (Some p)
  then have p: "in_memory p" "encoded_len X p \<le> mp" using r by (simp_all add: exchange_reply_def)
  show ?thesis
    using X(3) Some p(2) varint_len_mono [OF X(1) p(2)] encoded_len_wire [OF X(1,2) p(1)]
    by (simp add: prost_response_len_def reply_message_def delimited_len_def text_field_len_def)
qed

text \<open>
  Every reply a node may send, a proof within the configured size or \<open>ProofNotFound\<close>, passes the
  frame limits on both sides and arrives unchanged; a longer frame is refused after reading one
  byte beyond the limit.
\<close>

lemma exchange_carries_replies:
  assumes X: "varint_len X" "wire_proof_len X" "prost_response_len X M"
    and r: "exchange_reply X mp reply" "prost_message M (reply_message cid reply)"
    and size: "mp + length cid + 23 < usize_bound"
  shows "\<exists>limit. max_response_bytes X mp cid = Inr limit
    \<and> bind_res (write_response M (Inr ()) (reply_message cid reply) limit) (\<lambda>io. read_response M io limit)
      = Inr (reply_message cid reply)
    \<and> (\<forall>io. if limit < length (stream_bytes io)
        then read_response M io limit = Inl (frame_too_long InvalidData limit) else True)"
proof -
  let ?v = "encoded_len_varint X"
  let ?n = "mp + 1 + ?v (length cid) + length cid + 1 + ?v mp"
  have n: "?n + 1 < usize_bound"
    using size varint_len_le [OF X(1), of "length cid"] varint_len_le [OF X(1), of mp] by simp
  then have "max_response_bytes X mp cid = Inr ?n"
    by (simp add: max_response_bytes_def checked_add_usize_def)
  moreover have "bind_res (write_response M (Inr ()) (reply_message cid reply) ?n) (\<lambda>io. read_response M io ?n)
      = Inr (reply_message cid reply)"
    using reply_message_fits [OF X r(1), of cid] r(2) n
    by (simp add: write_response_def write_message_def read_response_def read_message_def
        read_to_end_def prost_message_def checked_add_usize_def del: One_nat_def)
  moreover have "read_response M io ?n = Inl (frame_too_long InvalidData ?n)"
    if "?n < length (stream_bytes io)" for io
    using that n by (simp add: read_response_def read_message_def read_to_end_def checked_add_usize_def)
  ultimately show ?thesis by (intro exI [of _ ?n]) simp
qed

definition demo_reply_codec :: "get_proof_response \<Rightarrow> get_proof_response message_codec" where
  "demo_reply_codec m =
     (let len = (\<lambda>r. text_field_len demo_store_externs (response_chain_id r) +
        (case response_result r of
           None \<Rightarrow> 0
         | Some (ProofResult w) \<Rightarrow> delimited_len demo_store_externs (wire_proof_encoded_len demo_store_externs w)
         | Some NotFoundResult \<Rightarrow> delimited_len demo_store_externs 0))
      in \<lparr>message_len = len, encode_message = (\<lambda>r. replicate (len r) 0), decode_message = (\<lambda>_. Inr m)\<rparr>)"

lemma demo_reply_codec_ok:
  "prost_response_len demo_store_externs (demo_reply_codec m)" "prost_message (demo_reply_codec m) m"
  by (simp_all add: prost_response_len_def prost_message_def demo_reply_codec_def Let_def)

end
