(* ===== verification/Driver.thy ===== *)
theory Driver
  imports P2p_Messages Config "HOL-Library.Multiset"
begin

text \<open>
  The owner of the network state (\<open>src/p2p/driver.rs\<close>): the data of \<open>src/p2p/types.rs\<close>, the
  commands of the worker, the events of the libp2p swarm, and the loop that handles one of them at
  a time. The swarm is outside: its answers are an argument of each step (\<open>net_env\<close>) and the calls
  on it are outputs, in order, together with the events sent to the worker and the replies to
  commands. A reply channel is a ticket. The two request counters are unbounded here; the code
  keeps them in 64 bits, which no run exhausts.
\<close>

section \<open>Data\<close>

definition MAX_PROVIDER_HINTS :: nat where "MAX_PROVIDER_HINTS = 128"
definition QUERY_RESPONSE_MIN_DELAY :: nat where "QUERY_RESPONSE_MIN_DELAY = 50"
definition QUERY_RESPONSE_MAX_DELAY :: nat where "QUERY_RESPONSE_MAX_DELAY = 250"

datatype driver_event =
    Listening multiaddr
  | PeerConnected peer_id
  | PeerDisconnected peer_id
  | AvailabilityAnnounced peer_id verification_id
  | ProvidersDiscovered query_id verification_id "peer_id list"
  | ProofRequested nat peer_id verification_id
  | ProofReceived nat peer_id verification_id zk_proof
  | ProofNotFound nat peer_id verification_id
  | ProofRequestFailed nat peer_id verification_id string

type_synonym ticket = nat

datatype driver_command =
    Announce verification_id
  | ForgetLocalProof verification_id
  | ReplaceLocalProofs "verification_id set"
  | QueryAvailability verification_id
  | Providers verification_id
  | RequestProof peer_id verification_id
  | RespondProof nat "zk_proof option"
  | ReplaceAuthorizedPeers "peer_id set"
  | Drain

datatype driver_reply =
    UnitReply "unit res"
  | QueryReply "query_id res"
  | ProvidersReply "peer_id list res"
  | RequestReply "nat res"

datatype driver_state = Running | Draining ticket | Drained

record outbound_request =
  out_application_id :: nat
  out_peer :: peer_id
  out_verification_id :: verification_id

record inbound_request =
  in_peer :: peer_id
  in_verification_id :: verification_id
  in_channel :: nat

record driver =
  drv_config :: p2p_config
  local_peer_id :: peer_id
  authorized_peers :: "peer_id set"
  drv_availability :: availability_index
  outstanding_queries :: "query_id \<rightharpoonup> verification_id \<times> instant"
  outbound_requests :: "nat \<rightharpoonup> outbound_request"
  in_flight :: "(peer_id \<times> verification_id) set"
  inbound_requests :: "nat \<rightharpoonup> inbound_request"
  next_proof_request_id :: nat
  next_inbound_request_id :: nat
  delayed_responses :: "(duration \<times> bytes) list"
  pending_listeners :: "nat set"
  listeners :: "nat set"
  drv_ready :: bool
  drv_state :: driver_state

datatype acceptance = Accept | Reject

datatype net_call =
    Publish bytes
  | SendRequest nat peer_id get_proof_request
  | SendResponse nat get_proof_response
  | AllowPeer peer_id
  | AddExplicitPeer peer_id
  | DisallowPeer peer_id
  | RemoveExplicitPeer peer_id
  | RemoveListener nat
  | ReportValidation string peer_id acceptance
  | AddPeerAddress peer_id multiaddr
  | DialPeer peer_id "multiaddr list"

text \<open>An event carries whether the worker still receives; otherwise it is lost.\<close>

datatype driver_output =
    Net net_call
  | Event bool driver_event
  | Reply ticket driver_reply
  | ReadySignal "unit res"

text \<open>A publish error with its text, where the code prints it.\<close>

datatype publish_error =
    NoPeersSubscribedToTopic
  | DuplicateMessage (publish_text: string)
  | OtherPublish (publish_text: string)

record net_env =
  net_codec :: p2p_codec
  publish :: "bytes \<Rightarrow> publish_error + unit"
  send_request_id :: nat
  send_response_ok :: bool
  random_query_id :: query_id
  random_delay :: nat
  net_now :: instant
  events_open :: bool

datatype gossip_event = GossipMessage peer_id string "peer_id option" bytes | OtherGossip

datatype exchange_event =
    ExchangeRequest peer_id get_proof_request nat
  | ExchangeResponse peer_id nat get_proof_response
  | OutboundFailure peer_id nat string
  | InboundFailure peer_id string
  | ResponseSent peer_id

datatype swarm_event =
    NewListenAddr nat multiaddr
  | ListenerError nat string
  | ConnectionEstablished peer_id
  | ConnectionClosed peer_id nat
  | Gossipsub gossip_event
  | ProofExchange exchange_event
  | OtherSwarmEvent

section \<open>Commands\<close>

definition is_running :: "driver \<Rightarrow> bool" where
  "is_running d \<longleftrightarrow> drv_state d = Running"

definition require_running :: "driver \<Rightarrow> unit res" where
  "require_running d = (if is_running d then Inr () else Inl P2pDraining)"

definition driver_announce :: "net_env \<Rightarrow> verification_id \<Rightarrow> driver \<Rightarrow> driver \<times> driver_output list \<times> unit res" where
  "driver_announce E i d =
     (let d1 = d\<lparr>drv_availability := add_provider (drv_availability d) i (local_peer_id d)\<rparr> in
      if \<not> is_running d then (d1, [], Inr ())
      else let b = announcement (net_codec E) (p2p_chain_id (drv_config d)) i in
        (d1, [Net (Publish b)],
         case publish E b of
           Inr _ \<Rightarrow> Inr ()
         | Inl NoPeersSubscribedToTopic \<Rightarrow> Inr ()
         | Inl (DuplicateMessage _) \<Rightarrow> Inr ()
         | Inl e \<Rightarrow> Inl (P2pDriver (''failed to publish announcement: '' @ publish_text e))))"

definition query_availability ::
  "net_env \<Rightarrow> verification_id \<Rightarrow> driver \<Rightarrow> driver \<times> driver_output list \<times> query_id res" where
  "query_availability E i d =
     (case require_running d of
        Inl e \<Rightarrow> (d, [], Inl e)
      | Inr _ \<Rightarrow>
          let q = random_query_id E; b = query (net_codec E) (p2p_chain_id (drv_config d)) q i;
              ok = d\<lparr>outstanding_queries := (outstanding_queries d)(q \<mapsto> (i, net_now E))\<rparr> in
          (case publish E b of
             Inr _ \<Rightarrow> (ok, [Net (Publish b)], Inr q)
           | Inl NoPeersSubscribedToTopic \<Rightarrow> (ok, [Net (Publish b)], Inr q)
           | Inl e \<Rightarrow> (d, [Net (Publish b)],
               Inl (P2pDriver (''failed to publish query: '' @ publish_text e)))))"

definition driver_request_proof ::
  "net_env \<Rightarrow> peer_id \<Rightarrow> verification_id \<Rightarrow> driver \<Rightarrow> driver \<times> driver_output list \<times> nat res" where
  "driver_request_proof E peer i d =
     (case require_running d of
        Inl e \<Rightarrow> (d, [], Inl e)
      | Inr _ \<Rightarrow>
          if peer \<notin> authorized_peers d
          then (d, [], Inl (P2pAuthorization
            (''refusing proof request to unauthorized peer '' @ show_peer (net_codec E) peer)))
          else if (peer, i) \<in> in_flight d
          then (d, [], Inl (P2pDriver
            (''proof request to '' @ show_peer (net_codec E) peer @ '' is already in flight'')))
          else
            let a = next_proof_request_id d; r = send_request_id E in
            (d\<lparr>in_flight := insert (peer, i) (in_flight d), next_proof_request_id := a + 1,
               outbound_requests := (outbound_requests d)(r \<mapsto>
                 \<lparr>out_application_id = a, out_peer = peer, out_verification_id = i\<rparr>)\<rparr>,
             [Net (SendRequest r peer
               \<lparr>request_chain_id = p2p_chain_id (drv_config d), request_verification_id = as_bytes i\<rparr>)],
             Inr a))"

definition respond_proof ::
  "'x externs_scheme \<Rightarrow> net_env \<Rightarrow> nat \<Rightarrow> zk_proof option \<Rightarrow> driver \<Rightarrow> driver \<times> driver_output list \<times> unit res" where
  "respond_proof X E r reply d =
     (case inbound_requests d r of
        None \<Rightarrow> (d, [], Inl (P2pDriver
          (''unknown inbound proof request InboundProofRequestId('' @ show_nat r @ '')'')))
      | Some inbound \<Rightarrow>
          let d1 = d\<lparr>inbound_requests := (inbound_requests d)(r := None)\<rparr>;
              send = (\<lambda>result.
                (d1, [Net (SendResponse (in_channel inbound)
                   \<lparr>response_chain_id = p2p_chain_id (drv_config d), response_result = Some result\<rparr>)],
                 if send_response_ok E then Inr ()
                 else Inl (P2pDriver (''failed to respond to '' @ show_peer (net_codec E) (in_peer inbound))))) in
          (case reply of
             Some p \<Rightarrow>
               if p2p_max_proof_bytes (drv_config d) < encoded_len X p
               then (d1, [], Inl (P2pProtocol ''proof exceeds configured limit''))
               else if verification_id X p \<noteq> in_verification_id inbound
               then (d1, [], Inl (P2pProtocol ''proof response does not match inbound request''))
               else send (ProofResult (proof_to_wire p))
           | None \<Rightarrow> send NotFoundResult))"

definition replace_authorized_peers :: "peer_id set \<Rightarrow> driver \<Rightarrow> driver \<times> driver_output list" where
  "replace_authorized_peers peers d =
     (let peers = peers - {local_peer_id d};
          removed = sorted_list_of_set (authorized_peers d - peers);
          added = sorted_list_of_set (peers - authorized_peers d) in
      (d\<lparr>drv_availability := fold (\<lambda>p idx. remove_peer idx p) removed (drv_availability d),
         authorized_peers := peers\<rparr>,
       concat (map (\<lambda>p. [Net (DisallowPeer p), Net (RemoveExplicitPeer p)]) removed) @
       concat (map (\<lambda>p. [Net (AllowPeer p), Net (AddExplicitPeer p)]) added)))"

definition begin_drain :: "ticket \<Rightarrow> driver \<Rightarrow> driver \<times> driver_output list" where
  "begin_drain t d =
     (d\<lparr>pending_listeners := pending_listeners d - listeners d, listeners := {},
        outstanding_queries := Map.empty, drv_state := Draining t\<rparr>,
      map (\<lambda>l. Net (RemoveListener l)) (sorted_list_of_set (listeners d)))"

text \<open>The maps are empty when no key is left; the loops below keep their domains finite.\<close>

definition exchange_idle :: "driver \<Rightarrow> bool" where
  "exchange_idle d \<longleftrightarrow>
     dom (inbound_requests d) = {} \<and> dom (outbound_requests d) = {} \<and> in_flight d = {}
     \<and> delayed_responses d = []"

definition finish_drain :: "driver \<Rightarrow> driver \<times> driver_output list" where
  "finish_drain d =
     (case drv_state d of
        Draining t \<Rightarrow>
          if exchange_idle d then (d\<lparr>drv_state := Drained\<rparr>, [Reply t (UnitReply (Inr ()))]) else (d, [])
      | _ \<Rightarrow> (d, []))"

definition handle_command ::
  "'x externs_scheme \<Rightarrow> net_env \<Rightarrow> ticket \<Rightarrow> driver_command \<Rightarrow> driver \<Rightarrow> driver \<times> driver_output list" where
  "handle_command X E t c d =
     (case c of
        Announce i \<Rightarrow>
          (let (d1, out, r) = driver_announce E i d in (d1, out @ [Reply t (UnitReply r)]))
      | ForgetLocalProof i \<Rightarrow>
          (d\<lparr>drv_availability := remove_provider (drv_availability d) i (local_peer_id d)\<rparr>,
           [Reply t (UnitReply (Inr ()))])
      | ReplaceLocalProofs is \<Rightarrow>
          (d\<lparr>drv_availability := replace_provider_proofs (drv_availability d) (local_peer_id d) is\<rparr>,
           [Reply t (UnitReply (Inr ()))])
      | QueryAvailability i \<Rightarrow>
          (let (d1, out, r) = query_availability E i d in (d1, out @ [Reply t (QueryReply r)]))
      | Providers i \<Rightarrow> (d, [Reply t (ProvidersReply (Inr (providers (drv_availability d) i)))])
      | RequestProof p i \<Rightarrow>
          (let (d1, out, r) = driver_request_proof E p i d in (d1, out @ [Reply t (RequestReply r)]))
      | RespondProof q reply \<Rightarrow>
          (let (d1, out, r) = respond_proof X E q reply d in (d1, out @ [Reply t (UnitReply r)]))
      | ReplaceAuthorizedPeers peers \<Rightarrow>
          if is_running d
          then (let (d1, out) = replace_authorized_peers peers d in (d1, out @ [Reply t (UnitReply (Inr ()))]))
          else (d, [Reply t (UnitReply (Inl P2pDraining))])
      | Drain \<Rightarrow>
          (case drv_state d of
             Running \<Rightarrow> begin_drain t d
           | Draining _ \<Rightarrow> (d, [Reply t (UnitReply (Inl P2pDraining))])
           | Drained \<Rightarrow> (d, [Reply t (UnitReply (Inr ()))])))"

section \<open>Events of the swarm\<close>

definition emit :: "net_env \<Rightarrow> driver_event \<Rightarrow> driver_output list" where
  "emit E e = [Event (events_open E) e]"

text \<open>The \<open>Display\<close> of the two kinds of errors that reach a text here.\<close>

definition exchange_error_text :: "error \<Rightarrow> string" where
  "exchange_error_text e =
     (case e of
        P2pProtocol t \<Rightarrow> ''P2P protocol error: '' @ t
      | UnsupportedProofType v \<Rightarrow> ''unsupported proof type: '' @ show_int v
      | _ \<Rightarrow> [])"

definition validate_exchanged_proof :: "'x externs_scheme \<Rightarrow> wire_proof \<Rightarrow> verification_id \<Rightarrow> nat \<Rightarrow> zk_proof res" where
  "validate_exchanged_proof X w expected maximum =
     (if maximum < wire_proof_encoded_len X w
      then Inl (P2pProtocol ''proof response exceeds configured limit'')
      else bind_res (map_err (\<lambda>e. P2pProtocol (''invalid proof response: '' @ exchange_error_text e))
        (proof_from_wire w)) (\<lambda>p.
        if verification_id X p \<noteq> expected
        then Inl (P2pProtocol ''proof response failed verification ID binding'')
        else Inr p))"

definition validated_gossip ::
  "net_env \<Rightarrow> driver \<Rightarrow> peer_id \<Rightarrow> peer_id option \<Rightarrow> bytes \<Rightarrow> (peer_id \<times> validated_availability) res" where
  "validated_gossip E d propagation_source source data =
     bind_res (ok_or (P2pProtocol ''unauthorized gossip source'')
       (case source of
          None \<Rightarrow> None
        | Some p \<Rightarrow> if p \<in> authorized_peers d \<and> propagation_source \<in> authorized_peers d then Some p else None))
       (\<lambda>source. bind_res (decode_and_validate (net_codec E) data (p2p_chain_id (drv_config d))
          (authorized_peers d) MAX_PROVIDER_HINTS) (\<lambda>payload. Inr (source, payload)))"

definition handle_gossip :: "net_env \<Rightarrow> gossip_event \<Rightarrow> driver \<Rightarrow> driver \<times> driver_output list" where
  "handle_gossip E ev d =
     (case ev of
        OtherGossip \<Rightarrow> (d, [])
      | GossipMessage propagation_source message_id source data \<Rightarrow>
          let validated = validated_gossip E d propagation_source source data;
              report = Net (ReportValidation message_id propagation_source
                (if is_ok validated then Accept else Reject))
          in (case validated of
             Inl _ \<Rightarrow> (d, [report])
           | Inr (source, payload) \<Rightarrow>
               if \<not> is_running d then (d, [report])
               else (case payload of
                 Announcement i \<Rightarrow>
                   (d\<lparr>drv_availability := add_provider (drv_availability d) i source\<rparr>,
                    report # emit E (AvailabilityAnnounced source i))
               | Query q i \<Rightarrow>
                   if providers (drv_availability d) i = [] then (d, [report])
                   else (d\<lparr>delayed_responses := delayed_responses d @
                         [(from_millis (random_delay E),
                           response (net_codec E) (p2p_chain_id (drv_config d)) q i
                             (take MAX_PROVIDER_HINTS (providers (drv_availability d) i)))]\<rparr>,
                       [report])
               | Response q i ps \<Rightarrow>
                   (d\<lparr>drv_availability := fold (\<lambda>p idx. add_provider idx i p) ps (drv_availability d)\<rparr>,
                    report #
                    (case outstanding_queries d q of
                       Some (expected, _) \<Rightarrow> if expected = i then emit E (ProvidersDiscovered q i ps) else []
                     | None \<Rightarrow> [])))))"

definition handle_inbound_request ::
  "'x externs_scheme \<Rightarrow> net_env \<Rightarrow> peer_id \<Rightarrow> get_proof_request \<Rightarrow> nat \<Rightarrow> driver \<Rightarrow> driver \<times> driver_output list" where
  "handle_inbound_request X E peer req channel d =
     (let refuse = (d, [Net (SendResponse channel (not_found_response (p2p_chain_id (drv_config d))))]) in
      if \<not> is_running d then refuse
      else if peer \<notin> authorized_peers d \<or> request_chain_id req \<noteq> p2p_chain_id (drv_config d) then refuse
      else case verification_id_try_from (request_verification_id req) of
        Inl _ \<Rightarrow> refuse
      | Inr i \<Rightarrow>
          let r = next_inbound_request_id d;
              d1 = d\<lparr>next_inbound_request_id := r + 1,
                inbound_requests := (inbound_requests d)(r \<mapsto>
                  \<lparr>in_peer = peer, in_verification_id = i, in_channel = channel\<rparr>)\<rparr>;
              out = emit E (ProofRequested r peer i) in
          if events_open E then (d1, out)
          else (let (d2, out2, _) = respond_proof X E r None d1 in (d2, out @ out2)))"

definition emit_failed :: "net_env \<Rightarrow> outbound_request \<Rightarrow> string \<Rightarrow> driver \<Rightarrow> driver \<times> driver_output list" where
  "emit_failed E r reason d =
     (d\<lparr>drv_availability := remove_provider (drv_availability d) (out_verification_id r) (out_peer r)\<rparr>,
      emit E (ProofRequestFailed (out_application_id r) (out_peer r) (out_verification_id r) reason))"

definition forget_request :: "nat \<Rightarrow> outbound_request \<Rightarrow> driver \<Rightarrow> driver" where
  "forget_request k r d =
     d\<lparr>outbound_requests := (outbound_requests d)(k := None),
       in_flight := in_flight d - {(out_peer r, out_verification_id r)}\<rparr>"

definition handle_outbound_response ::
  "'x externs_scheme \<Rightarrow> net_env \<Rightarrow> peer_id \<Rightarrow> nat \<Rightarrow> get_proof_response \<Rightarrow> driver \<Rightarrow> driver \<times> driver_output list" where
  "handle_outbound_response X E peer k resp d =
     (case outbound_requests d k of
        None \<Rightarrow> (d, [])
      | Some r \<Rightarrow>
          let d1 = forget_request k r d in
          if peer \<noteq> out_peer r \<or> response_chain_id resp \<noteq> p2p_chain_id (drv_config d)
          then emit_failed E r ''proof response context mismatch'' d1
          else (case response_result resp of
            Some (ProofResult w) \<Rightarrow>
              (case validate_exchanged_proof X w (out_verification_id r) (p2p_max_proof_bytes (drv_config d)) of
                 Inl e \<Rightarrow> emit_failed E r (exchange_error_text e) d1
               | Inr p \<Rightarrow>
                   (d1\<lparr>drv_availability := add_provider (drv_availability d1) (out_verification_id r) peer\<rparr>,
                    emit E (ProofReceived (out_application_id r) peer (out_verification_id r) p)))
          | Some NotFoundResult \<Rightarrow>
              (d1\<lparr>drv_availability := remove_provider (drv_availability d1) (out_verification_id r) peer\<rparr>,
               emit E (ProofNotFound (out_application_id r) peer (out_verification_id r)))
          | None \<Rightarrow> emit_failed E r ''proof response has no result'' d1))"

definition handle_exchange ::
  "'x externs_scheme \<Rightarrow> net_env \<Rightarrow> exchange_event \<Rightarrow> driver \<Rightarrow> driver \<times> driver_output list" where
  "handle_exchange X E ev d =
     (case ev of
        ExchangeRequest peer req channel \<Rightarrow> handle_inbound_request X E peer req channel d
      | ExchangeResponse peer k resp \<Rightarrow> handle_outbound_response X E peer k resp d
      | OutboundFailure peer k reason \<Rightarrow>
          (case outbound_requests d k of
             None \<Rightarrow> (d, [])
           | Some r \<Rightarrow>
               ((forget_request k r d)\<lparr>drv_availability :=
                  remove_provider (drv_availability d) (out_verification_id r) (out_peer r)\<rparr>,
                emit E (ProofRequestFailed (out_application_id r) peer (out_verification_id r) reason)))
      | InboundFailure _ _ \<Rightarrow> (d, [])
      | ResponseSent _ \<Rightarrow> (d, []))"

definition handle_swarm_event ::
  "'x externs_scheme \<Rightarrow> net_env \<Rightarrow> swarm_event \<Rightarrow> driver \<Rightarrow> driver \<times> driver_output list \<times> unit res" where
  "handle_swarm_event X E ev d =
     (case ev of
        NewListenAddr l address \<Rightarrow>
          let d1 = d\<lparr>listeners := insert l (listeners d), pending_listeners := pending_listeners d - {l}\<rparr>;
              out = (if is_running d then emit E (Listening address) else []) in
          if pending_listeners d1 = {} \<and> drv_ready d
          then (d1\<lparr>drv_ready := False\<rparr>, out @ [ReadySignal (Inr ())], Inr ())
          else (d1, out, Inr ())
      | ListenerError l e \<Rightarrow>
          (d\<lparr>listeners := listeners d - {l}, pending_listeners := pending_listeners d - {l}, drv_ready := False\<rparr>,
           (if drv_ready d
            then [ReadySignal (Inl (P2pDriver (''listener failed during startup: '' @ e)))] else []),
           if is_running d then Inl (P2pDriver (''listener failed: '' @ e)) else Inr ())
      | ConnectionEstablished peer \<Rightarrow>
          (d, if is_running d then emit E (PeerConnected peer) else [], Inr ())
      | ConnectionClosed peer num_established \<Rightarrow>
          if num_established = 0
          then (d\<lparr>drv_availability := remove_peer (drv_availability d) peer\<rparr>,
                if is_running d then emit E (PeerDisconnected peer) else [], Inr ())
          else (d, [], Inr ())
      | Gossipsub e \<Rightarrow> let (d1, out) = handle_gossip E e d in (d1, out, Inr ())
      | ProofExchange e \<Rightarrow> let (d1, out) = handle_exchange X E e d in (d1, out, Inr ())
      | OtherSwarmEvent \<Rightarrow> (d, [], Inr ()))"

definition expire_queries :: "net_env \<Rightarrow> driver \<Rightarrow> driver" where
  "expire_queries E d =
     d\<lparr>outstanding_queries := (\<lambda>q. case outstanding_queries d q of
        None \<Rightarrow> None
      | Some (i, created) \<Rightarrow>
          if net_now E - created < proof_request_timeout (drv_config d) then Some (i, created) else None)\<rparr>"

section \<open>The loop\<close>

text \<open>
  One round of \<open>run\<close>: the branch of the \<open>select!\<close> that fired, then \<open>finish_drain\<close>. A delayed
  response that is due is at any position of the unordered set. The result is \<open>None\<close> while the
  loop goes on.
\<close>

datatype driver_input =
    CommandInput ticket driver_command
  | CommandsClosed
  | SwarmInput swarm_event
  | DelayedInput nat
  | CleanupInput

definition finish_round :: "driver \<times> driver_output list \<Rightarrow> driver \<times> driver_output list" where
  "finish_round r = (let (d, out) = r; (d1, out1) = finish_drain d in (d1, out @ out1))"

definition driver_round ::
  "'x externs_scheme \<Rightarrow> net_env \<Rightarrow> driver_input \<Rightarrow> driver \<Rightarrow> driver \<times> driver_output list \<times> unit res option" where
  "driver_round X E inp d =
     (let go = (\<lambda>r. let (d1, out) = finish_round r in (d1, out, None)) in
      case inp of
        CommandInput t c \<Rightarrow> go (handle_command X E t c d)
      | CommandsClosed \<Rightarrow>
          if drv_state d = Drained then (let (d1, out) = finish_round (d, []) in (d1, out, Some (Inr ())))
          else (d, [], Some (Inl P2pDriverClosed))
      | SwarmInput ev \<Rightarrow>
          (case handle_swarm_event X E ev d of
             (d1, out, Inl e) \<Rightarrow> (d1, out, Some (Inl e))
           | (d1, out, Inr _) \<Rightarrow> go (d1, out))
      | DelayedInput k \<Rightarrow>
          if k < length (delayed_responses d)
          then go (d\<lparr>delayed_responses := take k (delayed_responses d) @ drop (Suc k) (delayed_responses d)\<rparr>,
                   [Net (Publish (snd (delayed_responses d ! k)))])
          else (d, [], None)
      | CleanupInput \<Rightarrow> go (expire_queries E d, []))"

fun driver_run ::
  "'x externs_scheme \<Rightarrow> (net_env \<times> driver_input) list \<Rightarrow> driver \<Rightarrow> driver \<times> driver_output list \<times> unit res option" where
  "driver_run X [] d = (d, [], None)"
| "driver_run X ((E, inp) # rest) d =
     (case driver_round X E inp d of
        (d1, out, Some r) \<Rightarrow> (d1, out, Some r)
      | (d1, out, None) \<Rightarrow> let (d2, out2, r) = driver_run X rest d1 in (d2, out @ out2, r))"

section \<open>Construction\<close>

definition split_peer_address :: "multiaddr \<Rightarrow> (peer_id \<times> multiaddr) res" where
  "split_peer_address a =
     (if a = [] then Inl (InvalidConfig ''bootnode multiaddr must end with /p2p/<peer-id>'')
      else case last a of
        P2p peer \<Rightarrow> Inr (peer, butlast a)
      | _ \<Rightarrow> Inl (InvalidConfig ''bootnode multiaddr must end with /p2p/<peer-id>''))"

text \<open>
  What libp2p answers while the swarm is built: the checks of the gossip configuration and of the
  behaviour, the subscription, the transports, one listener per address, and the dials of the
  bootnodes.
\<close>

record build_env =
  build_codec :: p2p_codec
  gossip_config :: "nat \<Rightarrow> string + unit"
  gossip_new :: "string + unit"
  gossip_subscribe :: "string \<Rightarrow> string + unit"
  build_transport :: "unit res"
  listen_on :: "multiaddr \<Rightarrow> string + nat"
  show_multiaddr :: "multiaddr \<Rightarrow> string"
  dial_bootnode :: "peer_id \<Rightarrow> string + unit"

definition PROOF_EXCHANGE_PROTOCOL :: string where
  "PROOF_EXCHANGE_PROTOCOL = ''/pulsar/verifier/proof-exchange/1''"

text \<open>The behaviours (\<open>behaviour.rs\<close>) by their settings; gossip identifies messages by \<open>semantic_message_id\<close>.\<close>

record behaviour =
  gossip_topic :: string
  max_transmit_size :: nat
  exchange_protocol :: string
  exchange_response_limit :: nat
  exchange_timeout :: duration
  identify_protocol :: string
  ping_interval :: duration
  ping_timeout :: duration

definition behaviour_build ::
  "'x externs_scheme \<Rightarrow> build_env \<Rightarrow> p2p_config \<Rightarrow> peer_id set \<Rightarrow> (behaviour \<times> net_call list) res" where
  "behaviour_build X B cfg authorized =
     (let topic = ''/pulsar/verifier/'' @ p2p_chain_id cfg @ ''/availability/1'' in
      bind_res (map_err (\<lambda>e. P2pDriver (''invalid GossipSub config: '' @ e))
        (gossip_config B (max_availability_message_bytes cfg))) (\<lambda>_.
      bind_res (map_err (\<lambda>e. P2pDriver (''failed to build GossipSub: '' @ e)) (gossip_new B)) (\<lambda>_.
      bind_res (map_err (\<lambda>e. P2pDriver (''failed to subscribe topic: '' @ e)) (gossip_subscribe B topic)) (\<lambda>_.
      bind_res (max_response_bytes X (p2p_max_proof_bytes cfg) (p2p_chain_id cfg)) (\<lambda>limit.
        Inr (\<lparr>gossip_topic = topic, max_transmit_size = max_availability_message_bytes cfg,
               exchange_protocol = PROOF_EXCHANGE_PROTOCOL, exchange_response_limit = limit,
               exchange_timeout = proof_request_timeout cfg,
               identify_protocol = ''/pulsar/verifier/'' @ p2p_chain_id cfg @ ''/1'',
               ping_interval = from_secs 15, ping_timeout = from_secs 10\<rparr>,
             concat (map (\<lambda>p. [AllowPeer p, AddExplicitPeer p]) (sorted_list_of_set authorized))))))))"

fun listen_all :: "build_env \<Rightarrow> multiaddr list \<Rightarrow> nat set \<Rightarrow> nat set res" where
  "listen_all B [] ls = Inr ls"
| "listen_all B (a # as) ls =
     bind_res (map_err (\<lambda>e. P2pDriver (''failed to listen on '' @ show_multiaddr B a @ '': '' @ e)) (listen_on B a))
       (\<lambda>l. listen_all B as (insert l ls))"

fun add_bootnodes ::
  "build_env \<Rightarrow> peer_id set \<Rightarrow> multiaddr list \<Rightarrow> (peer_id \<rightharpoonup> multiaddr list) \<Rightarrow>
     ((peer_id \<rightharpoonup> multiaddr list) \<times> net_call list) res" where
  "add_bootnodes B authorized [] m = Inr (m, [])"
| "add_bootnodes B authorized (a # as) m =
     bind_res (split_peer_address a) (\<lambda>(peer, address).
       if peer \<notin> authorized
       then Inl (P2pAuthorization (''bootnode '' @ show_peer (build_codec B) peer @
         '' is not in the active validator set''))
       else bind_res (add_bootnodes B authorized as
           (m(peer \<mapsto> (case m peer of None \<Rightarrow> [] | Some ads \<Rightarrow> ads) @ [address])))
         (\<lambda>(m', calls). Inr (m', AddPeerAddress peer address # calls)))"

fun dial_bootnodes :: "build_env \<Rightarrow> (peer_id \<rightharpoonup> multiaddr list) \<Rightarrow> peer_id list \<Rightarrow> net_call list res" where
  "dial_bootnodes B m [] = Inr []"
| "dial_bootnodes B m (p # ps) =
     bind_res (map_err (\<lambda>e. P2pDriver (''failed to dial bootnode '' @ show_peer (build_codec B) p @ '': '' @ e))
       (dial_bootnode B p)) (\<lambda>_.
     bind_res (dial_bootnodes B m ps) (\<lambda>calls. Inr (DialPeer p (the (m p)) # calls)))"

definition new_driver :: "p2p_config \<Rightarrow> peer_id \<Rightarrow> peer_id set \<Rightarrow> nat set \<Rightarrow> driver" where
  "new_driver cfg me authorized ls =
     \<lparr>drv_config = cfg, local_peer_id = me, authorized_peers = authorized,
      drv_availability = Map.empty, outstanding_queries = Map.empty, outbound_requests = Map.empty,
      in_flight = {}, inbound_requests = Map.empty, next_proof_request_id = 1,
      next_inbound_request_id = 1, delayed_responses = [], pending_listeners = ls, listeners = ls,
      drv_ready = True, drv_state = Running\<rparr>"

definition driver_build ::
  "'x externs_scheme \<Rightarrow> build_env \<Rightarrow> p2p_config \<Rightarrow> peer_id \<Rightarrow> peer_id set \<Rightarrow>
     (driver \<times> behaviour \<times> net_call list) res" where
  "driver_build X B cfg me peers =
     (let authorized = peers - {me} in
      bind_res (behaviour_build X B cfg authorized) (\<lambda>(behaviour, allowed).
      bind_res (build_transport B) (\<lambda>_.
      bind_res (listen_all B (listen_addresses cfg) {}) (\<lambda>ls.
      bind_res (add_bootnodes B authorized (bootnodes cfg) Map.empty) (\<lambda>(m, calls).
      bind_res (dial_bootnodes B m (sorted_list_of_set (dom m))) (\<lambda>dials.
        Inr (new_driver cfg me authorized ls, behaviour, allowed @ calls @ dials)))))))"

text \<open>Nodes of different chains share no gossip topic and announce different protocols.\<close>

lemma behaviour_separates_chains:
  assumes "behaviour_build X B cfg peers = Inr (b, calls)" "behaviour_build X' B' cfg' peers' = Inr (b', calls')"
    and "gossip_topic b = gossip_topic b' \<or> identify_protocol b = identify_protocol b'"
  shows "p2p_chain_id cfg = p2p_chain_id cfg'"
  using assms by (auto simp: behaviour_build_def Let_def bind_res_Inr_iff)

text \<open>The loop ends well only when its mailbox closes after the drain.\<close>

lemma driver_round_success:
  "driver_round X E inp d = (d', out, Some (Inr ())) \<Longrightarrow> inp = CommandsClosed \<and> drv_state d' = Drained"
  by (auto simp: driver_round_def finish_round_def finish_drain_def Let_def
      split: driver_input.splits if_splits prod.splits sum.splits driver_state.splits)

lemma driver_run_success:
  "driver_run X script d = (d', out, Some (Inr ())) \<Longrightarrow>
     drv_state d' = Drained \<and> (\<exists>E before after. script = before @ (E, CommandsClosed) # after)"
proof (induction script arbitrary: d out)
  case (Cons ei script)
  obtain E inp where ei: "ei = (E, inp)" by (cases ei)
  obtain d1 out1 r where r: "driver_round X E inp d = (d1, out1, r)" by (cases "driver_round X E inp d")
  show ?case
  proof (cases r)
    case None
    then obtain out2 where "driver_run X script d1 = (d', out2, Some (Inr ()))"
      using Cons.prems by (auto simp: ei r split: prod.splits)
    from Cons.IH [OF this] show ?thesis by (metis append_Cons)
  next
    case (Some x)
    then have "driver_round X E inp d = (d', out, Some (Inr ()))" using Cons.prems by (simp add: ei r)
    from driver_round_success [OF this] show ?thesis unfolding ei by (metis append_Nil)
  qed
qed simp
section \<open>What a round does to the requests\<close>

definition answered_by :: "driver_output \<Rightarrow> nat list" where
  "answered_by ov =
     (case ov of
        Event _ (ProofReceived a _ _ _) \<Rightarrow> [a]
      | Event _ (ProofNotFound a _ _) \<Rightarrow> [a]
      | Event _ (ProofRequestFailed a _ _ _) \<Rightarrow> [a]
      | _ \<Rightarrow> [])"

definition answered :: "driver_output list \<Rightarrow> nat list" where
  "answered out = concat (map answered_by out)"

definition request_pair :: "outbound_request \<Rightarrow> peer_id \<times> verification_id" where
  "request_pair r = (out_peer r, out_verification_id r)"

definition same_requests :: "driver \<Rightarrow> driver \<Rightarrow> bool" where
  "same_requests d d' \<longleftrightarrow>
     outbound_requests d' = outbound_requests d \<and> in_flight d' = in_flight d
     \<and> next_proof_request_id d' = next_proof_request_id d"

definition issues :: "driver \<Rightarrow> driver \<Rightarrow> nat \<Rightarrow> outbound_request \<Rightarrow> bool" where
  "issues d d' k r \<longleftrightarrow>
     request_pair r \<notin> in_flight d \<and> out_peer r \<in> authorized_peers d
     \<and> out_application_id r = next_proof_request_id d
     \<and> outbound_requests d' = (outbound_requests d)(k \<mapsto> r) \<and> in_flight d' = insert (request_pair r) (in_flight d)
     \<and> next_proof_request_id d' = next_proof_request_id d + 1"

definition settles :: "driver \<Rightarrow> driver \<Rightarrow> nat \<Rightarrow> outbound_request \<Rightarrow> bool" where
  "settles d d' k r \<longleftrightarrow>
     outbound_requests d k = Some r \<and> outbound_requests d' = (outbound_requests d)(k := None)
     \<and> in_flight d' = in_flight d - {request_pair r} \<and> next_proof_request_id d' = next_proof_request_id d"

definition proof_event_ok :: "'x externs_scheme \<Rightarrow> driver \<Rightarrow> outbound_request \<Rightarrow> driver_output \<Rightarrow> bool" where
  "proof_event_ok X d r ov \<longleftrightarrow>
     (case ov of
        Event _ (ProofReceived a p i pf) \<Rightarrow>
          a = out_application_id r \<and> (p, i) = request_pair r \<and> verification_id X pf = i
          \<and> (\<exists>w. proof_from_wire w = Inr pf \<and> wire_proof_encoded_len X w \<le> p2p_max_proof_bytes (drv_config d))
      | _ \<Rightarrow> True)"

text \<open>A round leaves the requests alone, issues one, or settles one with exactly one event.\<close>

definition exchange_effect :: "'x externs_scheme \<Rightarrow> net_env \<Rightarrow> driver \<Rightarrow> driver \<Rightarrow> driver_output list \<Rightarrow> bool" where
  "exchange_effect X E d d' out \<longleftrightarrow>
     same_requests d d' \<and> answered out = []
     \<or> (\<exists>r. issues d d' (send_request_id E) r \<and> is_running d \<and> answered out = [])
     \<or> (\<exists>k r. settles d d' k r \<and> answered out = [out_application_id r] \<and> (\<forall>ov \<in> set out. proof_event_ok X d r ov))"

lemma answered_simps [simp]:
  "answered [] = []" "answered (ov # out) = answered_by ov @ answered out"
  "answered (out @ out') = answered out @ answered out'"
  "answered_by (Net c) = []" "answered_by (Reply t r) = []" "answered_by (ReadySignal s) = []"
  "answered_by (Event b (Listening l)) = []" "answered_by (Event b (PeerConnected p)) = []"
  "answered_by (Event b (PeerDisconnected p)) = []" "answered_by (Event b (AvailabilityAnnounced p i)) = []"
  "answered_by (Event b (ProvidersDiscovered q i ps)) = []" "answered_by (Event b (ProofRequested n p i)) = []"
  "answered_by (Event b (ProofReceived a p i pf)) = [a]" "answered_by (Event b (ProofNotFound a p i)) = [a]"
  "answered_by (Event b (ProofRequestFailed a p i reason)) = [a]"
  by (simp_all add: answered_def answered_by_def)

lemma answered_Nil: "(\<And>ov. ov \<in> set out \<Longrightarrow> answered_by ov = []) \<Longrightarrow> answered out = []"
  by (induction out) simp_all

lemma effect_same: "same_requests d d' \<Longrightarrow> answered out = [] \<Longrightarrow> exchange_effect X E d d' out"
  by (simp add: exchange_effect_def)

lemma same_requests_trans: "same_requests d d' \<Longrightarrow> same_requests d' d'' \<Longrightarrow> same_requests d d''"
  by (simp add: same_requests_def)

lemma driver_announce_same: "driver_announce E i d = (d', out, r) \<Longrightarrow> same_requests d d' \<and> answered out = []"
  by (auto simp: driver_announce_def Let_def same_requests_def split: if_splits)

lemma query_availability_same: "query_availability E i d = (d', out, r) \<Longrightarrow> same_requests d d' \<and> answered out = []"
  by (auto simp: query_availability_def Let_def same_requests_def split: sum.splits publish_error.splits)

lemma respond_proof_same: "respond_proof X E q reply d = (d', out, r) \<Longrightarrow> same_requests d d' \<and> answered out = []"
  by (auto simp: respond_proof_def Let_def same_requests_def split: option.splits if_splits)

lemma replace_authorized_peers_same:
  "replace_authorized_peers ps d = (d', out) \<Longrightarrow> same_requests d d' \<and> answered out = []"
  by (auto simp: replace_authorized_peers_def Let_def same_requests_def intro!: answered_Nil)

lemma begin_drain_same: "begin_drain t d = (d', out) \<Longrightarrow> same_requests d d' \<and> answered out = []"
  by (auto simp: begin_drain_def same_requests_def intro!: answered_Nil)

lemma finish_drain_same: "finish_drain d = (d', out) \<Longrightarrow> same_requests d d' \<and> answered out = []"
  by (auto simp: finish_drain_def same_requests_def split: driver_state.splits if_splits)

lemma handle_gossip_same: "handle_gossip E ev d = (d', out) \<Longrightarrow> same_requests d d' \<and> answered out = []"
  by (auto simp: handle_gossip_def Let_def same_requests_def emit_def
      split: gossip_event.splits sum.splits validated_availability.splits if_splits option.splits)

lemma handle_inbound_request_same:
  "handle_inbound_request X E peer req ch d = (d', out) \<Longrightarrow> same_requests d d' \<and> answered out = []"
  by (auto simp: handle_inbound_request_def Let_def emit_def split: if_splits sum.splits prod.splits
      dest!: respond_proof_same simp: same_requests_def)

lemmas same_effects = driver_announce_same query_availability_same respond_proof_same
  replace_authorized_peers_same begin_drain_same handle_gossip_same handle_inbound_request_same

lemma driver_request_proof_effect:
  assumes "driver_request_proof E p i d = (d', out, r)"
  shows "exchange_effect X E d d' out"
proof (cases "is_running d \<and> p \<in> authorized_peers d \<and> (p, i) \<notin> in_flight d")
  case True
  then have "issues d d' (send_request_id E)
      \<lparr>out_application_id = next_proof_request_id d, out_peer = p, out_verification_id = i\<rparr> \<and> answered out = []"
    using assms by (auto simp: driver_request_proof_def require_running_def Let_def issues_def request_pair_def)
  with True show ?thesis unfolding exchange_effect_def by blast
next
  case False
  then have "d' = d" "out = []"
    using assms by (auto simp: driver_request_proof_def require_running_def split: if_splits)
  then show ?thesis by (simp add: effect_same same_requests_def)
qed

lemma validate_exchanged_proof_Inr:
  "validate_exchanged_proof X w i n = Inr p \<longleftrightarrow>
     wire_proof_encoded_len X w \<le> n \<and> proof_from_wire w = Inr p \<and> verification_id X p = i"
  by (auto simp: validate_exchanged_proof_def bind_res_Inr_iff)

lemma settled_effect:
  assumes "outbound_requests d k = Some r" "outbound_requests d' = (outbound_requests d)(k := None)"
    "in_flight d' = in_flight d - {request_pair r}" "next_proof_request_id d' = next_proof_request_id d"
    "out = [ov]" "answered_by ov = [out_application_id r]" "proof_event_ok X d r ov"
  shows "exchange_effect X E d d' out"
proof -
  have "settles d d' k r \<and> answered out = [out_application_id r] \<and> (\<forall>ov \<in> set out. proof_event_ok X d r ov)"
    using assms by (simp add: settles_def)
  then show ?thesis unfolding exchange_effect_def by blast
qed

lemma handle_outbound_response_effect:
  assumes h: "handle_outbound_response X E p k resp d = (d', out)"
  shows "exchange_effect X E d d' out"
proof (cases "outbound_requests d k")
  case None
  with h show ?thesis by (simp add: handle_outbound_response_def effect_same same_requests_def)
next
  case (Some r)
  note defs = handle_outbound_response_def Let_def emit_failed_def emit_def forget_request_def
    proof_event_ok_def request_pair_def validate_exchanged_proof_Inr
  show ?thesis
    using h Some
    by (intro settled_effect [where ov = "hd out", OF Some])
       (auto simp: defs split: if_splits option.splits proof_result.splits sum.splits)
qed

lemma handle_exchange_effect:
  assumes h: "handle_exchange X E ev d = (d', out)"
  shows "exchange_effect X E d d' out"
proof (cases ev)
  case (ExchangeRequest p req ch)
  with h have "same_requests d d' \<and> answered out = []"
    by (intro handle_inbound_request_same [of X E p req ch]) (simp add: handle_exchange_def)
  then show ?thesis by (simp add: effect_same)
next
  case (ExchangeResponse p k resp)
  with h show ?thesis by (intro handle_outbound_response_effect) (simp add: handle_exchange_def)
next
  case (OutboundFailure p k reason)
  show ?thesis
  proof (cases "outbound_requests d k")
    case (Some r)
    then show ?thesis
      using h OutboundFailure
      by (intro settled_effect [where ov = "hd out", OF Some])
         (auto simp: handle_exchange_def forget_request_def emit_def request_pair_def proof_event_ok_def)
  qed (use h OutboundFailure in \<open>simp add: handle_exchange_def effect_same same_requests_def\<close>)
qed (use h in \<open>simp_all add: handle_exchange_def effect_same same_requests_def\<close>)

lemma effect_after:
  assumes "exchange_effect X E d d' out" "same_requests d' d''" "answered out' = []"
    "\<forall>ov \<in> set out'. case ov of Event _ _ \<Rightarrow> False | _ \<Rightarrow> True"
  shows "exchange_effect X E d d'' (out @ out')"
proof -
  have "proof_event_ok X d r ov" if "ov \<in> set out'" for r ov
    using assms(4) that by (auto simp: proof_event_ok_def split: driver_output.splits)
  moreover have "same_requests d d'' = same_requests d d'" "issues d d'' k r = issues d d' k r"
      "settles d d'' k r = settles d d' k r" for k r
    using assms(2) by (simp_all add: same_requests_def issues_def settles_def)
  ultimately show ?thesis
    using assms(1,3) unfolding exchange_effect_def by (simp add: ball_Un)
qed

lemma handle_command_effect:
  assumes h: "handle_command X E t c d = (d', out)"
  shows "exchange_effect X E d d' out"
proof (cases c)
  case (RequestProof p i)
  with h obtain out1 r where "driver_request_proof E p i d = (d', out1, r)" "out = out1 @ [Reply t (RequestReply r)]"
    by (auto simp: handle_command_def split: prod.splits)
  then show ?thesis using effect_after [OF driver_request_proof_effect, of E p i d d' out1 r d' "[Reply t (RequestReply r)]"]
    by (simp add: same_requests_def)
next
  case Drain
  with h show ?thesis
    by (auto simp: handle_command_def effect_same same_requests_def split: driver_state.splits dest: begin_drain_same)
qed (use h in \<open>auto simp: handle_command_def intro!: effect_same split: prod.splits if_splits
       dest: same_effects simp: same_requests_def\<close>)

lemma handle_swarm_event_effect:
  assumes h: "handle_swarm_event X E ev d = (d', out, r)"
  shows "exchange_effect X E d d' out"
proof (cases ev)
  case (Gossipsub e)
  with h have "handle_gossip E e d = (d', out)" by (auto simp: handle_swarm_event_def split: prod.splits)
  then show ?thesis using handle_gossip_same [of E e d d' out] by (simp add: effect_same)
next
  case (ProofExchange e)
  with h have "handle_exchange X E e d = (d', out)" by (auto simp: handle_swarm_event_def split: prod.splits)
  then show ?thesis by (rule handle_exchange_effect)
qed (use h in \<open>auto simp: handle_swarm_event_def Let_def emit_def same_requests_def intro!: effect_same split: if_splits\<close>)

lemma finish_drain_events: "finish_drain d = (d', out) \<Longrightarrow> \<forall>ov \<in> set out. case ov of Event _ _ \<Rightarrow> False | _ \<Rightarrow> True"
  by (auto simp: finish_drain_def split: driver_state.splits if_splits)

lemma finish_round_effect:
  assumes "exchange_effect X E d d1 out1" "finish_round (d1, out1) = (d', out)"
  shows "exchange_effect X E d d' out"
proof -
  obtain out2 where f: "finish_drain d1 = (d', out2)" "out = out1 @ out2"
    using assms(2) by (auto simp: finish_round_def split: prod.splits)
  then show ?thesis
    using effect_after [OF assms(1)] finish_drain_same [OF f(1)] finish_drain_events [OF f(1)] by simp
qed

text \<open>The cases of a round: the handler that ran, and whether the end of a drain was checked.\<close>

lemma driver_round_cases:
  assumes "driver_round X E inp d = (d', out, r)"
  obtains (command) t c d1 out1 where "inp = CommandInput t c" "handle_command X E t c d = (d1, out1)"
      "finish_round (d1, out1) = (d', out)" "r = None"
  | (swarm) ev d1 out1 where "inp = SwarmInput ev" "handle_swarm_event X E ev d = (d1, out1, Inr ())"
      "finish_round (d1, out1) = (d', out)" "r = None"
  | (failed) ev e where "inp = SwarmInput ev" "handle_swarm_event X E ev d = (d', out, Inl e)" "r = Some (Inl e)"
  | (published) k where "inp = DelayedInput k" "k < length (delayed_responses d)"
      "finish_round (d\<lparr>delayed_responses := take k (delayed_responses d) @ drop (Suc k) (delayed_responses d)\<rparr>,
         [Net (Publish (snd (delayed_responses d ! k)))]) = (d', out)" "r = None"
  | (cleanup) "inp = CleanupInput" "finish_round (expire_queries E d, []) = (d', out)" "r = None"
  | (closed) "inp = CommandsClosed" "drv_state d = Drained" "d' = d" "out = []" "r = Some (Inr ())"
  | (orphaned) "inp = CommandsClosed" "drv_state d \<noteq> Drained" "d' = d" "out = []" "r = Some (Inl P2pDriverClosed)"
  | (idle) k where "inp = DelayedInput k" "length (delayed_responses d) \<le> k" "d' = d" "out = []" "r = None"
proof (cases inp)
  case (SwarmInput ev)
  obtain d1 out1 res where h: "handle_swarm_event X E ev d = (d1, out1, res)" by (metis prod_cases3)
  show ?thesis using assms SwarmInput h swarm failed
    by (cases res) (auto simp: driver_round_def Let_def split: prod.splits)
qed (use assms that in \<open>auto simp: driver_round_def Let_def finish_round_def finish_drain_def
       split: prod.splits if_splits\<close>)

lemma driver_round_effect:
  assumes "driver_round X E inp d = (d', out, r)"
  shows "exchange_effect X E d d' out"
  using assms
proof (cases rule: driver_round_cases)
  case (command t c d1 out1)
  then show ?thesis by (blast intro: finish_round_effect handle_command_effect)
next
  case (swarm ev d1 out1)
  then show ?thesis by (blast intro: finish_round_effect handle_swarm_event_effect)
next
  case (failed ev e)
  then show ?thesis by (blast intro: handle_swarm_event_effect)
next
  case (published k)
  show ?thesis by (rule finish_round_effect [OF effect_same published(3)]) (simp_all add: same_requests_def)
next
  case cleanup
  show ?thesis by (rule finish_round_effect [OF effect_same cleanup(2)]) (simp_all add: same_requests_def expire_queries_def)
qed (simp_all add: effect_same same_requests_def)

section \<open>What every round keeps\<close>

definition sound_driver :: "driver \<Rightarrow> bool" where
  "sound_driver d \<longleftrightarrow>
     local_peer_id d \<notin> authorized_peers d \<and> index_ok (drv_availability d)
     \<and> (\<forall>k r. inbound_requests d k = Some r \<longrightarrow> k < next_inbound_request_id d)"

definition keeps_driver :: "driver \<Rightarrow> driver \<Rightarrow> bool" where
  "keeps_driver d d' \<longleftrightarrow>
     drv_config d' = drv_config d \<and> local_peer_id d' = local_peer_id d
     \<and> (sound_driver d \<longrightarrow> sound_driver d') \<and> (\<not> is_running d \<and> exchange_idle d \<longrightarrow> exchange_idle d')"

definition keeps_running :: "driver \<Rightarrow> driver \<Rightarrow> bool" where
  "keeps_running d d' \<longleftrightarrow> keeps_driver d d' \<and> drv_state d' = drv_state d"

lemma index_ok_ops [simp]:
  "index_ok d \<Longrightarrow> index_ok (add_provider d i p)" "index_ok d \<Longrightarrow> index_ok (remove_provider d i p)"
  "index_ok d \<Longrightarrow> index_ok (remove_peer d p)" "index_ok d \<Longrightarrow> index_ok (replace_provider_proofs d p is)"
  "index_ok d \<Longrightarrow> index_ok (fold (\<lambda>p idx. add_provider idx i p) ps d)"
  "index_ok d \<Longrightarrow> index_ok (fold (\<lambda>p idx. remove_peer idx p) ps d)"
  using avail.replaced avail.add_providers avail.drop_peers
  by (simp_all add: avail.add avail.drop_one avail.drop_peer replace_provider_proofs_def)

lemmas keeps_defs = keeps_running_def keeps_driver_def sound_driver_def exchange_idle_def is_running_def

lemma keeps_driver_trans: "keeps_driver d d' \<Longrightarrow> drv_state d' = drv_state d \<Longrightarrow> keeps_driver d' d'' \<Longrightarrow> keeps_driver d d''"
  by (simp add: keeps_driver_def is_running_def)

lemma driver_announce_keeps: "driver_announce E i d = (d', out, r) \<Longrightarrow> keeps_running d d'"
  by (auto simp: driver_announce_def Let_def keeps_defs split: if_splits)

lemma query_availability_keeps: "query_availability E i d = (d', out, r) \<Longrightarrow> keeps_running d d'"
  by (auto simp: query_availability_def Let_def keeps_defs split: sum.splits publish_error.splits)

lemma driver_request_proof_keeps: "driver_request_proof E p i d = (d', out, r) \<Longrightarrow> keeps_running d d'"
  by (auto simp: driver_request_proof_def require_running_def Let_def keeps_defs split: if_splits)

lemma respond_proof_keeps: "respond_proof X E q reply d = (d', out, r) \<Longrightarrow> keeps_running d d'"
  by (auto simp: respond_proof_def Let_def keeps_defs split: option.splits if_splits)

lemma replace_authorized_peers_keeps: "replace_authorized_peers ps d = (d', out) \<Longrightarrow> keeps_running d d'"
  by (auto simp: replace_authorized_peers_def Let_def keeps_defs)

lemma handle_gossip_keeps: "handle_gossip E ev d = (d', out) \<Longrightarrow> keeps_running d d'"
  by (auto simp: handle_gossip_def Let_def keeps_defs
      split: gossip_event.splits sum.splits validated_availability.splits if_splits option.splits)

lemma handle_inbound_request_keeps:
  assumes "handle_inbound_request X E peer req ch d = (d', out)"
  shows "keeps_running d d'"
proof (cases "d' = d")
  case False
  let ?r = "next_inbound_request_id d"
  obtain i where run: "is_running d" and i: "verification_id_try_from (request_verification_id req) = Inr i"
    using assms False by (auto simp: handle_inbound_request_def Let_def split: if_splits sum.splits)
  define d1 where "d1 = d\<lparr>next_inbound_request_id := ?r + 1, inbound_requests := (inbound_requests d)(?r \<mapsto>
    \<lparr>in_peer = peer, in_verification_id = i, in_channel = ch\<rparr>)\<rparr>"
  have d1: "keeps_running d d1" using run by (auto simp: d1_def keeps_defs)
  have "d' = d1 \<or> (\<exists>out2 r2. respond_proof X E ?r None d1 = (d', out2, r2))"
    using assms False i run
    by (auto simp: handle_inbound_request_def Let_def d1_def simp del: verification_id_try_from_Inr
        split: if_splits prod.splits)
  then show ?thesis using d1 run by (auto dest!: respond_proof_keeps simp: keeps_defs)
qed (simp add: keeps_defs)

lemma handle_outbound_response_keeps: "handle_outbound_response X E p k resp d = (d', out) \<Longrightarrow> keeps_running d d'"
  by (auto simp: handle_outbound_response_def Let_def forget_request_def emit_failed_def keeps_defs
      split: option.splits if_splits proof_result.splits sum.splits)

lemma handle_exchange_keeps: "handle_exchange X E ev d = (d', out) \<Longrightarrow> keeps_running d d'"
proof (cases ev)
  case (ExchangeRequest p req ch)
  then show "handle_exchange X E ev d = (d', out) \<Longrightarrow> keeps_running d d'"
    by (auto simp: handle_exchange_def intro: handle_inbound_request_keeps)
next
  case (ExchangeResponse p k resp)
  then show "handle_exchange X E ev d = (d', out) \<Longrightarrow> keeps_running d d'"
    by (auto simp: handle_exchange_def intro: handle_outbound_response_keeps)
qed (auto simp: handle_exchange_def forget_request_def keeps_defs split: option.splits)

lemmas handler_keeps = driver_announce_keeps query_availability_keeps driver_request_proof_keeps
  respond_proof_keeps replace_authorized_peers_keeps

lemma handle_command_keeps:
  assumes h: "handle_command X E t c d = (d', out)"
  shows "keeps_driver d d' \<and> (drv_state d' = drv_state d \<or> is_running d \<and> drv_state d' = Draining t)"
proof (cases "c = Drain \<and> is_running d")
  case True
  with h show ?thesis by (auto simp: handle_command_def begin_drain_def keeps_defs)
next
  case False
  have "keeps_running d d'"
  proof (cases c)
    case Drain
    with h False show ?thesis by (auto simp: handle_command_def keeps_defs split: driver_state.splits)
  qed (use h in \<open>auto simp: handle_command_def split: prod.splits if_splits dest: handler_keeps
         simp: keeps_running_def keeps_driver_def sound_driver_def exchange_idle_def\<close>)
  then show ?thesis by (simp add: keeps_running_def)
qed

lemma handle_swarm_event_keeps:
  assumes h: "handle_swarm_event X E ev d = (d', out, r)"
  shows "keeps_running d d'"
proof (cases ev)
  case (Gossipsub e)
  with h show ?thesis by (auto simp: handle_swarm_event_def split: prod.splits intro: handle_gossip_keeps)
next
  case (ProofExchange e)
  with h show ?thesis by (auto simp: handle_swarm_event_def split: prod.splits intro: handle_exchange_keeps)
qed (use h in \<open>auto simp: handle_swarm_event_def Let_def keeps_defs split: if_splits\<close>)

text \<open>
  A drain that is over has nothing left to exchange, and a drain that goes on has something left:
  \<open>finish_drain\<close> runs after every round.
\<close>

definition drain_ok :: "driver \<Rightarrow> bool" where
  "drain_ok d \<longleftrightarrow>
     (case drv_state d of Running \<Rightarrow> True | Draining t \<Rightarrow> \<not> exchange_idle d | Drained \<Rightarrow> exchange_idle d)"

lemma finish_round_drain:
  assumes "finish_round (d1, out1) = (d', out)" "drv_state d1 = Drained \<Longrightarrow> exchange_idle d1"
  shows "drain_ok d' \<and> drv_config d' = drv_config d1 \<and> (sound_driver d1 \<longrightarrow> sound_driver d')"
  using assms
  by (auto simp: finish_round_def finish_drain_def drain_ok_def sound_driver_def exchange_idle_def
      split: driver_state.splits if_splits)

lemma driver_round_keeps:
  assumes h: "driver_round X E inp d = (d', out, r)" and d: "sound_driver d" "drain_ok d"
  shows "sound_driver d' \<and> drain_ok d' \<and> drv_config d' = drv_config d"
  using h
proof (cases rule: driver_round_cases)
  case (command t c d1 out1)
  have "keeps_driver d d1" "drv_state d1 = Drained \<Longrightarrow> exchange_idle d1"
    using handle_command_keeps [OF command(2)] d(2)
    by (auto simp: keeps_driver_def drain_ok_def is_running_def)
  then show ?thesis using finish_round_drain [OF command(3)] d(1) by (simp add: keeps_driver_def)
next
  case (swarm ev d1 out1)
  have "keeps_driver d d1" "drv_state d1 = Drained \<Longrightarrow> exchange_idle d1"
    using handle_swarm_event_keeps [OF swarm(2)] d(2)
    by (auto simp: keeps_running_def keeps_driver_def drain_ok_def is_running_def)
  then show ?thesis using finish_round_drain [OF swarm(3)] d(1) by (simp add: keeps_driver_def)
next
  case (failed ev e)
  then have "is_running d" by (auto simp: handle_swarm_event_def Let_def split: swarm_event.splits if_splits prod.splits)
  then show ?thesis
    using handle_swarm_event_keeps [OF failed(2)] d
    by (simp add: keeps_running_def keeps_driver_def drain_ok_def is_running_def)
next
  case (published k)
  have "drv_state d \<noteq> Drained" using d(2) published(2) by (auto simp: drain_ok_def exchange_idle_def)
  then show ?thesis using finish_round_drain [OF published(3)] d(1) by (simp add: sound_driver_def)
next
  case cleanup
  have "drv_state d = Drained \<Longrightarrow> exchange_idle (expire_queries E d)"
    using d(2) by (simp add: drain_ok_def exchange_idle_def expire_queries_def)
  then show ?thesis
    using finish_round_drain [OF cleanup(2)] d(1) by (simp add: sound_driver_def expire_queries_def)
qed (use d in simp_all)

section \<open>Every command is answered once\<close>

definition replied :: "driver_output list \<Rightarrow> ticket list" where
  "replied out = concat (map (\<lambda>ov. case ov of Reply t _ \<Rightarrow> [t] | _ \<Rightarrow> []) out)"

definition asked :: "driver_input \<Rightarrow> ticket list" where
  "asked inp = (case inp of CommandInput t _ \<Rightarrow> [t] | _ \<Rightarrow> [])"

definition pending_drain :: "driver \<Rightarrow> ticket list" where
  "pending_drain d = (case drv_state d of Draining t \<Rightarrow> [t] | _ \<Rightarrow> [])"

lemma replied_simps [simp]:
  "replied [] = []" "replied (Net c # out) = replied out" "replied (Event b e # out) = replied out"
  "replied (Reply t r # out) = t # replied out" "replied (ReadySignal s # out) = replied out"
  "replied (out @ out') = replied out @ replied out'"
  by (simp_all add: replied_def)

lemma replied_Nil: "\<forall>ov \<in> set out. (case ov of Reply _ _ \<Rightarrow> False | _ \<Rightarrow> True) \<Longrightarrow> replied out = []"
  by (induction out) (auto simp: replied_def split: driver_output.splits)

lemma no_replies:
  "driver_announce E i d = (d', out, ru) \<Longrightarrow> replied out = []"
  "query_availability E i d = (d', out, rq) \<Longrightarrow> replied out = []"
  "driver_request_proof E p i d = (d', out, rn) \<Longrightarrow> replied out = []"
  "respond_proof X E q reply d = (d', out, ru) \<Longrightarrow> replied out = []"
  "replace_authorized_peers ps d = (d', out) \<Longrightarrow> replied out = []"
  "begin_drain t d = (d', out) \<Longrightarrow> replied out = []"
  by (auto simp: driver_announce_def query_availability_def driver_request_proof_def respond_proof_def
      replace_authorized_peers_def begin_drain_def Let_def intro!: replied_Nil
      split: if_splits sum.splits option.splits publish_error.splits)

lemma handle_gossip_replies: "handle_gossip E ev d = (d', out) \<Longrightarrow> replied out = []"
  by (auto simp: handle_gossip_def Let_def emit_def
      split: gossip_event.splits sum.splits validated_availability.splits if_splits option.splits)

lemma handle_exchange_replies: "handle_exchange X E ev d = (d', out) \<Longrightarrow> replied out = []"
  by (auto simp: handle_exchange_def handle_inbound_request_def handle_outbound_response_def emit_failed_def
      Let_def emit_def split: exchange_event.splits if_splits sum.splits prod.splits option.splits
      proof_result.splits dest: no_replies(4))

lemma handle_swarm_event_replies: "handle_swarm_event X E ev d = (d', out, r) \<Longrightarrow> replied out = []"
  by (cases ev)
     (auto simp: handle_swarm_event_def Let_def emit_def split: if_splits prod.splits
      dest: handle_gossip_replies handle_exchange_replies)

lemma handle_command_replies:
  assumes h: "handle_command X E t c d = (d', out)"
  shows "mset (replied out) + mset (pending_drain d') = mset [t] + mset (pending_drain d)"
proof (cases "c = Drain")
  case True
  show ?thesis
  proof (cases "drv_state d = Running")
    case run: True
    then have "begin_drain t d = (d', out)" using h True by (simp add: handle_command_def)
    then show ?thesis using no_replies(6) [of t d d' out] run by (auto simp: pending_drain_def begin_drain_def)
  qed (use h True in \<open>auto simp: handle_command_def pending_drain_def split: driver_state.splits\<close>)
next
  case False
  then have "replied out = [t]"
    using h by (cases c) (auto simp: handle_command_def split: prod.splits if_splits dest: no_replies)
  moreover have "drv_state d' = drv_state d"
    using handle_command_keeps [OF h] h False
    by (cases c) (auto simp: handle_command_def split: prod.splits if_splits
        dest: handler_keeps simp: keeps_running_def)
  ultimately show ?thesis by (simp add: pending_drain_def)
qed

lemma finish_round_replies:
  "finish_round (d1, out1) = (d', out) \<Longrightarrow>
     mset (replied out) + mset (pending_drain d') = mset (replied out1) + mset (pending_drain d1)"
  by (auto simp: finish_round_def finish_drain_def pending_drain_def split: driver_state.splits if_splits)

lemma driver_round_replies:
  assumes h: "driver_round X E inp d = (d', out, r)"
  shows "mset (replied out) + mset (pending_drain d') = mset (asked inp) + mset (pending_drain d)"
  using h
proof (cases rule: driver_round_cases)
  case (command t c d1 out1)
  then show ?thesis using finish_round_replies [OF command(3)] handle_command_replies [OF command(2)]
    by (simp add: asked_def)
next
  case (swarm ev d1 out1)
  then show ?thesis
    using finish_round_replies [OF swarm(3)] handle_swarm_event_replies [OF swarm(2)]
      handle_swarm_event_keeps [OF swarm(2)]
    by (simp add: asked_def pending_drain_def keeps_running_def)
next
  case (failed ev e)
  then show ?thesis
    using handle_swarm_event_replies [OF failed(2)] handle_swarm_event_keeps [OF failed(2)]
    by (simp add: asked_def pending_drain_def keeps_running_def)
next
  case (published k)
  then show ?thesis using finish_round_replies [OF published(3)] by (simp add: asked_def pending_drain_def)
next
  case cleanup
  then show ?thesis using finish_round_replies [OF cleanup(2)]
    by (simp add: asked_def pending_drain_def expire_queries_def)
qed (simp_all add: asked_def)

section \<open>Accounting over whole runs\<close>

text \<open>
  A run of the driver from its construction, with the tickets of the commands it took and all it
  put out. libp2p never reuses the identifier of an outbound request that is still open.
\<close>

type_synonym driver_history = "driver \<times> ticket list \<times> driver_output list"

definition driver_init :: "driver_history \<Rightarrow> bool" where
  "driver_init s \<longleftrightarrow> (\<exists>cfg me peers ls. s = (new_driver cfg me (peers - {me}) ls, [], []))"

inductive driver_step :: "'x externs_scheme \<Rightarrow> driver_history \<Rightarrow> driver_history \<Rightarrow> bool" for X where
  driver_round_step:
    "driver_round X E inp d = (d', out, r) \<Longrightarrow> send_request_id E \<notin> dom (outbound_requests d) \<Longrightarrow>
     driver_step X (d, ts, log) (d', ts @ asked inp, log @ out)"

lemma driver_build_init: "driver_build X B cfg me peers = Inr (d, b, calls) \<Longrightarrow> driver_init (d, [], [])"
  by (auto simp: driver_build_def Let_def bind_res_Inr_iff driver_init_def)

definition open_ids :: "driver \<Rightarrow> nat set" where
  "open_ids d = out_application_id ` ran (outbound_requests d)"

definition requests_ok :: "driver \<Rightarrow> driver_output list \<Rightarrow> bool" where
  "requests_ok d log \<longleftrightarrow>
     in_flight d = request_pair ` ran (outbound_requests d)
     \<and> (\<forall>k l r r'. outbound_requests d k = Some r \<longrightarrow> outbound_requests d l = Some r' \<longrightarrow>
          request_pair r = request_pair r' \<or> out_application_id r = out_application_id r' \<longrightarrow> k = l)
     \<and> distinct (answered log) \<and> set (answered log) \<inter> open_ids d = {}
     \<and> set (answered log) \<union> open_ids d = {1..<next_proof_request_id d} \<and> 1 \<le> next_proof_request_id d"

lemma ran_remove:
  assumes "m k = Some r" "\<And>l r'. m l = Some r' \<Longrightarrow> f r' = f r \<Longrightarrow> l = k"
  shows "f ` ran (m(k := None)) = f ` ran m - {f r}"
proof (intro equalityI subsetI)
  fix x assume "x \<in> f ` ran (m(k := None))"
  then obtain l r' where "m l = Some r'" "l \<noteq> k" "x = f r'" by (auto simp: ran_def split: if_splits)
  then show "x \<in> f ` ran m - {f r}" using assms(2) [of l r'] by (auto intro: ranI)
next
  fix x assume "x \<in> f ` ran m - {f r}"
  then obtain l r' where l: "m l = Some r'" "x = f r'" "x \<noteq> f r" by (auto simp: ran_def)
  then have "l \<noteq> k" using assms(1) by auto
  with l have "(m(k := None)) l = Some r'" by simp
  then have "r' \<in> ran (m(k := None))" by (rule ranI)
  then show "x \<in> f ` ran (m(k := None))" using l(2) by (rule rev_image_eqI)
qed

lemma requests_ok_issue:
  assumes d: "requests_ok d log" and i: "issues d d' k r" "k \<notin> dom (outbound_requests d)" and out: "answered out = []"
  shows "requests_ok d' (log @ out)"
proof -
  let ?n = "next_proof_request_id d"
  have ran: "ran (outbound_requests d') = insert r (ran (outbound_requests d))"
    using i by (auto simp: issues_def ran_map_upd dom_def)
  have new: "request_pair r' \<noteq> request_pair r" "out_application_id r' < ?n" if "outbound_requests d l = Some r'" for l r'
  proof -
    have "r' \<in> ran (outbound_requests d)" using that by (rule ranI)
    then have "request_pair r' \<in> in_flight d" "out_application_id r' \<in> {1..<?n}"
      using d unfolding requests_ok_def open_ids_def by blast+
    then show "request_pair r' \<noteq> request_pair r" "out_application_id r' < ?n" using i by (auto simp: issues_def)
  qed
  have m: "outbound_requests d' = (outbound_requests d)(k \<mapsto> r)" "out_application_id r = ?n"
    using i by (simp_all add: issues_def)
  have inj: "a = l" if "outbound_requests d' a = Some q" "outbound_requests d' l = Some q'"
      "request_pair q = request_pair q' \<or> out_application_id q = out_application_id q'" for a l q q'
  proof (cases "a = k \<or> l = k")
    case True
    then show ?thesis using that new [of a q] new [of l q'] m by (auto split: if_splits)
  next
    case False
    then show ?thesis using that m d unfolding requests_ok_def by (metis fun_upd_other)
  qed
  have "?n \<notin> set (answered log)" using d by (auto simp: requests_ok_def)
  moreover have "open_ids d' = insert ?n (open_ids d)" using ran m by (simp add: open_ids_def)
  moreover have "in_flight d' = request_pair ` ran (outbound_requests d')" "next_proof_request_id d' = Suc ?n"
    using d i ran by (simp_all add: requests_ok_def issues_def)
  ultimately show ?thesis using d inj out
    by (auto simp: requests_ok_def atLeastLessThanSuc)
qed

lemma requests_ok_settle:
  assumes d: "requests_ok d log" and s: "settles d d' k r" and out: "answered out = [out_application_id r]"
  shows "requests_ok d' (log @ out)"
proof -
  have k: "outbound_requests d k = Some r" using s by (simp add: settles_def)
  have pairs: "request_pair ` ran (outbound_requests d') = request_pair ` ran (outbound_requests d) - {request_pair r}"
    and ids: "open_ids d' = open_ids d - {out_application_id r}"
    using d k s unfolding open_ids_def requests_ok_def settles_def by (auto intro!: ran_remove)
  have "out_application_id r \<in> open_ids d" using k by (auto simp: open_ids_def intro: ranI)
  then show ?thesis
    using d s out pairs ids unfolding requests_ok_def by (auto simp: settles_def)
qed

lemma requests_ok_effect:
  assumes "requests_ok d log" "exchange_effect X E d d' out" "send_request_id E \<notin> dom (outbound_requests d)"
  shows "requests_ok d' (log @ out)"
  using assms(2) unfolding exchange_effect_def
proof (elim disjE exE conjE)
  assume "same_requests d d'" "answered out = []"
  then show ?thesis using assms(1) by (simp add: requests_ok_def open_ids_def same_requests_def)
qed (use assms in \<open>blast intro: requests_ok_issue requests_ok_settle\<close>)+

definition proof_received_ok :: "'x externs_scheme \<Rightarrow> driver \<Rightarrow> driver_output \<Rightarrow> bool" where
  "proof_received_ok X d ov \<longleftrightarrow>
     (case ov of
        Event _ (ProofReceived _ _ i pf) \<Rightarrow>
          verification_id X pf = i
          \<and> (\<exists>w. proof_from_wire w = Inr pf \<and> wire_proof_encoded_len X w \<le> p2p_max_proof_bytes (drv_config d))
      | _ \<Rightarrow> True)"

lemma effect_received:
  assumes "exchange_effect X E d d' out" "ov \<in> set out"
  shows "proof_received_ok X d ov"
proof (cases "answered_by ov = []")
  case True
  then show ?thesis
    by (auto simp: proof_received_ok_def answered_by_def split: driver_output.splits driver_event.splits)
next
  case False
  then have "answered out \<noteq> []" using assms(2) by (auto simp: answered_def)
  then obtain r where "proof_event_ok X d r ov" using assms by (auto simp: exchange_effect_def)
  then show ?thesis
    by (auto simp: proof_event_ok_def proof_received_ok_def request_pair_def
        split: driver_output.splits driver_event.splits)
qed

definition history_ok :: "'x externs_scheme \<Rightarrow> driver_history \<Rightarrow> bool" where
  "history_ok X s \<longleftrightarrow>
     (case s of (d, ts, log) \<Rightarrow>
        requests_ok d log \<and> sound_driver d \<and> drain_ok d
        \<and> mset (replied log) + mset (pending_drain d) = mset ts
        \<and> (\<forall>ov \<in> set log. proof_received_ok X d ov))"

interpretation driver_sys: transition_system driver_init "driver_step X" "history_ok X" for X
proof
  show "history_ok X s" if "driver_init s" for s
    using that
    by (auto simp: driver_init_def history_ok_def new_driver_def requests_ok_def open_ids_def
        sound_driver_def drain_ok_def pending_drain_def avail.void)
  show "history_ok X t" if "history_ok X s" "driver_step X s t" for s t
    using that(2,1)
  proof cases
    case (driver_round_step E inp d d' out r ts log)
    note h = driver_round_step(3)
    have s: "requests_ok d log" "sound_driver d" "drain_ok d"
        "mset (replied log) + mset (pending_drain d) = mset ts" "\<forall>ov \<in> set log. proof_received_ok X d ov"
      using that(1) driver_round_step(1) by (simp_all add: history_ok_def)
    have d': "sound_driver d'" "drain_ok d'" "drv_config d' = drv_config d"
      using driver_round_keeps [OF h s(2,3)] by simp_all
    have "requests_ok d' (log @ out)"
      using requests_ok_effect [OF s(1) driver_round_effect [OF h]] driver_round_step(4) by simp
    moreover have "mset (replied (log @ out)) + mset (pending_drain d') = mset (ts @ asked inp)"
      using driver_round_replies [OF h] s(4) by (simp add: union_ac) (metis union_assoc union_commute)
    moreover have "proof_received_ok X d' = proof_received_ok X d"
      unfolding fun_eq_iff proof_received_ok_def d'(3) by simp
    then have "\<forall>ov \<in> set (log @ out). proof_received_ok X d' ov"
      using s(5) effect_received [OF driver_round_effect [OF h]] by auto
    ultimately show ?thesis using d' driver_round_step(2) by (simp add: history_ok_def)
  qed
qed

definition demo_net :: net_env where
  "demo_net = \<lparr>net_codec = demo_p2p_codec, publish = (\<lambda>_. Inr ()), send_request_id = 5, send_response_ok = True,
     random_query_id = QueryId (replicate 16 1), random_delay = 60, net_now = 0, events_open = True\<rparr>"

definition demo_p2p_config :: p2p_config where
  "demo_p2p_config = \<lparr>p2p_enabled = True, p2p_chain_id = ''pulsar'', listen_addresses = [], bootnodes = [],
     validator_key_path = ''/key'', max_availability_message_bytes = 65536, p2p_max_proof_bytes = 1000,
     proof_request_timeout = from_secs 10, max_concurrent_retrievals = 1, retrieval_timeout = from_secs 60,
     retrieval_initial_backoff = from_secs 1, retrieval_max_backoff = from_secs 10, command_buffer = 16,
     p2p_event_buffer = 16\<rparr>"

definition demo_driver :: driver where
  "demo_driver = new_driver demo_p2p_config [1] ({[1], [2]} - {[1]}) {}"

definition demo_asking :: driver where
  "demo_asking = demo_driver\<lparr>in_flight := {([2], demo_id)}, next_proof_request_id := 2,
     outbound_requests := [5 \<mapsto> \<lparr>out_application_id = 1, out_peer = [2], out_verification_id = demo_id\<rparr>]\<rparr>"

lemma demo_request_round:
  "driver_round demo_store_externs demo_net (CommandInput 0 (RequestProof [2] demo_id)) demo_driver =
     (demo_asking,
      [Net (SendRequest 5 [2] \<lparr>request_chain_id = ''pulsar'', request_verification_id = as_bytes demo_id\<rparr>),
       Reply 0 (RequestReply (Inr 1))], None)"
  by (simp add: driver_round_def handle_command_def driver_request_proof_def require_running_def is_running_def
      demo_driver_def demo_asking_def new_driver_def demo_net_def finish_round_def finish_drain_def
      demo_p2p_config_def Let_def)

definition demo_asked :: driver_history where
  "demo_asked = (demo_asking, [0],
     [Net (SendRequest 5 [2] \<lparr>request_chain_id = ''pulsar'', request_verification_id = as_bytes demo_id\<rparr>),
      Reply 0 (RequestReply (Inr 1))])"

lemma demo_asked_reach: "reach driver_init (driver_step demo_store_externs) demo_asked"
proof -
  have "reach driver_init (driver_step demo_store_externs) (demo_driver, [], [])"
    unfolding demo_driver_def driver_init_def by (intro reach.reach_init) blast
  moreover have "send_request_id demo_net \<notin> dom (outbound_requests demo_driver)"
    by (simp add: demo_driver_def new_driver_def)
  ultimately show ?thesis
    using driver_round_step [OF demo_request_round, of "[]" "[]"]
    by (auto simp: demo_asked_def asked_def intro: reach.reach_step)
qed



text \<open>
  C19. The mailbox is answered exactly: every command gets one reply, except a drain that still
  waits; a drain waits only while an exchange is unfinished, and once it is answered nothing is
  left in flight; the node never authorizes itself.
\<close>

theorem driver_answers_commands:
  assumes "reach driver_init (driver_step X) (d, ts, log)"
  shows "mset (replied log) + mset (pending_drain d) = mset ts
    \<and> (case drv_state d of
         Running \<Rightarrow> True
       | Draining t \<Rightarrow> t \<in> set ts \<and> \<not> exchange_idle d
       | Drained \<Rightarrow> outbound_requests d = Map.empty \<and> inbound_requests d = Map.empty \<and> delayed_responses d = [])
    \<and> local_peer_id d \<notin> authorized_peers d"
proof -
  have h: "sound_driver d" "drain_ok d" "mset (replied log) + mset (pending_drain d) = mset ts"
    using driver_sys.reachable_inv [OF assms] by (simp_all add: history_ok_def)
  have "t \<in> set ts" if "drv_state d = Draining t" for t
    using arg_cong [OF h(3), of set_mset] that by (auto simp: pending_drain_def)
  then show ?thesis
    using h by (auto simp: drain_ok_def sound_driver_def exchange_idle_def split: driver_state.splits)
qed

theorem driver_answers_commands_witness:
  "replied (snd (snd demo_asked)) = [0] \<and> local_peer_id demo_asking \<notin> authorized_peers demo_asking"
  using driver_answers_commands [OF demo_asked_reach [unfolded demo_asked_def]]
  by (simp add: demo_asked_def)

end
