(* ===== verification/Retrieval.thy ===== *)
theory Retrieval
  imports Driver Store_Lifecycle
begin

text \<open>
  The P2P worker (\<open>src/p2p/worker.rs\<close>): it answers the proof requests of other peers from the
  store, and retrieves the content of observed verifications, a bounded number at a time, from
  the providers the driver knows, asking the network for providers and retrying after a backoff.
  The replies of the driver, the clock and the random draws are functions of the number of
  commands sent so far, so every interleaving with the driver is some choice of them. A handler
  works on one snapshot of the shared store; other tasks change it between handlers.
\<close>

section \<open>State\<close>

record retrieval_state =
  discovery_deadline :: "instant option"
  transfer_deadline :: "instant option"
  attempted :: "peer_id set"
  active_request :: "(nat \<times> peer_id) option"
  open_query :: "query_id option"
  retry_round :: nat
  timer_generation :: "64 word"
  rs_queued :: bool
  rs_finished :: bool

record retrieval_wake =
  wake_id :: verification_id
  wake_generation :: "64 word"
  wake_delay :: duration

text \<open>\<open>sent\<close> and \<open>published\<close> collect the driver commands and the store events of the run.\<close>

record p2p_worker =
  w_local_peer_id :: peer_id
  w_max_concurrent :: nat
  w_timeout :: duration
  w_initial_backoff :: duration
  w_max_backoff :: duration
  retrievals :: "verification_id \<rightharpoonup> retrieval_state"
  r_pending :: "verification_id list"
  active_retrievals :: nat
  wakes :: "retrieval_wake list"
  w_store :: store
  sent :: "driver_command list"
  published :: "proof_store_event list"

record 'x worker_env =
  w_externs :: 'x
  unit_reply :: "nat \<Rightarrow> driver_command \<Rightarrow> unit res"
  query_reply :: "nat \<Rightarrow> verification_id \<Rightarrow> query_id res"
  providers_reply :: "nat \<Rightarrow> verification_id \<Rightarrow> peer_id list res"
  request_reply :: "nat \<Rightarrow> peer_id \<Rightarrow> verification_id \<Rightarrow> nat res"
  shuffle :: "nat \<Rightarrow> peer_id list \<Rightarrow> peer_id list"
  jitter_draw :: "nat \<Rightarrow> nat"
  w_clock :: "nat \<Rightarrow> instant"
  provider_rounds :: nat

definition p2p_worker_new :: "peer_id \<Rightarrow> p2p_config \<Rightarrow> store \<Rightarrow> p2p_worker" where
  "p2p_worker_new me cfg s =
     \<lparr>w_local_peer_id = me, w_max_concurrent = max_concurrent_retrievals cfg,
      w_timeout = retrieval_timeout cfg, w_initial_backoff = retrieval_initial_backoff cfg,
      w_max_backoff = retrieval_max_backoff cfg, retrievals = Map.empty, r_pending = [],
      active_retrievals = 0, wakes = [], w_store = s, sent = [], published = []\<rparr>"

text \<open>
  How a handler ends: it returns, an \<open>expect\<close> fails, or it is still waiting for a reply of the
  driver that the environment does not give.
\<close>

datatype worker_run = Finished p2p_worker "unit res" | Panic | Waiting

fun then_w :: "worker_run \<Rightarrow> (p2p_worker \<Rightarrow> worker_run) \<Rightarrow> worker_run" where
  "then_w (Finished w (Inr _)) f = f w"
| "then_w (Finished w (Inl e)) f = Finished w (Inl e)"
| "then_w Panic f = Panic"
| "then_w Waiting f = Waiting"

definition or_panic :: "p2p_worker option \<Rightarrow> worker_run" where
  "or_panic r = (case r of None \<Rightarrow> Panic | Some w \<Rightarrow> Finished w (Inr ()))"

definition send :: "driver_command \<Rightarrow> p2p_worker \<Rightarrow> p2p_worker" where
  "send c w = w\<lparr>sent := sent w @ [c]\<rparr>"

definition w_now :: "'x worker_env \<Rightarrow> p2p_worker \<Rightarrow> instant" where
  "w_now E w = w_clock E (length (sent w))"

definition command :: "'x worker_env \<Rightarrow> driver_command \<Rightarrow> p2p_worker \<Rightarrow> worker_run" where
  "command E c w = Finished (send c w) (unit_reply E (length (sent w)) c)"

section \<open>One retrieval\<close>

definition active_deadline :: "retrieval_state \<Rightarrow> instant option" where
  "active_deadline st = (case transfer_deadline st of Some t \<Rightarrow> Some t | None \<Rightarrow> discovery_deadline st)"

definition passed :: "instant \<Rightarrow> instant option \<Rightarrow> bool" where
  "passed now deadline = (case deadline of None \<Rightarrow> False | Some t \<Rightarrow> t \<le> now)"

definition retry_cap :: "duration \<Rightarrow> duration \<Rightarrow> nat \<Rightarrow> duration" where
  "retry_cap initial maximum round = min (duration_saturating_mul initial (2 ^ min round 31)) maximum"

definition retrieval_jitter :: "duration \<Rightarrow> duration \<Rightarrow> nat \<Rightarrow> duration" where
  "retrieval_jitter cap remaining draw = draw mod (min (min cap remaining) (u64_bound - 1) + 1)"

definition get_or_insert :: "instant \<Rightarrow> instant option \<Rightarrow> instant option" where
  "get_or_insert t deadline = (case deadline of None \<Rightarrow> Some t | Some u \<Rightarrow> Some u)"

definition fresh_retrieval :: retrieval_state where
  "fresh_retrieval =
     \<lparr>discovery_deadline = None, transfer_deadline = None, attempted = {}, active_request = None,
      open_query = None, retry_round = 0, timer_generation = 0, rs_queued = False, rs_finished = False\<rparr>"

definition set_retrieval :: "verification_id \<Rightarrow> retrieval_state option \<Rightarrow> p2p_worker \<Rightarrow> p2p_worker" where
  "set_retrieval i st w = w\<lparr>retrievals := (retrievals w)(i := st)\<rparr>"

definition enqueue_retrieval :: "verification_id \<Rightarrow> p2p_worker \<Rightarrow> p2p_worker" where
  "enqueue_retrieval i w =
     (case retrievals w i of
        None \<Rightarrow> w
      | Some st \<Rightarrow>
          if rs_queued st \<or> active_request st \<noteq> None \<or> rs_finished st then w
          else (set_retrieval i (Some (st\<lparr>rs_queued := True\<rparr>)) w)\<lparr>r_pending := r_pending w @ [i]\<rparr>)"

definition stop_retrieval :: "verification_id \<Rightarrow> p2p_worker \<Rightarrow> p2p_worker" where
  "stop_retrieval i w =
     (case retrievals w i of
        None \<Rightarrow> w
      | Some st \<Rightarrow>
          if active_request st = None then set_retrieval i None w
          else set_retrieval i (Some (st\<lparr>rs_finished := True, rs_queued := False, open_query := None,
            timer_generation := timer_generation st + 1\<rparr>)) w)"

definition clear_query :: "verification_id \<Rightarrow> p2p_worker \<Rightarrow> p2p_worker" where
  "clear_query i w =
     (case retrievals w i of
        None \<Rightarrow> w
      | Some st \<Rightarrow> set_retrieval i (Some (st\<lparr>open_query := None, timer_generation := timer_generation st + 1\<rparr>)) w)"

definition schedule_retry :: "'x worker_env \<Rightarrow> verification_id \<Rightarrow> p2p_worker \<Rightarrow> p2p_worker option" where
  "schedule_retry E i w =
     (case retrievals w i of
        None \<Rightarrow> Some w
      | Some st \<Rightarrow>
          let cap = retry_cap (w_initial_backoff w) (w_max_backoff w) (retry_round st) in
          (case active_deadline st of
             None \<Rightarrow> None
           | Some deadline \<Rightarrow>
               let delay = retrieval_jitter cap (deadline - w_now E w) (jitter_draw E (length (sent w)));
                   generation = timer_generation st + 1 in
               Some ((set_retrieval i (Some (st\<lparr>retry_round := min (retry_round st + 1) (u32_bound - 1),
                   timer_generation := generation\<rparr>)) w)
                 \<lparr>wakes := wakes w @ [\<lparr>wake_id = i, wake_generation = generation, wake_delay = delay\<rparr>]\<rparr>)))"

definition finish_request ::
  "'x worker_env \<Rightarrow> verification_id \<Rightarrow> nat \<Rightarrow> peer_id \<Rightarrow> bool \<Rightarrow> p2p_worker \<Rightarrow> p2p_worker option" where
  "finish_request E i r peer succeeded w =
     (case retrievals w i of
        None \<Rightarrow> Some w
      | Some st \<Rightarrow>
          if active_request st \<noteq> Some (r, peer) then Some w
          else if active_retrievals w = 0 then None
          else
            let w1 = w\<lparr>active_retrievals := active_retrievals w - 1\<rparr> in
            if succeeded \<or> rs_finished st \<or> passed (w_now E w) (active_deadline st)
            then Some (set_retrieval i None w1)
            else Some (enqueue_retrieval i (set_retrieval i
              (Some (st\<lparr>active_request := None, attempted := insert peer (attempted st)\<rparr>)) w1)))"

definition candidates :: "'x worker_env \<Rightarrow> verification_id \<Rightarrow> peer_id list \<Rightarrow> p2p_worker \<Rightarrow> peer_id list" where
  "candidates E i ps w =
     (let tried = (case retrievals w i of None \<Rightarrow> {} | Some st \<Rightarrow> attempted st) in
      shuffle E (length (sent w)) (filter (\<lambda>p. p \<noteq> w_local_peer_id w \<and> p \<notin> tried) ps))"

definition started :: "'x worker_env \<Rightarrow> verification_id \<Rightarrow> nat \<Rightarrow> peer_id \<Rightarrow> p2p_worker \<Rightarrow> p2p_worker" where
  "started E i r peer w =
     (case retrievals w i of
        None \<Rightarrow> w
      | Some st \<Rightarrow>
          (set_retrieval i (Some (st\<lparr>transfer_deadline := get_or_insert (w_now E w + w_timeout w) (transfer_deadline st),
             open_query := None, timer_generation := timer_generation st + 1,
             active_request := Some (r, peer)\<rparr>)) w)\<lparr>active_retrievals := active_retrievals w + 1\<rparr>)"

definition unauthorized :: "verification_id \<Rightarrow> peer_id \<Rightarrow> p2p_worker \<Rightarrow> p2p_worker" where
  "unauthorized i peer w =
     (case retrievals w i of
        None \<Rightarrow> w
      | Some st \<Rightarrow> set_retrieval i (Some (st\<lparr>attempted := insert peer (attempted st)\<rparr>)) w)"

text \<open>The part of the loop body without a provider to ask: query the network, with a timer.\<close>

definition discover :: "'x worker_env \<Rightarrow> verification_id \<Rightarrow> p2p_worker \<Rightarrow> worker_run" where
  "discover E i w =
     (if (case retrievals w i of None \<Rightarrow> False | Some st \<Rightarrow> open_query st \<noteq> None) then Finished w (Inr ())
      else if (case retrievals w i of None \<Rightarrow> False | Some st \<Rightarrow> passed (w_now E w) (active_deadline st))
      then Finished (stop_retrieval i w) (Inr ())
      else
        let w1 = send (QueryAvailability i) w in
        (case query_reply E (length (sent w)) i of
           Inr q \<Rightarrow>
             or_panic (schedule_retry E i
               (case retrievals w1 i of
                  None \<Rightarrow> w1
                | Some st \<Rightarrow> set_retrieval i (Some (st\<lparr>discovery_deadline :=
                    get_or_insert (w_now E w1 + w_timeout w1) (discovery_deadline st), open_query := Some q\<rparr>)) w1))
         | Inl P2pDraining \<Rightarrow> Finished (stop_retrieval i w1) (Inr ())
         | Inl e \<Rightarrow> Finished w1 (Inl e)))"

fun try_retrieve :: "'x worker_env \<Rightarrow> nat \<Rightarrow> verification_id \<Rightarrow> p2p_worker \<Rightarrow> worker_run" where
  "try_retrieve E 0 i w = Waiting"
| "try_retrieve E (Suc n) i w =
     (let w1 = send (Providers i) w in
      case providers_reply E (length (sent w)) i of
        Inl e \<Rightarrow> Finished w1 (Inl e)
      | Inr ps \<Rightarrow>
          if candidates E i ps w1 = [] then discover E i w1
          else
            let peer = last (candidates E i ps w1) in
            if (case retrievals w1 i of None \<Rightarrow> False | Some st \<Rightarrow> passed (w_now E w1) (transfer_deadline st))
            then Finished (stop_retrieval i w1) (Inr ())
            else if w_max_concurrent w1 \<le> active_retrievals w1 then Finished (enqueue_retrieval i w1) (Inr ())
            else
              let w2 = send (RequestProof peer i) w1 in
              (case request_reply E (length (sent w1)) peer i of
                 Inr r \<Rightarrow> Finished (started E i r peer w2) (Inr ())
               | Inl (P2pAuthorization _) \<Rightarrow> try_retrieve E n i (unauthorized i peer w2)
               | Inl P2pDraining \<Rightarrow> Finished (stop_retrieval i w2) (Inr ())
               | Inl e \<Rightarrow> Finished w2 (Inl e)))"

text \<open>
  \<open>drive_pending\<close> takes one identifier off the queue per turn; a turn puts one back only when all
  slots are busy, so the length of the queue bounds the number of turns.
\<close>

fun drive_turns :: "'x worker_env \<Rightarrow> nat \<Rightarrow> p2p_worker \<Rightarrow> worker_run" where
  "drive_turns E 0 w =
     (if active_retrievals w < w_max_concurrent w \<and> r_pending w \<noteq> [] then Waiting else Finished w (Inr ()))"
| "drive_turns E (Suc n) w =
     (if w_max_concurrent w \<le> active_retrievals w then Finished w (Inr ())
      else case r_pending w of
        [] \<Rightarrow> Finished w (Inr ())
      | i # rest \<Rightarrow>
          let w1 = w\<lparr>r_pending := rest\<rparr> in
          (case retrievals w1 i of
             None \<Rightarrow> drive_turns E n w1
           | Some st \<Rightarrow>
               let w2 = set_retrieval i (Some (st\<lparr>rs_queued := False\<rparr>)) w1 in
               if rs_finished st \<or> active_request st \<noteq> None then drive_turns E n w2
               else then_w (try_retrieve E (provider_rounds E) i w2) (drive_turns E n)))"

definition drive_pending :: "'x worker_env \<Rightarrow> p2p_worker \<Rightarrow> worker_run" where
  "drive_pending E w = drive_turns E (length (r_pending w)) w"

definition waiting_in_store :: "'x store_externs_scheme worker_env \<Rightarrow> verification_id \<Rightarrow> p2p_worker \<Rightarrow> bool" where
  "waiting_in_store E i w =
     (case store_get (w_externs E) (w_store w) i of
        None \<Rightarrow> False
      | Some a \<Rightarrow> chain_observed_at (metadata (arc_val a)) \<noteq> None \<and> record_proof (arc_val a) = None)"

definition ensure_retrieval ::
  "'x store_externs_scheme worker_env \<Rightarrow> verification_id \<Rightarrow> p2p_worker \<Rightarrow> worker_run" where
  "ensure_retrieval E i w =
     (if \<not> waiting_in_store E i w then Finished (stop_retrieval i w) (Inr ())
      else
        let w1 = (case retrievals w i of None \<Rightarrow> set_retrieval i (Some fresh_retrieval) w | Some _ \<Rightarrow> w) in
        drive_pending E (enqueue_retrieval i w1))"

section \<open>Handlers\<close>

fun announce_all :: "'x worker_env \<Rightarrow> verification_id list \<Rightarrow> p2p_worker \<Rightarrow> worker_run" where
  "announce_all E [] w = Finished w (Inr ())"
| "announce_all E (i # is) w = then_w (command E (Announce i) w) (announce_all E is)"

fun ensure_all :: "'x store_externs_scheme worker_env \<Rightarrow> verification_id list \<Rightarrow> p2p_worker \<Rightarrow> worker_run" where
  "ensure_all E [] w = Finished w (Inr ())"
| "ensure_all E (i # is) w = then_w (ensure_retrieval E i w) (ensure_all E is)"

definition reconcile_store :: "'x store_externs_scheme worker_env \<Rightarrow> p2p_worker \<Rightarrow> worker_run" where
  "reconcile_store E w =
     (let local_ids = map stored_id (locally_available_proofs (w_externs E) (w_store w)) in
      then_w (command E (ReplaceLocalProofs (set local_ids)) w) (\<lambda>w1.
      then_w (announce_all E local_ids w1) (\<lambda>w2.
        let waiting = map stored_id (records_waiting_for_content (w_externs E) (w_store w2));
            w3 = fold (\<lambda>i w. if i \<in> set waiting then w else stop_retrieval i w)
              (sorted_list_of_set (dom (retrievals w2))) w2 in
        ensure_all E waiting w3)))"

definition store_download ::
  "'x store_externs_scheme worker_env \<Rightarrow> verification_id \<Rightarrow> zk_proof \<Rightarrow> peer_id \<Rightarrow> p2p_worker \<Rightarrow>
     p2p_worker \<times> store_change res" where
  "store_download E i p peer w =
     (let (s, evs, r) = attach_downloaded_proof (w_externs E) (w_now E w) (w_store w) i p peer in
      (w\<lparr>w_store := s, published := published w @ evs\<rparr>, r))"

definition drive_unless :: "bool \<Rightarrow> 'x worker_env \<Rightarrow> p2p_worker \<Rightarrow> worker_run" where
  "drive_unless draining E w = (if draining then Finished w (Inr ()) else drive_pending E w)"

definition handle_driver_event ::
  "'x store_externs_scheme worker_env \<Rightarrow> bool \<Rightarrow> driver_event \<Rightarrow> p2p_worker \<Rightarrow> worker_run" where
  "handle_driver_event E draining ev w =
     (case ev of
        ProofRequested r _ i \<Rightarrow>
          command E (RespondProof r (get_proof (w_externs E) (w_store w) i)) w
      | ProofReceived r peer i p \<Rightarrow>
          (let (w1, stored) = store_download E i p peer w in
           case stored of
             Inr _ \<Rightarrow> then_w (or_panic (finish_request E i r peer True w1)) (drive_unless draining E)
           | Inl (VerificationIdMismatch _) \<Rightarrow>
               then_w (or_panic (finish_request E i r peer False w1)) (drive_unless draining E)
           | Inl (ProofTooLarge _ _ _) \<Rightarrow>
               then_w (or_panic (finish_request E i r peer False w1)) (drive_unless draining E)
           | Inl (ProofNotObserved _) \<Rightarrow>
               then_w (or_panic (finish_request E i r peer True w1))
                 (\<lambda>w2. drive_unless draining E (stop_retrieval i w2))
           | Inl e \<Rightarrow> Finished w1 (Inl e))
      | ProofNotFound r peer i \<Rightarrow>
          then_w (or_panic (finish_request E i r peer False w)) (drive_unless draining E)
      | ProofRequestFailed r peer i _ \<Rightarrow>
          then_w (or_panic (finish_request E i r peer False w)) (drive_unless draining E)
      | AvailabilityAnnounced peer i \<Rightarrow>
          if draining \<or> (case retrievals w i of None \<Rightarrow> False | Some st \<Rightarrow> peer \<in> attempted st)
          then Finished w (Inr ()) else ensure_retrieval E i w
      | ProvidersDiscovered q i _ \<Rightarrow>
          if draining \<or> (case retrievals w i of None \<Rightarrow> True | Some st \<Rightarrow> open_query st \<noteq> Some q)
          then Finished w (Inr ()) else drive_pending E (enqueue_retrieval i (clear_query i w))
      | PeerConnected _ \<Rightarrow> if draining then Finished w (Inr ()) else reconcile_store E w
      | _ \<Rightarrow> Finished w (Inr ()))"

definition handle_store_event ::
  "'x store_externs_scheme worker_env \<Rightarrow> bool \<Rightarrow> proof_store_event \<Rightarrow> p2p_worker \<Rightarrow> worker_run" where
  "handle_store_event E draining ev w =
     (if draining then Finished w (Inr ())
      else case ev of
        VerificationObserved i \<Rightarrow> ensure_retrieval E i w
      | ProofStored i _ \<Rightarrow> then_w (command E (Announce i) (stop_retrieval i w)) (drive_pending E)
      | ProofEvicted i _ \<Rightarrow> then_w (command E (ForgetLocalProof i) (stop_retrieval i w)) (drive_pending E)
      | VerificationChanged i _ \<Rightarrow> drive_pending E (stop_retrieval i w))"

datatype store_recv = StoreEvent proof_store_event | StoreLagged nat | StoreClosed

definition p2p_handle_store_result ::
  "'x store_externs_scheme worker_env \<Rightarrow> bool \<Rightarrow> store_recv \<Rightarrow> p2p_worker \<Rightarrow> worker_run" where
  "p2p_handle_store_result E draining r w =
     (case r of
        StoreEvent ev \<Rightarrow> handle_store_event E draining ev w
      | StoreLagged _ \<Rightarrow> if draining then Finished w (Inr ()) else reconcile_store E w
      | StoreClosed \<Rightarrow> Finished w (Inl (ProofStoreError ''proof store event channel closed'')))"

definition handle_wake :: "'x worker_env \<Rightarrow> retrieval_wake \<Rightarrow> p2p_worker \<Rightarrow> worker_run" where
  "handle_wake E k w =
     (case retrievals w (wake_id k) of
        None \<Rightarrow> Finished w (Inr ())
      | Some st \<Rightarrow>
          if timer_generation st \<noteq> wake_generation k \<or> rs_finished st then Finished w (Inr ())
          else
            let w1 = set_retrieval (wake_id k) (Some (st\<lparr>open_query := None\<rparr>)) w in
            if passed (w_now E w1) (active_deadline st) then Finished (stop_retrieval (wake_id k) w1) (Inr ())
            else drive_pending E (enqueue_retrieval (wake_id k) w1))"

section \<open>The loop and its drain\<close>

text \<open>
  A round of the drain takes what is in the two channels until each is empty. The loop ends when
  a round finds nothing.
\<close>

datatype drain_recv = DriverItem driver_event | DriverGone | StoreItem store_recv

fun drain_items :: "'x store_externs_scheme worker_env \<Rightarrow> drain_recv list \<Rightarrow> p2p_worker \<Rightarrow> worker_run" where
  "drain_items E [] w = Finished w (Inr ())"
| "drain_items E (DriverItem ev # rest) w = then_w (handle_driver_event E True ev w) (drain_items E rest)"
| "drain_items E (DriverGone # rest) w = Finished w (Inl P2pDriverClosed)"
| "drain_items E (StoreItem (StoreEvent ev) # rest) w = then_w (handle_store_event E True ev w) (drain_items E rest)"
| "drain_items E (StoreItem (StoreLagged _) # rest) w = drain_items E rest w"
| "drain_items E (StoreItem StoreClosed # rest) w =
     Finished w (Inl (ProofStoreError ''proof store event channel closed''))"

fun drain_rounds :: "'x store_externs_scheme worker_env \<Rightarrow> drain_recv list list \<Rightarrow> p2p_worker \<Rightarrow> worker_run" where
  "drain_rounds E [] w = Waiting"
| "drain_rounds E (items # rest) w =
     (if items = [] then Finished w (Inr ())
      else then_w (drain_items E items w) (drain_rounds E rest))"

definition worker_drain :: "'x store_externs_scheme worker_env \<Rightarrow> drain_recv list list \<Rightarrow> p2p_worker \<Rightarrow> worker_run" where
  "worker_drain E rounds w = drain_rounds E rounds (w\<lparr>r_pending := [], wakes := []\<rparr>)"

datatype worker_input =
    StopSignal "drain_recv list list"
  | DriverRecv "driver_event option"
  | StoreRecv store_recv
  | WakeReady nat

definition take_wake :: "nat \<Rightarrow> p2p_worker \<Rightarrow> p2p_worker" where
  "take_wake n w = w\<lparr>wakes := take n (wakes w) @ drop (Suc n) (wakes w)\<rparr>"

definition worker_turn ::
  "'x store_externs_scheme worker_env \<Rightarrow> worker_input \<Rightarrow> p2p_worker \<Rightarrow> worker_run" where
  "worker_turn E inp w =
     (case inp of
        StopSignal rounds \<Rightarrow> worker_drain E rounds w
      | DriverRecv None \<Rightarrow> Finished w (Inl P2pDriverClosed)
      | DriverRecv (Some ev) \<Rightarrow> handle_driver_event E False ev w
      | StoreRecv r \<Rightarrow> p2p_handle_store_result E False r w
      | WakeReady n \<Rightarrow>
          if n < length (wakes w) then handle_wake E (wakes w ! n) (take_wake n w) else Finished w (Inr ()))"

text \<open>Each turn starts with the store the other tasks left.\<close>

fun worker_loop ::
  "('x store_externs_scheme worker_env \<times> store \<times> worker_input) list \<Rightarrow> p2p_worker \<Rightarrow> worker_run" where
  "worker_loop [] w = Waiting"
| "worker_loop ((E, s, inp) # rest) w =
     (case inp of
        StopSignal _ \<Rightarrow> worker_turn E inp (w\<lparr>w_store := s\<rparr>)
      | _ \<Rightarrow> then_w (worker_turn E inp (w\<lparr>w_store := s\<rparr>)) (worker_loop rest))"

definition run_worker ::
  "'x store_externs_scheme worker_env \<Rightarrow> ('x store_externs_scheme worker_env \<times> store \<times> worker_input) list \<Rightarrow>
     p2p_worker \<Rightarrow> worker_run" where
  "run_worker E script w = then_w (reconcile_store E w) (worker_loop script)"

section \<open>Slots, queue and timers\<close>

definition slots :: "p2p_worker \<Rightarrow> verification_id set" where
  "slots w = {i. \<exists>st. retrievals w i = Some st \<and> active_request st \<noteq> None}"

definition entry_ok :: "p2p_worker \<Rightarrow> verification_id \<Rightarrow> retrieval_state \<Rightarrow> bool" where
  "entry_ok w i st \<longleftrightarrow>
     (rs_queued st \<longrightarrow> i \<in> set (r_pending w))
     \<and> (open_query st \<noteq> None \<longrightarrow>
          (\<exists>k \<in> set (wakes w). wake_id k = i \<and> wake_generation k = timer_generation st))
     \<and> (rs_finished st \<longrightarrow> active_request st \<noteq> None)
     \<and> (active_request st \<noteq> None \<longrightarrow> open_query st = None)"

definition counted :: "p2p_worker \<Rightarrow> bool" where
  "counted w \<longleftrightarrow> finite (dom (retrievals w)) \<and> active_retrievals w = card (slots w)"

definition p2p_worker_inv :: "p2p_worker \<Rightarrow> bool" where
  "p2p_worker_inv w \<longleftrightarrow>
     counted w \<and> active_retrievals w \<le> w_max_concurrent w
     \<and> (\<forall>i st. retrievals w i = Some st \<longrightarrow> entry_ok w i st)"

text \<open>A retrieval that nothing will continue: no request, not queued, no query with its timer.\<close>

definition stranded :: "p2p_worker \<Rightarrow> verification_id set" where
  "stranded w =
     {i. \<exists>st. retrievals w i = Some st \<and> active_request st = None \<and> \<not> rs_queued st \<and> open_query st = None}"

definition settled :: "p2p_worker \<Rightarrow> bool" where
  "settled w \<longleftrightarrow>
     p2p_worker_inv w \<and> stranded w = {} \<and> (r_pending w = [] \<or> w_max_concurrent w \<le> active_retrievals w)"

text \<open>
  What a handler may do: never fail an \<open>expect\<close>, and end well when it returns without error. With
  \<open>L\<close> it also returns; that needs an environment whose replies are enough: the providers come
  from a finite set, and there is one more round than providers.
\<close>

definition safely :: "bool \<Rightarrow> (p2p_worker \<Rightarrow> bool) \<Rightarrow> worker_run \<Rightarrow> bool" where
  "safely L Q r =
     (case r of Finished w (Inr _) \<Rightarrow> Q w | Finished w (Inl _) \<Rightarrow> True | Panic \<Rightarrow> False | Waiting \<Rightarrow> \<not> L)"

definition replies_within :: "peer_id set \<Rightarrow> 'x worker_env \<Rightarrow> bool" where
  "replies_within U E \<longleftrightarrow>
     finite U \<and> (\<forall>k i ps. providers_reply E k i = Inr ps \<longrightarrow> set ps \<subseteq> U)
     \<and> (\<forall>k xs. set (shuffle E k xs) = set xs)"

definition enough_replies :: "'x worker_env \<Rightarrow> bool" where
  "enough_replies E \<longleftrightarrow> (\<exists>U. replies_within U E \<and> card U < provider_rounds E)"

lemma safely_simps [simp]:
  "safely L Q (Finished w (Inr u)) = Q w" "safely L Q (Finished w (Inl e))" "\<not> safely L Q Panic" "safely L Q Waiting \<longleftrightarrow> \<not> L"
  by (simp_all add: safely_def)

lemma safely_then: "safely L P r \<Longrightarrow> (\<And>w. P w \<Longrightarrow> safely L Q (f w)) \<Longrightarrow> safely L Q (then_w r f)"
  by (cases "(r, f)" rule: then_w.cases) auto

lemma safely_mono: "safely L P r \<Longrightarrow> (\<And>w. P w \<Longrightarrow> Q w) \<Longrightarrow> safely L Q r"
  by (auto simp: safely_def split: worker_run.splits sum.splits)

lemma set_retrieval_sel [simp]:
  "retrievals (set_retrieval i st w) = (retrievals w)(i := st)" "r_pending (set_retrieval i st w) = r_pending w"
  "active_retrievals (set_retrieval i st w) = active_retrievals w" "wakes (set_retrieval i st w) = wakes w"
  "w_max_concurrent (set_retrieval i st w) = w_max_concurrent w" "sent (set_retrieval i st w) = sent w"
  by (simp_all add: set_retrieval_def)

lemma send_sel [simp]:
  "retrievals (send c w) = retrievals w" "r_pending (send c w) = r_pending w"
  "active_retrievals (send c w) = active_retrievals w" "wakes (send c w) = wakes w"
  "w_max_concurrent (send c w) = w_max_concurrent w"
  by (simp_all add: send_def)

lemma slots_finite: "counted w \<Longrightarrow> finite (slots w)"
  by (rule finite_subset [of _ "dom (retrievals w)"]) (auto simp: counted_def slots_def)

definition is_active :: "retrieval_state option \<Rightarrow> bool" where
  "is_active st = (case st of None \<Rightarrow> False | Some r \<Rightarrow> active_request r \<noteq> None)"

definition is_stranded :: "retrieval_state option \<Rightarrow> bool" where
  "is_stranded st =
     (case st of None \<Rightarrow> False | Some r \<Rightarrow> active_request r = None \<and> \<not> rs_queued r \<and> open_query r = None)"

lemma in_slots: "i \<in> slots w \<longleftrightarrow> is_active (retrievals w i)"
  by (auto simp: slots_def is_active_def split: option.splits)

lemma in_stranded: "i \<in> stranded w \<longleftrightarrow> is_stranded (retrievals w i)"
  by (auto simp: stranded_def is_stranded_def split: option.splits)

lemma is_simps [simp]:
  "\<not> is_active None" "is_active (Some r) = (active_request r \<noteq> None)"
  "\<not> is_stranded None" "is_stranded (Some r) = (active_request r = None \<and> \<not> rs_queued r \<and> open_query r = None)"
  by (simp_all add: is_active_def is_stranded_def)

text \<open>Replacing one entry: every operation below is an instance.\<close>

lemma counted_upd:
  assumes w: "counted w" and m: "retrievals w' = (retrievals w)(i := st)"
    and count: "active_retrievals w' + of_bool (is_active (retrievals w i)) = active_retrievals w + of_bool (is_active st)"
  shows "counted w'"
proof -
  have slots: "slots w' = (if is_active st then insert i (slots w) else slots w - {i})"
    using m by (auto simp: in_slots split: if_splits)
  have fin: "finite (slots w)" using w by (rule slots_finite)
  have "active_retrievals w = card (slots w)" using w by (simp add: counted_def)
  then have "active_retrievals w' = card (slots w')"
    using count fin card_Suc_Diff1 [OF fin, of i]
    by (auto simp: slots in_slots card_insert_if of_bool_def split: if_splits)
  with w m show ?thesis by (simp add: counted_def)
qed

lemma p2p_worker_inv_upd:
  assumes w: "p2p_worker_inv w" and m: "retrievals w' = (retrievals w)(i := st)" "w_max_concurrent w' = w_max_concurrent w"
    and others: "set (r_pending w) - {i} \<subseteq> set (r_pending w')" "\<And>k. k \<in> set (wakes w) \<Longrightarrow> wake_id k \<noteq> i \<Longrightarrow> k \<in> set (wakes w')"
    and st: "\<And>r. st = Some r \<Longrightarrow> entry_ok w' i r"
    and count: "active_retrievals w' + of_bool (is_active (retrievals w i)) = active_retrievals w + of_bool (is_active st)"
      "active_retrievals w' \<le> w_max_concurrent w"
  shows "p2p_worker_inv w'" and "stranded w' = (if is_stranded st then insert i (stranded w) else stranded w - {i})"
proof -
  have "counted w'" using counted_upd [of w w' i st] w m count(1) by (simp add: p2p_worker_inv_def)
  moreover have "entry_ok w' j r" if "retrievals w' j = Some r" for j r
  proof (cases "j = i")
    case False
    then have "entry_ok w j r" using w m(1) that by (auto simp: p2p_worker_inv_def)
    then show ?thesis using False others unfolding entry_ok_def by blast
  qed (use that m(1) st in simp)
  ultimately show "p2p_worker_inv w'" using w m count(2) by (auto simp: p2p_worker_inv_def)
  show "stranded w' = (if is_stranded st then insert i (stranded w) else stranded w - {i})"
    using m(1) by (auto simp: in_stranded split: if_splits)
qed

lemma p2p_worker_inv_entry: "p2p_worker_inv w \<Longrightarrow> retrievals w i = Some st \<Longrightarrow> entry_ok w i st"
  by (simp add: p2p_worker_inv_def)

lemma counted_active: "counted w \<Longrightarrow> is_active (retrievals w i) \<Longrightarrow> 0 < active_retrievals w"
  using slots_finite [of w] by (auto simp: counted_def in_slots [symmetric] card_gt_0_iff)

lemma p2p_worker_inv_same:
  assumes "p2p_worker_inv w" "retrievals w' = retrievals w" "r_pending w' = r_pending w"
    "active_retrievals w' = active_retrievals w" "wakes w' = wakes w" "w_max_concurrent w' = w_max_concurrent w"
  shows "p2p_worker_inv w'" "stranded w' = stranded w"
  using assms by (simp_all add: p2p_worker_inv_def counted_def stranded_def slots_def entry_ok_def)

lemma send_inv [simp]: "p2p_worker_inv (send c w) = p2p_worker_inv w" "stranded (send c w) = stranded w"
  by (simp_all add: p2p_worker_inv_def counted_def stranded_def slots_def entry_ok_def)

definition same_limits :: "p2p_worker \<Rightarrow> p2p_worker \<Rightarrow> bool" where
  "same_limits w w' \<longleftrightarrow>
     w_max_concurrent w' = w_max_concurrent w \<and> active_retrievals w' = active_retrievals w"

lemma enqueue_retrieval_inv:
  assumes w: "p2p_worker_inv w"
  shows "p2p_worker_inv (enqueue_retrieval i w)" "stranded (enqueue_retrieval i w) = stranded w - {i}"
    "same_limits w (enqueue_retrieval i w)"
proof -
  have "p2p_worker_inv (enqueue_retrieval i w) \<and> stranded (enqueue_retrieval i w) = stranded w - {i}
      \<and> same_limits w (enqueue_retrieval i w)"
  proof (cases "is_stranded (retrievals w i) \<or> (\<exists>st. retrievals w i = Some st \<and> \<not> (rs_queued st \<or> active_request st \<noteq> None \<or> rs_finished st))")
    case True
    then obtain st where st: "retrievals w i = Some st" by (cases "retrievals w i") auto
    then have ok: "entry_ok w i st" using w by (simp add: p2p_worker_inv_def)
    then have ok: "entry_ok w i st" "\<not> (rs_queued st \<or> active_request st \<noteq> None \<or> rs_finished st)"
      using True st by (auto simp: entry_ok_def)
    define w' where "w' = enqueue_retrieval i w"
    have w': "retrievals w' = (retrievals w)(i \<mapsto> st\<lparr>rs_queued := True\<rparr>)" "r_pending w' = r_pending w @ [i]"
        "wakes w' = wakes w" "same_limits w w'"
      using st ok(2) by (simp_all add: w'_def enqueue_retrieval_def same_limits_def)
    have "entry_ok w' i (st\<lparr>rs_queued := True\<rparr>)" using ok w' by (simp add: entry_ok_def)
    moreover have "active_retrievals w \<le> w_max_concurrent w" using w by (simp add: p2p_worker_inv_def)
    ultimately have "p2p_worker_inv w'" "stranded w' = stranded w - {i}"
      using p2p_worker_inv_upd [OF w w'(1)] w' st ok(2) by (auto simp: same_limits_def)
    with w'(4) show ?thesis by (simp add: w'_def)
  next
    case False
    then have "enqueue_retrieval i w = w" "i \<notin> stranded w"
      by (auto simp: enqueue_retrieval_def in_stranded split: option.splits)
    with w show ?thesis by (simp add: same_limits_def)
  qed
  then show "p2p_worker_inv (enqueue_retrieval i w)" "stranded (enqueue_retrieval i w) = stranded w - {i}"
    "same_limits w (enqueue_retrieval i w)" by blast+
qed

lemma stop_inv:
  assumes w: "p2p_worker_inv w"
  shows "p2p_worker_inv (stop_retrieval i w)" "stranded (stop_retrieval i w) = stranded w - {i}"
    "same_limits w (stop_retrieval i w)" "r_pending (stop_retrieval i w) = r_pending w"
proof -
  have eq: "same_limits w (stop_retrieval i w)" "r_pending (stop_retrieval i w) = r_pending w" "wakes (stop_retrieval i w) = wakes w"
    by (auto simp: stop_retrieval_def same_limits_def split: option.splits)
  then show "same_limits w (stop_retrieval i w)" "r_pending (stop_retrieval i w) = r_pending w" by blast+
  have le: "active_retrievals w \<le> w_max_concurrent w" using w by (simp add: p2p_worker_inv_def)
  have "\<exists>st. retrievals (stop_retrieval i w) = (retrievals w)(i := st) \<and> is_active st = is_active (retrievals w i)
      \<and> \<not> is_stranded st \<and> (\<forall>r. st = Some r \<longrightarrow> entry_ok (stop_retrieval i w) i r)"
    by (intro exI [of _ "retrievals (stop_retrieval i w) i"])
       (auto simp: stop_retrieval_def entry_ok_def split: option.splits)
  then obtain st where st: "retrievals (stop_retrieval i w) = (retrievals w)(i := st)"
      "is_active st = is_active (retrievals w i)" "\<not> is_stranded st" "\<forall>r. st = Some r \<longrightarrow> entry_ok (stop_retrieval i w) i r"
    by blast
  show "p2p_worker_inv (stop_retrieval i w)" "stranded (stop_retrieval i w) = stranded w - {i}"
    using p2p_worker_inv_upd [OF w st(1)] st eq le by (auto simp: same_limits_def)
qed

lemma finish_request_inv:
  assumes w: "p2p_worker_inv w"
  shows "\<exists>w'. finish_request E i r p b w = Some w' \<and> p2p_worker_inv w' \<and> stranded w' \<subseteq> stranded w
    \<and> w_max_concurrent w' = w_max_concurrent w"
proof (cases "\<exists>st. retrievals w i = Some st \<and> active_request st = Some (r, p)")
  case True
  then obtain st where st: "retrievals w i = Some st" "active_request st = Some (r, p)" by blast
  then have pos: "0 < active_retrievals w" using counted_active [of w i] w by (simp add: p2p_worker_inv_def)
  have le: "active_retrievals w \<le> w_max_concurrent w" using w by (simp add: p2p_worker_inv_def)
  let ?w1 = "w\<lparr>active_retrievals := active_retrievals w - 1\<rparr>"
  show ?thesis
  proof (cases "b \<or> rs_finished st \<or> passed (w_now E w) (active_deadline st)")
    case True
    have "p2p_worker_inv (set_retrieval i None ?w1)" "stranded (set_retrieval i None ?w1) \<subseteq> stranded w"
      using p2p_worker_inv_upd [OF w, of "set_retrieval i None ?w1" i None] pos le st by auto
    then show ?thesis using st True pos by (simp add: finish_request_def)
  next
    case False
    define st' where "st' = st\<lparr>active_request := None, attempted := insert p (attempted st)\<rparr>"
    let ?w2 = "set_retrieval i (Some st') ?w1"
    have "entry_ok ?w2 i st'"
      using p2p_worker_inv_entry [OF w st(1)] False by (simp add: entry_ok_def st'_def)
    then have w2: "p2p_worker_inv ?w2" "stranded ?w2 \<subseteq> insert i (stranded w)"
      using p2p_worker_inv_upd [OF w, of ?w2 i "Some st'"] pos le st by (auto simp: st'_def)
    have "finish_request E i r p b w = Some (enqueue_retrieval i ?w2)"
      using st False pos by (simp add: finish_request_def st'_def)
    then show ?thesis using enqueue_retrieval_inv [OF w2(1), of i] w2(2) by (auto simp: same_limits_def)
  qed
next
  case False
  then have "finish_request E i r p b w = Some w" by (auto simp: finish_request_def split: option.splits)
  with w show ?thesis by simp
qed

definition advanced :: "verification_id \<Rightarrow> p2p_worker \<Rightarrow> p2p_worker \<Rightarrow> bool" where
  "advanced i w w' \<longleftrightarrow>
     p2p_worker_inv w' \<and> stranded w' \<subseteq> stranded w - {i} \<and> r_pending w' = r_pending w
     \<and> w_max_concurrent w' = w_max_concurrent w"

lemma stop_advanced: "p2p_worker_inv w \<Longrightarrow> advanced i w (stop_retrieval i w)"
  using stop_inv [of w i] by (simp add: advanced_def same_limits_def)

lemma advanced_send [simp]: "advanced i (send c w) = advanced i w"
  by (simp add: advanced_def fun_eq_iff)

lemma started_advanced:
  assumes w: "p2p_worker_inv w" and st: "retrievals w i = Some st" "active_request st = None"
    and free: "active_retrievals w < w_max_concurrent w"
  shows "advanced i w (started E i r p w)"
proof -
  define w' where "w' = started E i r p w"
  obtain st' where w': "retrievals w' = (retrievals w)(i \<mapsto> st')" "r_pending w' = r_pending w" "wakes w' = wakes w"
      "w_max_concurrent w' = w_max_concurrent w" "active_retrievals w' = active_retrievals w + 1"
      "active_request st' = Some (r, p)" "open_query st' = None" "rs_queued st' = rs_queued st"
    using st by (auto simp: w'_def started_def)
  have "entry_ok w' i st'" using w' p2p_worker_inv_entry [OF w st(1)] by (simp add: entry_ok_def)
  then have "p2p_worker_inv w'" "stranded w' = stranded w - {i}"
    using p2p_worker_inv_upd [OF w w'(1)] w' st free by auto
  then show ?thesis using w' by (simp add: advanced_def w'_def)
qed

lemma unauthorized_inv:
  assumes w: "p2p_worker_inv w" and st: "retrievals w i = Some st" "active_request st = None" "\<not> rs_finished st"
  shows "p2p_worker_inv (unauthorized i p w)" "stranded (unauthorized i p w) - {i} = stranded w - {i}"
    "r_pending (unauthorized i p w) = r_pending w" "same_limits w (unauthorized i p w)"
    "\<exists>st'. retrievals (unauthorized i p w) i = Some st' \<and> active_request st' = None \<and> \<not> rs_finished st'
       \<and> attempted st' = insert p (attempted st)"
proof -
  let ?st = "st\<lparr>attempted := insert p (attempted st)\<rparr>"
  have eq: "unauthorized i p w = set_retrieval i (Some ?st) w" using st by (simp add: unauthorized_def)
  have "entry_ok (set_retrieval i (Some ?st) w) i ?st"
    using p2p_worker_inv_entry [OF w st(1)] by (simp add: entry_ok_def)
  moreover have "active_retrievals w \<le> w_max_concurrent w" using w by (simp add: p2p_worker_inv_def)
  ultimately show "p2p_worker_inv (unauthorized i p w)" "stranded (unauthorized i p w) - {i} = stranded w - {i}"
    using p2p_worker_inv_upd [OF w, of "set_retrieval i (Some ?st) w" i "Some ?st"] st by (auto simp: eq)
qed (use st in \<open>simp_all add: unauthorized_def same_limits_def\<close>)

lemma schedule_retry_Some:
  assumes "retrievals w i = Some st" "active_deadline st = Some d"
  shows "\<exists>w' n k. schedule_retry E i w = Some w'
    \<and> retrievals w' = (retrievals w)(i \<mapsto> st\<lparr>retry_round := n, timer_generation := timer_generation st + 1\<rparr>)
    \<and> r_pending w' = r_pending w \<and> same_limits w w' \<and> wakes w' = wakes w @ [k] \<and> wake_id k = i
    \<and> wake_generation k = timer_generation st + 1"
  using assms by (simp add: schedule_retry_def Let_def same_limits_def) blast

lemma discover_advanced:
  assumes w: "p2p_worker_inv w" and st: "retrievals w i = Some st" "active_request st = None" "\<not> rs_finished st"
  shows "safely L (advanced i w) (discover E i w)"
proof (cases "open_query st \<noteq> None \<or> passed (w_now E w) (active_deadline st)")
  case True
  then show ?thesis
    using w st stop_advanced [OF w, of i]
    by (auto simp: discover_def advanced_def in_stranded)
next
  case False
  let ?w1 = "send (QueryAvailability i) w"
  show ?thesis
  proof (cases "query_reply E (length (sent w)) i")
    case (Inl e)
    then show ?thesis using False st stop_advanced [of ?w1 i] w by (cases e) (auto simp: discover_def)
  next
    case (Inr q)
    define st1 where "st1 = st\<lparr>discovery_deadline :=
      get_or_insert (w_now E ?w1 + w_timeout ?w1) (discovery_deadline st), open_query := Some q\<rparr>"
    define w2 where "w2 = schedule_retry E i (set_retrieval i (Some st1) ?w1)"
    have "active_deadline st1 \<noteq> None"
      by (simp add: st1_def active_deadline_def get_or_insert_def split: option.splits)
    then obtain d where "active_deadline st1 = Some d" by blast
    then obtain w3 n k where w3: "w2 = Some w3" "same_limits w w3" "r_pending w3 = r_pending w"
        "wakes w3 = wakes w @ [k]" "wake_id k = i" "wake_generation k = timer_generation st + 1"
        "retrievals w3 = (retrievals w)(i \<mapsto> st1\<lparr>retry_round := n, timer_generation := timer_generation st + 1\<rparr>)"
      using schedule_retry_Some [of "set_retrieval i (Some st1) ?w1" i st1 d E]
      by (auto simp: w2_def same_limits_def st1_def)
    define st3 where "st3 = st1\<lparr>retry_round := n, timer_generation := timer_generation st + 1\<rparr>"
    have st3: "retrievals w3 = (retrievals w)(i \<mapsto> st3)" using w3(7) by (simp add: st3_def)
    have "entry_ok w3 i st3" using w3 p2p_worker_inv_entry [OF w st(1)] st by (simp add: entry_ok_def st3_def st1_def)
    moreover have "active_retrievals w \<le> w_max_concurrent w" using w by (simp add: p2p_worker_inv_def)
    ultimately have "p2p_worker_inv w3" "stranded w3 = stranded w - {i}"
      using p2p_worker_inv_upd [OF w st3] w3 st by (auto simp: same_limits_def st3_def st1_def)
    then have "advanced i w w3" using w3 by (simp add: advanced_def same_limits_def)
    moreover have "discover E i w = or_panic w2" using False st Inr by (simp add: discover_def w2_def st1_def Let_def)
    ultimately show ?thesis using w3(1) by (simp add: or_panic_def)
  qed
qed

lemma candidates_within:
  assumes "replies_within U E" "providers_reply E k i = Inr ps" "retrievals w i = Some st"
  shows "set (candidates E i ps w) \<subseteq> U - attempted st"
  using assms by (auto simp: replies_within_def candidates_def)

lemma fewer_candidates:
  assumes "replies_within U E" "p \<in> U - A"
  shows "card (U - insert p A) < card (U - A)"
proof -
  have "U - insert p A = (U - A) - {p}" by auto
  then show ?thesis using assms card_Diff1_less [of "U - A" p] by (simp add: replies_within_def)
qed

lemma try_retrieve_advanced:
  assumes "p2p_worker_inv w" "retrievals w i = Some st" "active_request st = None" "\<not> rs_finished st"
    "active_retrievals w < w_max_concurrent w" "L \<Longrightarrow> card (U - attempted st) < n" "L \<Longrightarrow> replies_within U E"
  shows "safely L (advanced i w) (try_retrieve E n i w)"
  using assms(1-6)
proof (induction n arbitrary: w st)
  case (Suc n)
  let ?w1 = "send (Providers i) w"
  have w1: "p2p_worker_inv ?w1" "retrievals ?w1 i = Some st" using Suc.prems by simp_all
  show ?case
  proof (cases "providers_reply E (length (sent w)) i")
    case (Inr ps)
    let ?p = "last (candidates E i ps ?w1)" and ?w2 = "send (RequestProof (last (candidates E i ps ?w1)) i) ?w1"
    have w2: "p2p_worker_inv ?w2" "retrievals ?w2 i = Some st" "active_retrievals ?w2 < w_max_concurrent ?w2"
      using Suc.prems by simp_all
    consider (none) "candidates E i ps ?w1 = []"
      | (late) "candidates E i ps ?w1 \<noteq> []" "passed (w_now E ?w1) (transfer_deadline st)"
      | (ask) "candidates E i ps ?w1 \<noteq> []" "\<not> passed (w_now E ?w1) (transfer_deadline st)" by blast
    then show ?thesis
    proof cases
      case none
      then show ?thesis using Inr discover_advanced [OF w1 Suc.prems(3,4), where E = E and L = L] by simp
    next
      case late
      then show ?thesis using Inr Suc.prems stop_advanced [OF w1(1), of i] by simp
    next
      case ask
      let ?r = "request_reply E (length (sent ?w1)) ?p i"
      have step: "try_retrieve E (Suc n) i w = (case ?r of
                 Inr r \<Rightarrow> Finished (started E i r ?p ?w2) (Inr ())
               | Inl (P2pAuthorization _) \<Rightarrow> try_retrieve E n i (unauthorized i ?p ?w2)
               | Inl P2pDraining \<Rightarrow> Finished (stop_retrieval i ?w2) (Inr ())
               | Inl e \<Rightarrow> Finished ?w2 (Inl e))"
        using ask Inr Suc.prems by (simp add: Let_def)
      have "L \<Longrightarrow> ?p \<in> U - attempted st"
        using last_in_set [OF ask(1)] candidates_within [OF assms(7) Inr w1(2)] by blast
      then have fewer: "L \<Longrightarrow> card (U - insert ?p (attempted st)) < n"
        using Suc.prems(6) fewer_candidates [of U E ?p "attempted st"] assms(7) by fastforce
      note un = unauthorized_inv [OF w2(1,2) Suc.prems(3,4), of ?p]
      have "safely L (advanced i (unauthorized i ?p ?w2)) (try_retrieve E n i (unauthorized i ?p ?w2))"
        using Suc.IH [OF un(1)] un(4,5) w2(3) fewer by (auto simp: same_limits_def)
      then have again: "safely L (advanced i w) (try_retrieve E n i (unauthorized i ?p ?w2))"
        by (rule safely_mono) (use un(2-4) in \<open>auto simp: advanced_def same_limits_def\<close>)
      have "advanced i w (started E i r ?p ?w2)" for r
        using started_advanced [OF w2(1,2) Suc.prems(3) w2(3), of E r ?p] by simp
      moreover have "advanced i w (stop_retrieval i ?w2)" using stop_advanced [OF w2(1), of i] by simp
      ultimately show ?thesis
        using again by (simp only: step split: sum.split error.split) simp
    qed
  qed simp
qed auto

definition driven :: "p2p_worker \<Rightarrow> p2p_worker \<Rightarrow> bool" where
  "driven w w' \<longleftrightarrow>
     p2p_worker_inv w' \<and> stranded w' \<subseteq> stranded w \<and> w_max_concurrent w' = w_max_concurrent w
     \<and> (r_pending w' = [] \<or> w_max_concurrent w' \<le> active_retrievals w')"

lemma pop_inv:
  assumes w: "p2p_worker_inv w" and p: "r_pending w = i # rest"
  shows "retrievals w i = None \<Longrightarrow> p2p_worker_inv (w\<lparr>r_pending := rest\<rparr>) \<and> stranded (w\<lparr>r_pending := rest\<rparr>) = stranded w"
    and "retrievals w i = Some st \<Longrightarrow>
      p2p_worker_inv (set_retrieval i (Some (st\<lparr>rs_queued := False\<rparr>)) (w\<lparr>r_pending := rest\<rparr>))
      \<and> stranded (set_retrieval i (Some (st\<lparr>rs_queued := False\<rparr>)) (w\<lparr>r_pending := rest\<rparr>))
        \<subseteq> (if active_request st = None then insert i (stranded w) else stranded w)"
proof -
  have le: "active_retrievals w \<le> w_max_concurrent w" using w by (simp add: p2p_worker_inv_def)
  show "p2p_worker_inv (w\<lparr>r_pending := rest\<rparr>) \<and> stranded (w\<lparr>r_pending := rest\<rparr>) = stranded w" if "retrievals w i = None"
    using p2p_worker_inv_upd [OF w, of "w\<lparr>r_pending := rest\<rparr>" i None] that p le
    by (auto simp: fun_upd_idem in_stranded)
  let ?st = "st\<lparr>rs_queued := False\<rparr>"
  let ?w2 = "set_retrieval i (Some ?st) (w\<lparr>r_pending := rest\<rparr>)"
  assume st: "retrievals w i = Some st"
  have "entry_ok ?w2 i ?st" using p2p_worker_inv_entry [OF w st] by (simp add: entry_ok_def)
  then show "p2p_worker_inv ?w2 \<and> stranded ?w2 \<subseteq> (if active_request st = None then insert i (stranded w) else stranded w)"
    using p2p_worker_inv_upd [OF w, of ?w2 i "Some ?st"] st p le by auto
qed

lemma drive_turns_driven:
  assumes live: "L \<Longrightarrow> enough_replies E"
  shows "p2p_worker_inv w \<Longrightarrow> length (r_pending w) \<le> n \<Longrightarrow> safely L (driven w) (drive_turns E n w)"
proof (induction n arbitrary: w)
  case (Suc n)
  show ?case
  proof (cases "r_pending w = [] \<or> w_max_concurrent w \<le> active_retrievals w")
    case True
    then show ?thesis using Suc.prems by (auto simp: driven_def split: list.split)
  next
    case False
    then obtain i rest where p: "r_pending w = i # rest" and free: "active_retrievals w < w_max_concurrent w"
      by (cases "r_pending w") auto
    note pop = pop_inv [OF Suc.prems(1) p]
    have len: "length rest \<le> n" using Suc.prems(2) p by simp
    show ?thesis
    proof (cases "retrievals w i")
      case None
      let ?w1 = "w\<lparr>r_pending := rest\<rparr>"
      have "safely L (driven ?w1) (drive_turns E n ?w1)" using pop(1) [OF None] len by (intro Suc.IH) simp_all
      then have "safely L (driven w) (drive_turns E n ?w1)"
        by (rule safely_mono) (use pop(1) [OF None] in \<open>auto simp: driven_def\<close>)
      then show ?thesis using None p free by simp
    next
      case (Some st)
      let ?w2 = "set_retrieval i (Some (st\<lparr>rs_queued := False\<rparr>)) (w\<lparr>r_pending := rest\<rparr>)"
      have w2: "p2p_worker_inv ?w2" "length (r_pending ?w2) \<le> n" using pop(2) [OF Some] len by simp_all
      show ?thesis
      proof (cases "rs_finished st \<or> active_request st \<noteq> None")
        case True
        then have "active_request st \<noteq> None" using p2p_worker_inv_entry [OF Suc.prems(1) Some] by (auto simp: entry_ok_def)
        then have sub: "stranded ?w2 \<subseteq> stranded w" using pop(2) [OF Some] by auto
        have "safely L (driven w) (drive_turns E n ?w2)"
          by (rule safely_mono [OF Suc.IH [OF w2]]) (use sub in \<open>auto simp: driven_def\<close>)
        then show ?thesis using Some True p free by simp
      next
        case False
        then have nf: "\<not> rs_finished st" "active_request st = None" by blast+
        obtain U where U: "L \<Longrightarrow> replies_within U E" "L \<Longrightarrow> card U < provider_rounds E"
          using live by (auto simp: enough_replies_def)
        then have "L \<Longrightarrow> card (U - attempted st) < provider_rounds E"
          using card_mono [of U "U - attempted st"] by (fastforce simp: replies_within_def)
        then have t: "safely L (advanced i ?w2) (try_retrieve E (provider_rounds E) i ?w2)"
          using try_retrieve_advanced [OF w2(1), where i = i and st = "st\<lparr>rs_queued := False\<rparr>" and L = L
              and U = U and n = "provider_rounds E" and E = E] U nf free
          by simp
        have "safely L (driven w) (drive_turns E n w')" if "advanced i ?w2 w'" for w'
        proof -
          have w': "p2p_worker_inv w'" "stranded w' \<subseteq> stranded w" "length (r_pending w') \<le> n"
              "w_max_concurrent w' = w_max_concurrent w"
            using that pop(2) [OF Some] nf w2(2) by (auto simp: advanced_def)
          show ?thesis by (rule safely_mono [OF Suc.IH [OF w'(1,3)]]) (use w' in \<open>auto simp: driven_def\<close>)
        qed
        then show ?thesis using safely_then [OF t] Some nf p free by (simp add: Let_def)
      qed
    qed
  qed
qed (auto simp: driven_def)

lemma drive_pending_driven: "(L \<Longrightarrow> enough_replies E) \<Longrightarrow> p2p_worker_inv w \<Longrightarrow> safely L (driven w) (drive_pending E w)"
  by (simp add: drive_pending_def drive_turns_driven)

section \<open>Every turn leaves the worker settled\<close>

lemma settled_drive:
  assumes "L \<Longrightarrow> enough_replies E" "p2p_worker_inv w" "stranded w = {}"
  shows "safely L settled (drive_pending E w)"
  by (rule safely_mono [OF drive_pending_driven [OF assms(1,2)]]) (use assms(3) in \<open>auto simp: driven_def settled_def\<close>)

lemma settled_stop: "settled w \<Longrightarrow> settled (stop_retrieval i w)"
  using stop_inv [of w i] by (auto simp: settled_def same_limits_def)

lemma settled_send [simp]: "settled (send c w) = settled w"
  by (simp add: settled_def)

lemma settled_command: "settled w \<Longrightarrow> safely L settled (command E c w)"
  by (cases "unit_reply E (length (sent w)) c") (simp_all add: command_def)

lemma ensure_retrieval_settled:
  assumes live: "L \<Longrightarrow> enough_replies E" and w: "settled w"
  shows "safely L settled (ensure_retrieval E i w)"
proof (cases "waiting_in_store E i w")
  case True
  define w1 where "w1 = (case retrievals w i of None \<Rightarrow> set_retrieval i (Some fresh_retrieval) w | Some _ \<Rightarrow> w)"
  have le: "active_retrievals w \<le> w_max_concurrent w" using w by (simp add: settled_def p2p_worker_inv_def)
  have "p2p_worker_inv w1 \<and> stranded w1 \<subseteq> {i}"
  proof (cases "retrievals w i")
    case None
    have "entry_ok (set_retrieval i (Some fresh_retrieval) w) i fresh_retrieval"
      by (simp add: entry_ok_def fresh_retrieval_def)
    then show ?thesis
      using p2p_worker_inv_upd [of w "set_retrieval i (Some fresh_retrieval) w" i "Some fresh_retrieval"] w le None
      by (auto simp: w1_def settled_def fresh_retrieval_def split: if_splits)
  qed (use w in \<open>simp add: w1_def settled_def\<close>)
  then have "p2p_worker_inv (enqueue_retrieval i w1)" "stranded (enqueue_retrieval i w1) = {}"
    using enqueue_retrieval_inv [of w1 i] by auto
  then have "safely L settled (drive_pending E (enqueue_retrieval i w1))"
    using settled_drive [OF live] by blast
  then show ?thesis using True by (simp add: ensure_retrieval_def w1_def Let_def)
qed (use w in \<open>simp add: ensure_retrieval_def settled_stop\<close>)

lemma announce_all_settled: "settled w \<Longrightarrow> safely L settled (announce_all E is w)"
  by (induction "is" arbitrary: w) (auto intro: safely_then settled_command)

lemma ensure_all_settled: "(L \<Longrightarrow> enough_replies E) \<Longrightarrow> settled w \<Longrightarrow> safely L settled (ensure_all E is w)"
  by (induction "is" arbitrary: w) (auto intro: safely_then ensure_retrieval_settled)

lemma reconcile_store_settled:
  assumes live: "L \<Longrightarrow> enough_replies E" and w: "settled w"
  shows "safely L settled (reconcile_store E w)"
proof -
  have "settled (fold (\<lambda>i w. if i \<in> A then w else stop_retrieval i w) is u)" if "settled u" for A u "is"
    using that by (induction "is" arbitrary: u) (auto intro: settled_stop)
  then show ?thesis
    unfolding reconcile_store_def Let_def
    by (blast intro: safely_then settled_command [OF w] announce_all_settled ensure_all_settled [OF live])
qed

lemma finish_request_settled:
  assumes live: "L \<Longrightarrow> enough_replies E" and w: "p2p_worker_inv w" "stranded w = {}"
  shows "safely L settled (then_w (or_panic (finish_request E i r p b w)) (drive_unless False E))"
    and "safely L settled (then_w (or_panic (finish_request E i r p b w)) (\<lambda>w. drive_unless False E (stop_retrieval i w)))"
proof -
  obtain w' where w': "finish_request E i r p b w = Some w'" "p2p_worker_inv w'" "stranded w' = {}"
    using finish_request_inv [OF w(1), of E i r p b] w(2) by auto
  show "safely L settled (then_w (or_panic (finish_request E i r p b w)) (drive_unless False E))"
    using settled_drive [OF live w'(2,3)] w'(1) by (simp add: or_panic_def drive_unless_def)
  show "safely L settled (then_w (or_panic (finish_request E i r p b w)) (\<lambda>w. drive_unless False E (stop_retrieval i w)))"
    using settled_drive [OF live, where w = "stop_retrieval i w'"] stop_inv [OF w'(2), of i] w'
    by (simp add: or_panic_def drive_unless_def)
qed

lemma store_download_inv:
  assumes "store_download E i p peer w = (w', r)"
  shows "p2p_worker_inv w' = p2p_worker_inv w" "stranded w' = stranded w"
  using assms by (auto simp: store_download_def p2p_worker_inv_def counted_def stranded_def slots_def entry_ok_def split: prod.splits)

lemma clear_query_inv:
  assumes w: "p2p_worker_inv w" "stranded w = {}" and st: "retrievals w i = Some st"
  shows "p2p_worker_inv (clear_query i w)" "stranded (clear_query i w) \<subseteq> {i}"
proof -
  let ?st = "st\<lparr>open_query := None, timer_generation := timer_generation st + 1\<rparr>"
  have eq: "clear_query i w = set_retrieval i (Some ?st) w" using st by (simp add: clear_query_def)
  have "entry_ok (set_retrieval i (Some ?st) w) i ?st"
    using p2p_worker_inv_entry [OF w(1) st] by (simp add: entry_ok_def)
  moreover have "active_retrievals w \<le> w_max_concurrent w" using w by (simp add: p2p_worker_inv_def)
  ultimately show "p2p_worker_inv (clear_query i w)" "stranded (clear_query i w) \<subseteq> {i}"
    using p2p_worker_inv_upd [OF w(1), of "set_retrieval i (Some ?st) w" i "Some ?st"] st w(2) by (auto simp: eq)
qed

lemma handle_driver_event_settled:
  assumes live: "L \<Longrightarrow> enough_replies E" and w: "settled w"
  shows "safely L settled (handle_driver_event E False ev w)"
proof -
  have inv: "p2p_worker_inv w" "stranded w = {}" using w by (simp_all add: settled_def)
  note fin = finish_request_settled
  show ?thesis
  proof (cases ev)
    case (ProofReceived r peer i p)
    obtain w1 res where d: "store_download E i p peer w = (w1, res)" by fastforce
    then have w1: "p2p_worker_inv w1" "stranded w1 = {}" using store_download_inv [OF d] inv by simp_all
    show ?thesis
      using d fin [OF live w1] by (cases res) (simp_all add: ProofReceived handle_driver_event_def split: error.split)
  next
    case (ProvidersDiscovered q i ps)
    show ?thesis
    proof (cases "retrievals w i")
      case (Some st)
      have "p2p_worker_inv (enqueue_retrieval i (clear_query i w))" "stranded (enqueue_retrieval i (clear_query i w)) = {}"
        using clear_query_inv [OF inv Some] enqueue_retrieval_inv [of "clear_query i w" i] by auto
      then show ?thesis
        using ProvidersDiscovered w settled_drive [OF live] by (auto simp: handle_driver_event_def Some)
    qed (use w in \<open>simp add: ProvidersDiscovered handle_driver_event_def\<close>)
  qed (use w fin [OF live inv] in \<open>auto simp: handle_driver_event_def intro: settled_command
         ensure_retrieval_settled [OF live] reconcile_store_settled [OF live]\<close>)
qed

lemma handle_store_result_settled:
  assumes live: "L \<Longrightarrow> enough_replies E" and w: "settled w"
  shows "safely L settled (p2p_handle_store_result E False r w)"
proof (cases r)
  case (StoreEvent ev)
  have stop: "safely L settled (drive_pending E v)" if "settled v" for v
    using that settled_drive [OF live] by (simp add: settled_def)
  show ?thesis
    using StoreEvent
    by (cases ev)
       (auto simp: p2p_handle_store_result_def handle_store_event_def intro!: ensure_retrieval_settled [OF live] w
        settled_stop stop intro: safely_then [OF settled_command])
qed (use w in \<open>auto simp: p2p_handle_store_result_def intro: reconcile_store_settled [OF live]\<close>)

lemma set_remove_nth:
  assumes "x \<in> set xs" "x \<noteq> xs ! n"
  shows "x \<in> set (take n xs @ drop (Suc n) xs)"
proof (cases "n < length xs")
  case True
  then have "set xs = set (take n xs @ xs ! n # drop (Suc n) xs)" by (simp only: id_take_nth_drop [symmetric])
  with assms show ?thesis by auto
qed (use assms in simp)

lemma handle_wake_settled:
  assumes live: "L \<Longrightarrow> enough_replies E" and w: "settled w"
  shows "safely L settled (handle_wake E (wakes w ! n) (take_wake n w))"
proof -
  define k where "k = wakes w ! n"
  define i where "i = wake_id k"
  have inv: "p2p_worker_inv w" "stranded w = {}" using w by (simp_all add: settled_def)
  have le: "active_retrievals w \<le> w_max_concurrent w" using inv by (simp add: p2p_worker_inv_def)
  have kept: "x \<in> set (wakes (take_wake n w))" if "x \<in> set (wakes w)" "x \<noteq> k" for x
    using set_remove_nth [of x "wakes w" n] that by (simp add: take_wake_def k_def)
  have others: "x \<in> set (wakes (take_wake n w))" if "x \<in> set (wakes w)" "wake_id x \<noteq> i" for x
    using kept [of x] that by (auto simp: i_def)
  have upd: "p2p_worker_inv w'" "stranded w' = (if is_stranded st then {i} else {})"
    if "retrievals w' = (retrievals w)(i := st)" "r_pending w' = r_pending w" "wakes w' = wakes (take_wake n w)"
      "same_limits w w'" "is_active st = is_active (retrievals w i)" "\<And>r. st = Some r \<Longrightarrow> entry_ok w' i r" for w' st
    using p2p_worker_inv_upd [OF inv(1) that(1)] that others le inv(2) by (simp_all add: same_limits_def)
  have t: "retrievals (take_wake n w) = retrievals w" "r_pending (take_wake n w) = r_pending w"
      "same_limits w (take_wake n w)" by (simp_all add: take_wake_def same_limits_def)
  show ?thesis
  proof (cases "\<exists>st. retrievals w i = Some st \<and> timer_generation st = wake_generation k \<and> \<not> rs_finished st")
    case False
    have "entry_ok (take_wake n w) i st" if "retrievals w i = Some st" for st
    proof -
      have ok: "entry_ok w i st" using p2p_worker_inv_entry [OF inv(1) that] .
      then have "open_query st = None \<or> timer_generation st \<noteq> wake_generation k"
        using False that by (auto simp: entry_ok_def)
      moreover have "\<exists>x \<in> set (wakes (take_wake n w)). wake_id x = i \<and> wake_generation x = timer_generation st"
        if query: "open_query st \<noteq> None" "timer_generation st \<noteq> wake_generation k"
      proof -
        obtain x where x: "x \<in> set (wakes w)" "wake_id x = i" "wake_generation x = timer_generation st"
          using ok query(1) by (auto simp: entry_ok_def)
        then have "x \<noteq> k" using query(2) by auto
        with kept x show ?thesis by blast
      qed
      ultimately show ?thesis using ok t(2) unfolding entry_ok_def by metis
    qed
    then have "p2p_worker_inv (take_wake n w)" "stranded (take_wake n w) \<subseteq> stranded w"
      using upd [of "take_wake n w" "retrievals w i"] t inv(2) by (auto simp: in_stranded split: if_splits)
    then have "settled (take_wake n w)" using w t by (auto simp: settled_def same_limits_def)
    moreover have "handle_wake E k (take_wake n w) = Finished (take_wake n w) (Inr ())"
      using False t(1) by (auto simp: handle_wake_def i_def split: option.splits)
    ultimately show ?thesis by (simp add: k_def)
  next
    case True
    then obtain st where st: "retrievals w i = Some st" "timer_generation st = wake_generation k" "\<not> rs_finished st"
      by blast
    let ?w1 = "set_retrieval i (Some (st\<lparr>open_query := None\<rparr>)) (take_wake n w)"
    have "entry_ok ?w1 i (st\<lparr>open_query := None\<rparr>)"
      using p2p_worker_inv_entry [OF inv(1) st(1)] st(3) t(2) by (simp add: entry_ok_def)
    then have w1: "p2p_worker_inv ?w1" "stranded ?w1 \<subseteq> {i}" "same_limits w ?w1" "r_pending ?w1 = r_pending w"
      using upd [of ?w1 "Some (st\<lparr>open_query := None\<rparr>)"] t st by (auto simp: same_limits_def)
    have "settled (stop_retrieval i ?w1)"
      using stop_inv [OF w1(1), of i] w1 w by (auto simp: settled_def same_limits_def)
    moreover have "safely L settled (drive_pending E (enqueue_retrieval i ?w1))"
      using enqueue_retrieval_inv [OF w1(1), of i] w1(2) by (intro settled_drive [OF live]) auto
    ultimately show ?thesis using st t(1) by (simp add: handle_wake_def i_def k_def Let_def)
  qed
qed

text \<open>While draining, nothing new is started; only the count of slots matters.\<close>

lemma counted_stop: "counted w \<Longrightarrow> counted (stop_retrieval i w)"
  by (rule counted_upd [of w _ i "retrievals (stop_retrieval i w) i"])
     (auto simp: stop_retrieval_def split: option.splits)

lemma counted_enqueue: "counted w \<Longrightarrow> counted (enqueue_retrieval i w)"
  by (rule counted_upd [of w _ i "retrievals (enqueue_retrieval i w) i"])
     (auto simp: enqueue_retrieval_def split: option.splits)

lemma counted_finish:
  assumes w: "counted w"
  shows "safely L counted (or_panic (finish_request E i r p b w))"
proof (cases "\<exists>st. retrievals w i = Some st \<and> active_request st = Some (r, p)")
  case True
  then obtain st where st: "retrievals w i = Some st" "active_request st = Some (r, p)" by blast
  then have pos: "0 < active_retrievals w" using counted_active [OF w, of i] by simp
  let ?w1 = "w\<lparr>active_retrievals := active_retrievals w - 1\<rparr>"
  have "counted (set_retrieval i s ?w1)" if "\<not> is_active s" for s
    using counted_upd [OF w, of "set_retrieval i s ?w1" i s] st pos that by simp
  then show ?thesis using st pos by (auto simp: finish_request_def or_panic_def Let_def intro: counted_enqueue)
next
  case False
  then have "finish_request E i r p b w = Some w" by (auto simp: finish_request_def split: option.splits)
  with w show ?thesis by (simp add: or_panic_def)
qed

lemma counted_command: "counted w \<Longrightarrow> safely L counted (command E c w)"
  by (cases "unit_reply E (length (sent w)) c") (simp_all add: command_def counted_def slots_def)

lemma counted_event: "counted w \<Longrightarrow> safely L counted (handle_driver_event E True ev w)"
proof (cases ev)
  case (ProofReceived r peer i p)
  assume w: "counted w"
  obtain w1 res where d: "store_download E i p peer w = (w1, res)" by fastforce
  then have w1: "counted w1" using w by (auto simp: store_download_def counted_def slots_def split: prod.splits)
  note fin = safely_then [OF counted_finish [OF w1]]
  show ?thesis
    using d by (cases res) (auto simp: ProofReceived handle_driver_event_def drive_unless_def split: error.split
        intro!: fin counted_stop)
qed (auto simp: handle_driver_event_def drive_unless_def intro!: counted_command safely_then [OF counted_finish])

lemma counted_items: "counted w \<Longrightarrow> safely L counted (drain_items E items w)"
proof (induction E items w rule: drain_items.induct)
  case (2 E ev rest w)
  then show ?case by (auto intro: safely_then counted_event)
qed (auto simp: handle_store_event_def)

lemma counted_rounds: "counted w \<Longrightarrow> safely False counted (drain_rounds E rounds w)"
  by (induction E rounds w rule: drain_rounds.induct) (auto intro: safely_then counted_items)

section \<open>Retrievals over whole runs\<close>

definition worker_init :: "p2p_worker \<Rightarrow> bool" where
  "worker_init w \<longleftrightarrow>
     (\<exists>(E :: store_externs worker_env) me cfg s. reconcile_store E (p2p_worker_new me cfg s) = Finished w (Inr ()))"

inductive worker_step :: "p2p_worker \<Rightarrow> p2p_worker \<Rightarrow> bool" where
  worker_turn_step:
    "worker_turn (E :: store_externs worker_env) inp (w\<lparr>w_store := s\<rparr>) = Finished w' (Inr ()) \<Longrightarrow>
     (\<And>rounds. inp \<noteq> StopSignal rounds) \<Longrightarrow> worker_step w w'"

lemma settled_store [simp]: "settled (w\<lparr>w_store := s\<rparr>) = settled w"
  by (simp add: settled_def p2p_worker_inv_def counted_def stranded_def slots_def entry_ok_def)

lemma worker_turn_settled:
  assumes live: "L \<Longrightarrow> enough_replies E" and w: "settled w" and inp: "\<And>rounds. inp \<noteq> StopSignal rounds"
  shows "safely L settled (worker_turn E inp w)"
proof (cases inp)
  case (DriverRecv ev)
  then show ?thesis using w handle_driver_event_settled [OF live] by (cases ev) (auto simp: worker_turn_def)
next
  case (StoreRecv r)
  then show ?thesis using w handle_store_result_settled [OF live] by (simp add: worker_turn_def)
next
  case (WakeReady n)
  then show ?thesis using w handle_wake_settled [OF live] by (simp add: worker_turn_def)
qed (use inp in simp)

lemma worker_drain_safe: "counted w \<Longrightarrow> worker_drain E rounds w \<noteq> Panic"
  using counted_rounds [of "w\<lparr>r_pending := [], wakes := []\<rparr>" E rounds]
  by (auto simp: worker_drain_def counted_def slots_def)

lemma worker_new_settled: "settled (p2p_worker_new me cfg s)"
  by (simp add: settled_def p2p_worker_inv_def counted_def stranded_def slots_def p2p_worker_new_def)

interpretation retrieval_sys: transition_system worker_init worker_step settled
proof
  show "settled w" if start: "worker_init w" for w
  proof -
    obtain E :: "store_externs worker_env" and me cfg s
      where "reconcile_store E (p2p_worker_new me cfg s) = Finished w (Inr ())"
      using start unfolding worker_init_def by blast
    then show ?thesis
      using reconcile_store_settled [OF _ worker_new_settled, of False E me cfg s] by simp
  qed
  show "settled w'" if w: "settled w" and s: "worker_step w w'" for w w'
    using s
  proof cases
    case (worker_turn_step E inp s)
    have "safely False settled (worker_turn E inp (w\<lparr>w_store := s\<rparr>))"
      using w worker_turn_step(2) by (intro worker_turn_settled) simp_all
    then show ?thesis by (simp add: worker_turn_step(1))
  qed
qed

text \<open>
  C20. Retrieval slots are counted exactly and no retrieval is stranded: the number of running
  requests never exceeds its bound, and every retrieval has a request running, or waits in the
  queue while all slots are busy, or waits for the answer to a query with its timer set. No turn
  of the worker fails an \<open>expect\<close>, and each returns when the driver replies.
\<close>

theorem retrievals_not_stranded:
  fixes E :: "store_externs worker_env"
  assumes "reach worker_init worker_step w"
  shows "active_retrievals w = card (slots w) \<and> card (slots w) \<le> w_max_concurrent w
    \<and> (\<forall>i st. retrievals w i = Some st \<longrightarrow>
         active_request st \<noteq> None
         \<or> i \<in> set (r_pending w) \<and> active_retrievals w = w_max_concurrent w
         \<or> open_query st \<noteq> None
           \<and> (\<exists>k \<in> set (wakes w). wake_id k = i \<and> wake_generation k = timer_generation st))
    \<and> worker_turn E inp (w\<lparr>w_store := s\<rparr>) \<noteq> Panic
    \<and> (enough_replies E \<and> (\<forall>rounds. inp \<noteq> StopSignal rounds) \<longrightarrow> worker_turn E inp (w\<lparr>w_store := s\<rparr>) \<noteq> Waiting)"
proof -
  have w: "settled w" using assms by (rule retrieval_sys.reachable_inv)
  then have inv: "p2p_worker_inv w" "counted w" by (simp_all add: settled_def p2p_worker_inv_def)
  have entry: "active_request st \<noteq> None \<or> i \<in> set (r_pending w) \<and> active_retrievals w = w_max_concurrent w
      \<or> open_query st \<noteq> None \<and> (\<exists>k \<in> set (wakes w). wake_id k = i \<and> wake_generation k = timer_generation st)"
    if st: "retrievals w i = Some st" for i st
  proof -
    have "i \<notin> stranded w" "entry_ok w i st" using w st inv(1) by (auto simp: settled_def p2p_worker_inv_def)
    moreover have "i \<in> set (r_pending w) \<Longrightarrow> active_retrievals w = w_max_concurrent w"
      using w by (auto simp: settled_def p2p_worker_inv_def)
    ultimately show ?thesis using st unfolding in_stranded entry_ok_def by simp blast
  qed
  have "worker_turn E inp (w\<lparr>w_store := s\<rparr>) \<noteq> Panic"
  proof (cases "\<exists>rounds. inp = StopSignal rounds")
    case True
    then show ?thesis
      using worker_drain_safe [of "w\<lparr>w_store := s\<rparr>" E] inv(2) by (auto simp: worker_turn_def counted_def slots_def)
  next
    case False
    then show ?thesis using worker_turn_settled [of False E "w\<lparr>w_store := s\<rparr>" inp] w by auto
  qed
  moreover have "worker_turn E inp (w\<lparr>w_store := s\<rparr>) \<noteq> Waiting"
    if "enough_replies E \<and> (\<forall>rounds. inp \<noteq> StopSignal rounds)"
    using worker_turn_settled [of True E "w\<lparr>w_store := s\<rparr>" inp] w that by auto
  ultimately show ?thesis using entry inv by (auto simp: p2p_worker_inv_def counted_def)
qed

definition demo_worker_env :: "store_externs worker_env" where
  "demo_worker_env =
     \<lparr>w_externs = demo_store_externs, unit_reply = (\<lambda>_ _. Inr ()), query_reply = (\<lambda>_ _. Inr (QueryId [])),
      providers_reply = (\<lambda>_ _. Inr [[2]]), request_reply = (\<lambda>_ _ _. Inr 1), shuffle = (\<lambda>_ ps. ps),
      jitter_draw = (\<lambda>_. 0), w_clock = (\<lambda>_. 0), provider_rounds = 2\<rparr>"

definition demo_worker :: p2p_worker where
  "demo_worker = send (ReplaceLocalProofs {}) (p2p_worker_new [1] demo_p2p_config demo_store0)"

definition demo_retrieving :: p2p_worker where
  "demo_retrieving =
     (demo_worker\<lparr>w_store := demo_observed, active_retrievals := 1,
        sent := sent demo_worker @ [Providers demo_id, RequestProof [2] demo_id],
        retrievals := [demo_id \<mapsto> fresh_retrieval\<lparr>transfer_deadline := Some (from_secs 60), timer_generation := 1,
          active_request := Some (1, [2])\<rparr>]\<rparr>)"

lemma demo_worker_init: "worker_init demo_worker"
proof -
  have "cache_iter demo_store_externs Map.empty = []"
  proof (cases "cache_iter demo_store_externs Map.empty")
    case (Cons kv rest)
    have "\<forall>k v. (k, v) \<notin> set (cache_iter demo_store_externs Map.empty)"
      using demo_moka unfolding moka_def moka_iter_def by (metis dom_empty finite.emptyI option.distinct(1))
    then show ?thesis using Cons by (cases kv) auto
  qed
  then have "snapshot demo_store_externs demo_store0 P = []" for P
    by (simp add: snapshot_def demo_store0_def)
  then have "reconcile_store demo_worker_env (p2p_worker_new [1] demo_p2p_config demo_store0) = Finished demo_worker (Inr ())"
    by (simp add: reconcile_store_def locally_available_proofs_def records_waiting_for_content_def command_def
        demo_worker_def demo_worker_env_def send_def p2p_worker_new_def demo_store0_def)
  then show ?thesis by (auto simp: worker_init_def)
qed

lemma demo_retrieval_turn:
  "worker_turn demo_worker_env (StoreRecv (StoreEvent (VerificationObserved demo_id))) (demo_worker\<lparr>w_store := demo_observed\<rparr>)
   = Finished demo_retrieving (Inr ())"
  by (simp add: worker_turn_def p2p_handle_store_result_def handle_store_event_def ensure_retrieval_def waiting_in_store_def
      demo_worker_env_def moka_getD [OF demo_moka] demo_observed_records demo_worker_def demo_retrieving_def p2p_worker_new_def send_def
      enqueue_retrieval_def set_retrieval_def fresh_retrieval_def drive_pending_def numeral_2_eq_2 candidates_def
      started_def passed_def get_or_insert_def demo_p2p_config_def w_now_def Let_def)

theorem retrievals_not_stranded_witness:
  "active_retrievals demo_retrieving = 1 \<and> card (slots demo_retrieving) \<le> 1
   \<and> worker_turn demo_worker_env (DriverRecv (Some (ProofNotFound 1 [2] demo_id)))
       (demo_retrieving\<lparr>w_store := demo_observed\<rparr>) \<noteq> Waiting"
proof -
  have "reach worker_init worker_step demo_worker" using demo_worker_init by (rule reach.reach_init)
  moreover have "worker_step demo_worker demo_retrieving" by (rule worker_turn_step [OF demo_retrieval_turn]) simp
  ultimately have "reach worker_init worker_step demo_retrieving" by (rule reach.reach_step)
  moreover have "enough_replies demo_worker_env"
    by (auto simp: enough_replies_def replies_within_def demo_worker_env_def intro!: exI [of _ "{[2]}"])
  ultimately show ?thesis
    using retrievals_not_stranded [of demo_retrieving demo_worker_env "DriverRecv (Some (ProofNotFound 1 [2] demo_id))"
        demo_observed]
    by (simp add: demo_retrieving_def demo_worker_def p2p_worker_new_def send_def demo_p2p_config_def)
qed

end
