(* ===== verification/Control.thy ===== *)
theory Control
  imports Config
begin

text \<open>
  The local control socket (\<open>src/control.rs\<close>): how it is bound next to a live or stale socket,
  how the server reads its commands, and how \<open>stop\<close> asks a running instance to end. The file
  system and the other end of a connection are arguments; the actions on the file system are
  recorded in order.
\<close>

section \<open>Frames\<close>

definition SHUTDOWN_REQUEST :: bytes where "SHUTDOWN_REQUEST = ascii ''shutdown'' @ [10]"
definition ACCEPTED_RESPONSE :: bytes where "ACCEPTED_RESPONSE = ascii ''accepted'' @ [10]"
definition UNKNOWN_RESPONSE :: bytes where "UNKNOWN_RESPONSE = ascii ''error unknown-command'' @ [10]"
definition TOO_LARGE_RESPONSE :: bytes where "TOO_LARGE_RESPONSE = ascii ''error frame-too-large'' @ [10]"
definition MAX_FRAME_LEN :: nat where "MAX_FRAME_LEN = 64"
definition IO_TIMEOUT :: duration where "IO_TIMEOUT = from_secs 2"
definition STOP_POLL_INTERVAL :: duration where "STOP_POLL_INTERVAL = from_millis 50"

text \<open>
  What the other end sends within \<open>IO_TIMEOUT\<close>: some bytes, and then it fails (a close is
  \<open>UnexpectedEof\<close>) or stays silent. A write succeeds, fails, or times out.
\<close>

datatype stream_end = StreamFails io_error | Silent

datatype write_outcome = Written | WriteFails io_error | WriteTimeout

record peer_stream =
  peer_bytes_sent :: bytes
  peer_end :: stream_end
  peer_write :: write_outcome

datatype read_outcome = FrameRead bytes | ReadFails io_error | ReadTimeout

definition frame_error :: io_error where
  "frame_error = \<lparr>io_kind = InvalidData, io_text = ''frame exceeds 64 bytes''\<rparr>"

fun read_bytes :: "nat \<Rightarrow> bytes \<Rightarrow> stream_end \<Rightarrow> read_outcome" where
  "read_bytes 0 bs fin = ReadFails frame_error"
| "read_bytes (Suc n) [] fin = (case fin of StreamFails e \<Rightarrow> ReadFails e | Silent \<Rightarrow> ReadTimeout)"
| "read_bytes (Suc n) (b # bs) fin =
     (if b = 10 then FrameRead [b]
      else case read_bytes n bs fin of FrameRead f \<Rightarrow> FrameRead (b # f) | r \<Rightarrow> r)"

definition read_control_frame :: "path \<Rightarrow> peer_stream \<Rightarrow> bytes res" where
  "read_control_frame path c =
     (case read_bytes MAX_FRAME_LEN (peer_bytes_sent c) (peer_end c) of
        FrameRead f \<Rightarrow> Inr f
      | ReadFails e \<Rightarrow> if io_kind e = InvalidData then Inl (ControlProtocol (io_text e)) else Inl (ControlIo path e)
      | ReadTimeout \<Rightarrow> Inl (ControlTimeout path))"

definition write_control_frame :: "path \<Rightarrow> peer_stream \<Rightarrow> unit res" where
  "write_control_frame path c =
     (case peer_write c of
        Written \<Rightarrow> Inr ()
      | WriteFails e \<Rightarrow> Inl (ControlIo path e)
      | WriteTimeout \<Rightarrow> Inl (ControlTimeout path))"

section \<open>The server\<close>

text \<open>The response that is written, if any, and the result.\<close>

definition handle_connection :: "path \<Rightarrow> peer_stream \<Rightarrow> bytes option \<times> bool res" where
  "handle_connection path c =
     (let respond = (\<lambda>frame stop. (Some frame, bind_res (write_control_frame path c) (\<lambda>_. Inr stop))) in
      case read_control_frame path c of
        Inr request \<Rightarrow>
          if request = SHUTDOWN_REQUEST then respond ACCEPTED_RESPONSE True else respond UNKNOWN_RESPONSE False
      | Inl (ControlProtocol message) \<Rightarrow>
          if message = ''frame exceeds 64 bytes'' then respond TOO_LARGE_RESPONSE False
          else (None, Inl (ControlProtocol message))
      | Inl e \<Rightarrow> (None, Inl e))"

text \<open>The connections in the order they are accepted; \<open>None\<close> while the server waits for the next.\<close>

fun wait_for_shutdown :: "path \<Rightarrow> (io_error + peer_stream) list \<Rightarrow> unit res option" where
  "wait_for_shutdown path [] = None"
| "wait_for_shutdown path (Inl e # cs) = Some (Inl (ControlIo path e))"
| "wait_for_shutdown path (Inr c # cs) =
     (case snd (handle_connection path c) of
        Inl e \<Rightarrow> Some (Inl e)
      | Inr stop \<Rightarrow> if stop then Some (Inr ()) else wait_for_shutdown path cs)"

section \<open>Binding\<close>

record fs_meta =
  fs_is_dir :: bool
  fs_is_socket :: bool
  fs_uid :: nat

datatype connect_outcome = Connected | ConnectFails io_error | ConnectTimeout

record fs_env =
  parent_of :: "path \<Rightarrow> path option"
  create_dir_all :: "path \<Rightarrow> io_error + unit"
  symlink_metadata :: "path \<Rightarrow> io_error + fs_meta"
  set_permissions :: "path \<Rightarrow> nat \<Rightarrow> io_error + unit"
  unix_connect :: "path \<Rightarrow> connect_outcome"
  remove_file :: "path \<Rightarrow> io_error + unit"
  unix_bind :: "path \<Rightarrow> io_error + unit"
  effective_uid :: nat

datatype fs_action =
    CreateDir path
  | SetMode path nat
  | Connect path
  | RemoveFile path
  | BindSocket path

definition is_not_running_error :: "io_error \<Rightarrow> bool" where
  "is_not_running_error e \<longleftrightarrow> io_kind e = NotFound \<or> io_kind e = ConnectionRefused"

definition ensure_owned_by_current_user :: "fs_env \<Rightarrow> path \<Rightarrow> fs_meta \<Rightarrow> unit res" where
  "ensure_owned_by_current_user F path m =
     (if fs_uid m \<noteq> effective_uid F
      then Inl (UnsafeSocketPath path (''entry is owned by uid '' @ show_nat (fs_uid m) @
        '', current effective uid is '' @ show_nat (effective_uid F)))
      else Inr ())"

text \<open>A step performs one action and continues when it succeeds.\<close>

definition act :: "fs_action \<Rightarrow> unit res \<Rightarrow> fs_action list \<times> 'a res \<Rightarrow> fs_action list \<times> 'a res" where
  "act a r next = (case r of Inl e \<Rightarrow> ([a], Inl e) | Inr _ \<Rightarrow> (a # fst next, snd next))"

definition control_io :: "path \<Rightarrow> io_error + 'a \<Rightarrow> 'a res" where
  "control_io path r = map_err (ControlIo path) r"

definition prepare_parent_directory :: "fs_env \<Rightarrow> path \<Rightarrow> fs_action list \<times> unit res" where
  "prepare_parent_directory F path =
     (case parent_of F path of
        None \<Rightarrow> ([], Inl (UnsafeSocketPath path ''socket path has no parent directory''))
      | Some parent \<Rightarrow>
          act (CreateDir parent) (control_io parent (create_dir_all F parent))
            (case control_io parent (symlink_metadata F parent) of
               Inl e \<Rightarrow> ([], Inl e)
             | Inr m \<Rightarrow>
                 if \<not> fs_is_dir m
                 then ([], Inl (UnsafeSocketPath parent ''socket parent is not a directory''))
                 else (case ensure_owned_by_current_user F parent m of
                     Inl e \<Rightarrow> ([], Inl e)
                   | Inr _ \<Rightarrow> act (SetMode parent 448) (control_io parent (set_permissions F parent 448)) ([], Inr ()))))"

definition prepare_socket_path :: "fs_env \<Rightarrow> path \<Rightarrow> fs_action list \<times> unit res" where
  "prepare_socket_path F path =
     (case symlink_metadata F path of
        Inl e \<Rightarrow> if io_kind e = NotFound then ([], Inr ()) else ([], Inl (ControlIo path e))
      | Inr m \<Rightarrow>
          if \<not> fs_is_socket m then ([], Inl (UnsafeSocketPath path ''existing entry is not a Unix socket''))
          else case ensure_owned_by_current_user F path m of
            Inl e \<Rightarrow> ([], Inl e)
          | Inr _ \<Rightarrow>
              act (Connect path)
                (case unix_connect F path of
                   Connected \<Rightarrow> Inl (AlreadyRunning path)
                 | ConnectTimeout \<Rightarrow> Inl (AlreadyRunning path)
                 | ConnectFails e \<Rightarrow> if is_not_running_error e then Inr () else Inl (ControlIo path e))
                (act (RemoveFile path) (control_io path (remove_file F path)) ([], Inr ())))"

definition control_bind :: "fs_env \<Rightarrow> path \<Rightarrow> fs_action list \<times> unit res" where
  "control_bind F path =
     (let (a1, r1) = prepare_parent_directory F path in
      case r1 of Inl e \<Rightarrow> (a1, Inl e)
      | Inr _ \<Rightarrow>
          let (a2, r2) = prepare_socket_path F path in
          (case r2 of Inl e \<Rightarrow> (a1 @ a2, Inl e)
           | Inr _ \<Rightarrow>
               let (a3, r3) = act (BindSocket path) (control_io path (unix_bind F path))
                 (act (SetMode path 384) (control_io path (set_permissions F path 384)) ([], Inr ())) in
               (a1 @ a2 @ a3, r3)))"

text \<open>Dropping the server removes the socket; a failure is only logged.\<close>

definition control_drop :: "path \<Rightarrow> fs_action list" where
  "control_drop path = [RemoveFile path]"

section \<open>The client\<close>

text \<open>\<open>String::from_utf8_lossy\<close>: each invalid sequence becomes the replacement character.\<close>

definition replacement_character :: bytes where "replacement_character = [239, 191, 189]"

fun lossy_bytes :: "nat \<Rightarrow> bytes \<Rightarrow> bytes" where
  "lossy_bytes 0 bs = []"
| "lossy_bytes (Suc k) bs =
     (if bs = [] then []
      else case utf8_char (map unat bs) of
        Inr n \<Rightarrow> take n bs @ lossy_bytes k (drop n bs)
      | Inl (Some n) \<Rightarrow> replacement_character @ lossy_bytes k (drop n bs)
      | Inl None \<Rightarrow> replacement_character)"

definition from_utf8_lossy :: "bytes \<Rightarrow> string" where
  "from_utf8_lossy bs = str_of (lossy_bytes (length bs) bs)"

text \<open>
  \<open>polls\<close> are the successive answers of \<open>path.exists()\<close> with the time of each check after the
  acceptance; the loop sleeps \<open>STOP_POLL_INTERVAL\<close> between them.
\<close>

fun await_removed :: "duration \<Rightarrow> (bool \<times> duration) list \<Rightarrow> unit res option" where
  "await_removed limit [] = None"
| "await_removed limit ((exists, elapsed) # polls) =
     (if \<not> exists then Some (Inr ())
      else if limit \<le> elapsed then Some (Inl (ShutdownTimeout limit))
      else await_removed limit polls)"

definition request_shutdown ::
  "runtime_config \<Rightarrow> connect_outcome \<Rightarrow> peer_stream \<Rightarrow> (bool \<times> duration) list \<Rightarrow>
     unit res option" where
  "request_shutdown cfg conn c polls =
     (let path = control_socket cfg in
      case conn of
        ConnectFails e \<Rightarrow> Some (Inl (if is_not_running_error e then NotRunning path else ControlIo path e))
      | ConnectTimeout \<Rightarrow> Some (Inl (ControlTimeout path))
      | Connected \<Rightarrow>
          (case bind_res (write_control_frame path c) (\<lambda>_. read_control_frame path c) of
             Inl e \<Rightarrow> Some (Inl e)
           | Inr response \<Rightarrow>
               if response \<noteq> ACCEPTED_RESPONSE
               then Some (Inl (ControlProtocol (trim (from_utf8_lossy response))))
               else await_removed (shutdown_timeout cfg) polls))"

section \<open>What ends the server\<close>

lemma read_bytes_newline:
  "10 \<notin> set p \<Longrightarrow> length p < n \<Longrightarrow> read_bytes n (p @ 10 # r) fin = FrameRead (p @ [10])"
proof (induction p arbitrary: n)
  case Nil
  then show ?case by (cases n) simp_all
next
  case (Cons b p)
  then show ?case by (cases n) auto
qed

lemma read_bytes_open:
  "10 \<notin> set bs \<Longrightarrow> length bs < n \<Longrightarrow>
     read_bytes n bs fin = (case fin of StreamFails e \<Rightarrow> ReadFails e | Silent \<Rightarrow> ReadTimeout)"
  by (induction n bs fin rule: read_bytes.induct) (auto split: stream_end.splits)

lemma read_bytes_long: "10 \<notin> set (take n bs) \<Longrightarrow> n \<le> length bs \<Longrightarrow> read_bytes n bs fin = ReadFails frame_error"
  by (induction n bs fin rule: read_bytes.induct) auto

text \<open>The three ways a connection can go: a frame ended in time, an open frame, or a frame too long.\<close>

lemma first_frame_cases:
  fixes bs :: bytes
  obtains (frame) p r where "bs = p @ 10 # r" "10 \<notin> set p" "length p < 64"
  | (still_open) "10 \<notin> set bs" "length bs < 64"
  | (long) "10 \<notin> set (take 64 bs)" "64 \<le> length bs"
proof (cases "(10 :: byte) \<in> set (take 64 bs)")
  case True
  then obtain p r where split: "take 64 bs = p @ 10 # r" "10 \<notin> set p" by (meson split_list_first)
  have "length p < 64" using arg_cong [OF split(1), of length] by simp
  moreover have "bs = p @ 10 # (r @ drop 64 bs)" using append_take_drop_id [of 64 bs] split(1) by simp
  ultimately show ?thesis using frame split(2) by blast
next
  case False
  then show ?thesis using still_open long by (cases "length bs < 64") auto
qed

definition write_error :: "path \<Rightarrow> write_outcome \<Rightarrow> error option" where
  "write_error path w =
     (case w of Written \<Rightarrow> None | WriteFails e \<Rightarrow> Some (ControlIo path e) | WriteTimeout \<Rightarrow> Some (ControlTimeout path))"

text \<open>
  The reference for one connection: it ends the server with success only by the exact request,
  and with an error when it sends no complete frame or does not take its response.
\<close>

definition connection_end :: "path \<Rightarrow> peer_stream \<Rightarrow> unit res option" where
  "connection_end path c =
     (let bs = peer_bytes_sent c in
      if 10 \<notin> set bs \<and> length bs < 64
      then Some (Inl (case peer_end c of
          StreamFails e \<Rightarrow> ControlIo path e
        | Silent \<Rightarrow> ControlTimeout path))
      else case write_error path (peer_write c) of
        Some e \<Rightarrow> Some (Inl e)
      | None \<Rightarrow> if take 9 bs = SHUTDOWN_REQUEST then Some (Inr ()) else None)"

definition stream_fails_properly :: "peer_stream \<Rightarrow> bool" where
  "stream_fails_properly c \<longleftrightarrow> (\<forall>e. peer_end c = StreamFails e \<longrightarrow> io_kind e \<noteq> InvalidData)"

lemma shutdown_frame: "10 \<notin> set p \<Longrightarrow> (p @ [10] = SHUTDOWN_REQUEST) = (take 9 (p @ 10 # r) = SHUTDOWN_REQUEST)"
proof
  assume p: "10 \<notin> set p" and t: "take 9 (p @ 10 # r) = SHUTDOWN_REQUEST"
  have no: "10 \<notin> set (ascii ''shutdown'')" by (simp add: ascii_def)
  show "p @ [10] = SHUTDOWN_REQUEST"
  proof (cases "length p < 9")
    case True
    then have "p @ [10] @ take (8 - length p) r = ascii ''shutdown'' @ [10]"
      using t by (simp add: SHUTDOWN_REQUEST_def take_Cons')
    then show ?thesis
      using p no by (auto simp: SHUTDOWN_REQUEST_def append_eq_append_conv2 Cons_eq_append_conv)
        (metis in_set_conv_decomp)
  next
    case False
    then have "take 9 p = ascii ''shutdown'' @ [10]" using t by (simp add: SHUTDOWN_REQUEST_def)
    then have "10 \<in> set (take 9 p)" by simp
    then show ?thesis using p by (meson in_set_takeD)
  qed
qed (auto simp: SHUTDOWN_REQUEST_def ascii_def)

lemma handle_connection_end:
  assumes "stream_fails_properly c"
  shows "(case snd (handle_connection path c) of
      Inl e \<Rightarrow> Some (Inl e) | Inr stop \<Rightarrow> if stop then Some (Inr ()) else None) = connection_end path c"
proof (cases rule: first_frame_cases [of "peer_bytes_sent c"])
  case (frame p r)
  have "read_control_frame path c = Inr (p @ [10])"
    using frame by (simp add: read_control_frame_def read_bytes_newline MAX_FRAME_LEN_def)
  then show ?thesis
    using shutdown_frame [OF frame(2), of r] frame
    by (auto simp: handle_connection_def connection_end_def Let_def write_control_frame_def write_error_def
        split: write_outcome.splits)
next
  case still_open
  then show ?thesis
    using assms
    by (auto simp: handle_connection_def connection_end_def read_control_frame_def read_bytes_open MAX_FRAME_LEN_def
        stream_fails_properly_def split: stream_end.splits)
next
  case long
  have "take 9 (peer_bytes_sent c) \<noteq> SHUTDOWN_REQUEST"
  proof
    assume "take 9 (peer_bytes_sent c) = SHUTDOWN_REQUEST"
    then have "10 \<in> set (take 9 (take 64 (peer_bytes_sent c)))" by (simp add: min_def SHUTDOWN_REQUEST_def)
    then show False using long by (meson in_set_takeD)
  qed
  then show ?thesis
    using long
    by (auto simp: handle_connection_def connection_end_def read_control_frame_def read_bytes_long MAX_FRAME_LEN_def
        frame_error_def write_control_frame_def write_error_def Let_def split: write_outcome.splits)
qed

text \<open>
  C38. The control server works through its connections until the first that ends it: the exact
  request \<open>shutdown\<close>, answered, ends it with success, and an unknown or oversized command is
  refused without effect. But a client that closes or stays silent before a complete frame, or
  that does not take its answer, ends it with an error, and the application stops with it.
\<close>

theorem control_server_ends:
  assumes "\<forall>c \<in> set cs. stream_fails_properly c"
  shows "wait_for_shutdown path (map Inr cs) =
    (case dropWhile (\<lambda>c. connection_end path c = None) cs of [] \<Rightarrow> None | c # _ \<Rightarrow> connection_end path c)"
  using assms
proof (induction cs)
  case (Cons c cs)
  then have "connection_end path c = (case snd (handle_connection path c) of
      Inl e \<Rightarrow> Some (Inl e) | Inr stop \<Rightarrow> if stop then Some (Inr ()) else None)"
    using handle_connection_end [of c path] by simp
  with Cons show ?case by (auto split: sum.splits)
qed simp

definition demo_control_client :: "bytes \<Rightarrow> peer_stream" where
  "demo_control_client bs = \<lparr>peer_bytes_sent = bs, peer_end = StreamFails \<lparr>io_kind = UnexpectedEof, io_text = ''early eof''\<rparr>,
     peer_write = Written\<rparr>"

theorem control_server_ends_witness:
  "wait_for_shutdown ''/run/c.sock'' [Inr (demo_control_client (ascii ''status'' @ [10])), Inr (demo_control_client SHUTDOWN_REQUEST)]
     = Some (Inr ())
   \<and> wait_for_shutdown ''/run/c.sock'' [Inr (demo_control_client []), Inr (demo_control_client SHUTDOWN_REQUEST)]
     = Some (Inl (ControlIo ''/run/c.sock'' \<lparr>io_kind = UnexpectedEof, io_text = ''early eof''\<rparr>))"
proof -
  have ok: "stream_fails_properly (demo_control_client bs)" for bs by (simp add: stream_fails_properly_def demo_control_client_def)
  have ends: "connection_end p (demo_control_client (ascii ''status'' @ [10])) = None"
      "connection_end p (demo_control_client SHUTDOWN_REQUEST) = Some (Inr ())"
      "connection_end p (demo_control_client []) = Some (Inl (ControlIo p \<lparr>io_kind = UnexpectedEof, io_text = ''early eof''\<rparr>))" for p
    by (simp_all add: connection_end_def demo_control_client_def write_error_def SHUTDOWN_REQUEST_def ascii_def)
  show ?thesis
    using control_server_ends [of "[demo_control_client (ascii ''status'' @ [10]), demo_control_client SHUTDOWN_REQUEST]" "''/run/c.sock''"]
      control_server_ends [of "[demo_control_client [], demo_control_client SHUTDOWN_REQUEST]" "''/run/c.sock''"]
    by (simp add: ok ends del: wait_for_shutdown.simps)
qed

section \<open>Binding and stopping\<close>

lemma act_actions: "set (fst (act a r next)) \<subseteq> insert a (set (fst next))"
  by (auto simp: act_def split: sum.splits)

lemma prepare_parent_directory_actions:
  "a \<in> set (fst (prepare_parent_directory F path)) \<Longrightarrow> \<exists>p m. a = CreateDir p \<or> a = SetMode p m"
  by (auto simp: prepare_parent_directory_def act_def split: option.splits sum.splits if_splits)

lemma prepare_socket_path_removes:
  assumes "RemoveFile p \<in> set (fst (prepare_socket_path F path))"
  shows "p = path \<and> (\<exists>m. symlink_metadata F path = Inr m \<and> fs_is_socket m \<and> fs_uid m = effective_uid F)
    \<and> (\<exists>e. unix_connect F path = ConnectFails e \<and> is_not_running_error e)"
  using assms
  by (auto simp: prepare_socket_path_def act_def ensure_owned_by_current_user_def
      split: sum.splits if_splits connect_outcome.splits)

text \<open>
  Binding removes nothing but a stale socket of the same user at its own path; a socket that
  accepts a connection, or does not refuse it in time, is left alone.
\<close>

lemma control_bind_removes:
  assumes "RemoveFile p \<in> set (fst (control_bind F path))"
  shows "p = path \<and> (\<exists>m. symlink_metadata F path = Inr m \<and> fs_is_socket m \<and> fs_uid m = effective_uid F)
    \<and> (\<exists>e. unix_connect F path = ConnectFails e \<and> is_not_running_error e)"
proof -
  have "RemoveFile p \<in> set (fst (prepare_socket_path F path))"
    using assms prepare_parent_directory_actions [of "RemoveFile p" F path]
    by (auto simp: control_bind_def Let_def act_def split: prod.splits sum.splits)
  then show ?thesis by (rule prepare_socket_path_removes)
qed

lemma await_removed_Inr: "await_removed limit polls = Some (Inr ()) \<Longrightarrow> \<exists>t. (False, t) \<in> set polls"
  by (induction limit polls rule: await_removed.induct) (auto split: if_splits)

lemma await_removed_Inl: "await_removed limit polls = Some (Inl e) \<Longrightarrow> e = ShutdownTimeout limit"
  by (induction limit polls rule: await_removed.induct) (auto split: if_splits)

text \<open>\<open>stop\<close> succeeds only after the instance accepted the request and its socket disappeared.\<close>

lemma request_shutdown_Inr:
  assumes "request_shutdown cfg conn c polls = Some (Inr ())"
  shows "conn = Connected \<and> read_control_frame (control_socket cfg) c = Inr ACCEPTED_RESPONSE \<and> (\<exists>t. (False, t) \<in> set polls)"
  using assms
  by (auto simp: request_shutdown_def Let_def bind_res_Inr_iff dest: await_removed_Inr
      split: connect_outcome.splits sum.splits if_splits)

end
