(* ===== verification/Tasks.thy ===== *)
theory Tasks
  imports Retrieval Control "HOL-Library.Multiset"
begin

text \<open>
  The handles of the long-running tasks: the listener and the two RPC servers, which share one shape
  (\<open>src/listener.rs\<close>, \<open>src/rpc/server.rs\<close>, \<open>src/rpc/submission.rs\<close>), and the P2P service with its
  two tasks (\<open>src/p2p/service.rs\<close>). A task is known by how it ends once it is asked to stop. Time
  passes only while something is awaited; joining an aborted task takes none. The log of actions
  shows which task was started and how it ended.
\<close>

section \<open>Tasks and their ends\<close>

definition DRIVER_TASK :: string where "DRIVER_TASK = ''p2p driver''"
definition WORKER_TASK :: string where "WORKER_TASK = ''p2p worker''"
definition LISTENER_TASK :: string where "LISTENER_TASK = ''Pulsar listener''"
definition VERIFICATION_TASK :: string where "VERIFICATION_TASK = ''verification worker''"
definition RPC_TASK :: string where "RPC_TASK = ''verification RPC server''"
definition SUBMISSION_RPC_TASK :: string where "SUBMISSION_RPC_TASK = ''submission RPC server''"

lemmas task_names = DRIVER_TASK_def WORKER_TASK_def LISTENER_TASK_def VERIFICATION_TASK_def RPC_TASK_def
  SUBMISSION_RPC_TASK_def

type_synonym join_result = "join_error + unit res"

datatype life_action =
    Spawned string
  | StopCancelled string
  | Joined string
  | Aborted string
  | Exited string
  | MarkedNotServing string
  | ControlSocket fs_action

text \<open>The delay of the end after the stop signal, if it comes, and the result of joining.\<close>

record task =
  stop_delay :: "duration option"
  stop_result :: join_result

definition into_error :: "string \<Rightarrow> join_result \<Rightarrow> error" where
  "into_error name r =
     (case r of Inr (Inr _) \<Rightarrow> TaskExitedUnexpectedly name | Inr (Inl e) \<Rightarrow> e | Inl j \<Rightarrow> Task j)"

definition task_result :: "join_result \<Rightarrow> unit res" where
  "task_result r = (case r of Inr x \<Rightarrow> x | Inl j \<Rightarrow> Inl (Task j))"

definition abort_task :: "string \<Rightarrow> task option \<Rightarrow> life_action list" where
  "abort_task name t = (case t of None \<Rightarrow> [] | Some _ \<Rightarrow> [Aborted name])"

type_synonym timed_result = "instant \<times> life_action list \<times> unit res"

text \<open>\<open>shutdown\<close> of a handle with one task: the stop signal, then joining within the timeout.\<close>

definition shutdown_task :: "string \<Rightarrow> task option \<Rightarrow> duration \<Rightarrow> instant \<Rightarrow> timed_result" where
  "shutdown_task name t limit now =
     (case t of
        None \<Rightarrow> (now, [StopCancelled name], Inl (TaskExitedUnexpectedly name))
      | Some f \<Rightarrow>
          (case stop_delay f of
             Some d \<Rightarrow>
               if d \<le> limit then (now + d, [StopCancelled name, Joined name], task_result (stop_result f))
               else (now + limit, StopCancelled name # abort_task name t, Inl (ShutdownTimeout limit))
           | None \<Rightarrow> (now + limit, StopCancelled name # abort_task name t, Inl (ShutdownTimeout limit))))"

section \<open>The P2P service\<close>

text \<open>
  What the awaits of an ordered shutdown see: the reply to the drain or the earlier exit of a task,
  the end of the worker or the earlier exit of the driver, and the end of the driver once it is
  awaited. \<open>p2p_held\<close> are the tasks whose handles the service holds.
\<close>

datatype drain_phase =
    DrainReplied duration "unit res"
  | DriverExits duration join_result
  | WorkerExits duration join_result
  | DrainHangs

datatype worker_phase =
    WorkerEnds duration join_result
  | DriverEndsFirst duration join_result
  | WorkerHangs

record p2p_handle =
  p2p_held :: "string list"
  drain_phase :: drain_phase
  worker_phase :: worker_phase
  driver_ends :: "(duration \<times> join_result) option"

text \<open>The ordered shutdown: each action with its time since the start, and the end if it comes.\<close>

type_synonym timed_trace = "(duration \<times> life_action) list \<times> (duration \<times> unit res) option"

definition join_driver ::
  "(duration \<times> life_action) list \<Rightarrow> duration \<Rightarrow> (join_result \<Rightarrow> unit res) \<Rightarrow> p2p_handle \<Rightarrow> timed_trace" where
  "join_driver tr t f h =
     (case driver_ends h of
        None \<Rightarrow> (tr, None)
      | Some (d, r) \<Rightarrow> (tr @ [(t + d, Joined DRIVER_TASK)], Some (t + d, f r)))"

definition wait_for_worker_shutdown :: "(duration \<times> life_action) list \<Rightarrow> duration \<Rightarrow> p2p_handle \<Rightarrow> timed_trace" where
  "wait_for_worker_shutdown tr t h =
     (case worker_phase h of
        WorkerHangs \<Rightarrow> (tr, None)
      | DriverEndsFirst d r \<Rightarrow>
          (tr @ [(t + d, Exited DRIVER_TASK)], Some (t + d, Inl (into_error DRIVER_TASK r)))
      | WorkerEnds d r \<Rightarrow>
          let tr1 = tr @ [(t + d, Joined WORKER_TASK)] in
          if r = Inr (Inl P2pDriverClosed)
          then join_driver tr1 (t + d) (\<lambda>r. Inl (into_error DRIVER_TASK r)) h
          else (case task_result r of
              Inl e \<Rightarrow> (tr1, Some (t + d, Inl e))
            | Inr _ \<Rightarrow> join_driver tr1 (t + d) task_result h))"

definition shutdown_ordered :: "p2p_handle \<Rightarrow> timed_trace" where
  "shutdown_ordered h =
     (case drain_phase h of
        DrainHangs \<Rightarrow> ([], None)
      | DriverExits d r \<Rightarrow> ([(d, Exited DRIVER_TASK)], Some (d, Inl (into_error DRIVER_TASK r)))
      | WorkerExits d r \<Rightarrow> ([(d, Exited WORKER_TASK)], Some (d, Inl (into_error WORKER_TASK r)))
      | DrainReplied d (Inl e) \<Rightarrow> ([], Some (d, Inl e))
      | DrainReplied d (Inr _) \<Rightarrow> wait_for_worker_shutdown [(d, StopCancelled WORKER_TASK)] d h)"

fun ended_by :: "life_action \<Rightarrow> string list" where
  "ended_by (Joined n) = [n]"
| "ended_by (Aborted n) = [n]"
| "ended_by (Exited n) = [n]"
| "ended_by _ = []"

definition ended :: "life_action list \<Rightarrow> string list" where
  "ended acts = concat (map ended_by acts)"

text \<open>\<open>abort_and_join\<close> after some actions: the handles that are still held, the worker first.\<close>

definition abort_and_join :: "life_action list \<Rightarrow> p2p_handle \<Rightarrow> life_action list" where
  "abort_and_join acts h = map Aborted (filter (\<lambda>n. n \<notin> set (ended acts)) (p2p_held h))"

definition shutdown_service :: "p2p_handle \<Rightarrow> duration \<Rightarrow> instant \<Rightarrow> timed_result" where
  "shutdown_service h limit now =
     (let (tr, fin) = shutdown_ordered h;
          so_far = map snd (filter (\<lambda>(t, a). t \<le> limit) tr);
          late = (now + limit, so_far @ abort_and_join so_far h, Inl (ShutdownTimeout limit)) in
      case fin of
        None \<Rightarrow> late
      | Some (d, r) \<Rightarrow>
          if limit < d then late
          else (case r of
              Inr _ \<Rightarrow> (now + d, map snd tr, Inr ())
            | Inl e \<Rightarrow> (now + d, map snd tr @ abort_and_join (map snd tr) h, Inl e)))"

text \<open>
  The refresh of the authorization by the listener: the set of a height, then one command to the
  driver, whose reply is \<open>answer\<close>.
\<close>

definition replace_at ::
  "key_env \<Rightarrow> comet \<Rightarrow> (driver_command \<Rightarrow> unit res) \<Rightarrow> peer_id \<Rightarrow> nat \<Rightarrow> driver_command list \<times> unit res" where
  "replace_at E C answer me height =
     (case load_at E C height of
        Inl e \<Rightarrow> ([], Inl e)
      | Inr peers \<Rightarrow>
          if me \<notin> peers
          then ([ReplaceAuthorizedPeers {}],
                bind_res (answer (ReplaceAuthorizedPeers {})) (\<lambda>_. Inl (LocalValidatorRemoved me)))
          else ([ReplaceAuthorizedPeers peers], answer (ReplaceAuthorizedPeers peers)))"

section \<open>Every shutdown ends its tasks in time\<close>

lemma ended_simps [simp]: "ended [] = []" "ended (a # acts) = ended_by a @ ended acts"
  "ended (acts @ acts') = ended acts @ ended acts'"
  by (simp_all add: ended_def)

lemma ended_aborts [simp]: "ended (map Aborted ns) = ns"
  by (induction ns) simp_all

lemma distinct_tasks:
  "distinct [DRIVER_TASK, WORKER_TASK, LISTENER_TASK, VERIFICATION_TASK, RPC_TASK, SUBMISSION_RPC_TASK]"
  by (simp add: task_names)

lemma task_names_neq [simp]:
  "DRIVER_TASK \<noteq> WORKER_TASK" "WORKER_TASK \<noteq> DRIVER_TASK" "VERIFICATION_TASK \<noteq> WORKER_TASK"
  "VERIFICATION_TASK \<noteq> DRIVER_TASK" "LISTENER_TASK \<notin> {DRIVER_TASK, WORKER_TASK}"
  using distinct_tasks by auto

lemma ended_abort_task [simp]: "ended (abort_task n t) = (case t of None \<Rightarrow> [] | Some _ \<Rightarrow> [n])"
  by (cases t) (simp_all add: abort_task_def)

lemma shutdown_task_ends:
  assumes "shutdown_task n (Some f) limit now = (t, acts, r)"
  shows "t \<le> now + limit \<and> ended acts = [n] \<and> (r = Inr () \<longrightarrow> Aborted n \<notin> set acts)"
  using assms by (auto simp: shutdown_task_def abort_task_def task_result_def split: option.splits if_splits sum.splits)

text \<open>The actions of an ordered shutdown come in time order and end no task twice.\<close>

definition trace_ok :: "timed_trace \<Rightarrow> bool" where
  "trace_ok T \<longleftrightarrow>
     distinct (ended (map snd (fst T))) \<and> set (ended (map snd (fst T))) \<subseteq> {WORKER_TASK, DRIVER_TASK}
     \<and> (\<forall>n. Aborted n \<notin> snd ` set (fst T))
     \<and> (\<forall>d. snd T = Some (d, Inr ()) \<longrightarrow> ended (map snd (fst T)) = [WORKER_TASK, DRIVER_TASK])"

lemma shutdown_ordered_ok: "trace_ok (shutdown_ordered h)"
  by (auto simp: shutdown_ordered_def wait_for_worker_shutdown_def join_driver_def trace_ok_def task_result_def Let_def
      split: drain_phase.splits worker_phase.splits option.splits sum.splits)

lemma ended_filter_subset: "set (ended (map snd (filter P tr))) \<subseteq> set (ended (map snd tr))"
  by (induction tr) auto

lemma ended_filter_distinct: "distinct (ended (map snd tr)) \<Longrightarrow> distinct (ended (map snd (filter P tr)))"
  using ended_filter_subset [of P] by (induction tr) fastforce+

lemma abort_and_join_ends:
  assumes "p2p_held h = [WORKER_TASK, DRIVER_TASK]" "distinct (ended acts)" "set (ended acts) \<subseteq> {WORKER_TASK, DRIVER_TASK}"
  shows "mset (ended (acts @ abort_and_join acts h)) = {#WORKER_TASK, DRIVER_TASK#}"
proof -
  have "distinct (ended (acts @ abort_and_join acts h))" using assms by (auto simp: abort_and_join_def)
  moreover have "set (ended (acts @ abort_and_join acts h)) = set [WORKER_TASK, DRIVER_TASK]"
    using assms by (auto simp: abort_and_join_def)
  ultimately have "mset (ended (acts @ abort_and_join acts h)) = mset [WORKER_TASK, DRIVER_TASK]"
    by (subst set_eq_iff_mset_eq_distinct [symmetric]) auto
  then show ?thesis by simp
qed

lemma shutdown_service_ends:
  assumes "shutdown_service h limit now = (t, acts, r)" "p2p_held h = [WORKER_TASK, DRIVER_TASK]"
  shows "t \<le> now + limit \<and> mset (ended acts) = {#WORKER_TASK, DRIVER_TASK#} \<and> (r = Inr () \<longrightarrow> (\<forall>n. Aborted n \<notin> set acts))"
proof -
  obtain tr fin where tr: "shutdown_ordered h = (tr, fin)" by fastforce
  have ok: "distinct (ended (map snd tr))" "set (ended (map snd tr)) \<subseteq> {WORKER_TASK, DRIVER_TASK}"
    "\<forall>n. Aborted n \<notin> snd ` set tr" "\<And>d. fin = Some (d, Inr ()) \<Longrightarrow> ended (map snd tr) = [WORKER_TASK, DRIVER_TASK]"
    using shutdown_ordered_ok [of h] by (auto simp: trace_ok_def tr)
  let ?so_far = "map snd (filter (\<lambda>(t, a). t \<le> limit) tr)"
  have "mset (ended (?so_far @ abort_and_join ?so_far h)) = {#WORKER_TASK, DRIVER_TASK#}"
    using ended_filter_subset [of "\<lambda>(t, a). t \<le> limit" tr] ended_filter_distinct [of tr] ok by (intro abort_and_join_ends [OF assms(2)]) auto
  moreover have "mset (ended (map snd tr @ abort_and_join (map snd tr) h)) = {#WORKER_TASK, DRIVER_TASK#}"
    using ok by (intro abort_and_join_ends [OF assms(2)])
  ultimately show ?thesis using assms(1) ok(3,4)
    by (auto simp: shutdown_service_def tr Let_def split: option.splits if_splits sum.splits)
qed

text \<open>A validator that left the set gives up all its peers before it reports that.\<close>

lemma replace_at_fails_closed:
  assumes "replace_at E C answer me height = (cmds, r)" "load_at E C height = Inr peers" "me \<notin> peers"
  shows "cmds = [ReplaceAuthorizedPeers {}] \<and> r \<noteq> Inr ()"
  using assms by (auto simp: replace_at_def bind_res_Inr_iff)

end
