(* ===== verification/App.thy ===== *)
theory App
  imports Tasks Noir Submission "HOL-Library.Sublist"
begin

text \<open>
  The application (\<open>src/app.rs\<close>): startup of the components in order with cleanup when
  one fails or a stop comes early, the first exit, and the shutdown of all components under one
  deadline. The result is the log of actions and the outcome of the application.
\<close>

section \<open>Components\<close>

text \<open>
  A handle is present when its component is enabled; its task is \<open>None\<close> once it was taken.
\<close>

record components =
  c_p2p :: "p2p_handle option"
  c_listener :: "task option option"
  c_verification :: "task option"
  c_rpc :: "task option option"
  c_submission :: "task option option"

definition force_handle :: "string \<Rightarrow> task option option \<Rightarrow> life_action list" where
  "force_handle n h = (case h of None \<Rightarrow> [] | Some t \<Rightarrow> abort_task n t)"

definition force_p2p :: "p2p_handle option \<Rightarrow> life_action list" where
  "force_p2p h = (case h of None \<Rightarrow> [] | Some p \<Rightarrow> abort_and_join [] p)"

definition force_shutdown_components :: "components \<Rightarrow> life_action list" where
  "force_shutdown_components c =
     force_handle SUBMISSION_RPC_TASK (c_submission c) @ force_handle LISTENER_TASK (c_listener c) @
     force_p2p (c_p2p c) @ [StopCancelled VERIFICATION_TASK] @
     abort_task VERIFICATION_TASK (c_verification c) @ force_handle RPC_TASK (c_rpc c)"

definition cleanup_startup ::
  "p2p_handle option \<Rightarrow> task option option \<Rightarrow> task option \<Rightarrow> task option option \<Rightarrow> life_action list" where
  "cleanup_startup p2p listener worker rpc =
     force_handle RPC_TASK rpc @ force_handle LISTENER_TASK listener @ force_p2p p2p @
     [StopCancelled VERIFICATION_TASK] @ abort_task VERIFICATION_TASK worker"

section \<open>Shutdown on request\<close>

definition preserve_first_error :: "error option \<Rightarrow> unit res \<Rightarrow> error option" where
  "preserve_first_error first r =
     (case r of
        Inr _ \<Rightarrow> first
      | Inl e \<Rightarrow> (case first of None \<Rightarrow> Some e | Some f \<Rightarrow> Some f))"

text \<open>
  \<open>checked_duration_since\<close> fails when the deadline has passed; then the component is aborted. The
  timeout of a component is reported as the total one.
\<close>

definition within_deadline ::
  "(duration \<Rightarrow> instant \<Rightarrow> timed_result) \<Rightarrow> life_action list \<Rightarrow> instant \<Rightarrow> duration \<Rightarrow> instant \<Rightarrow> timed_result" where
  "within_deadline stop forced deadline limit now =
     (if deadline < now then (now, forced, Inl (ShutdownTimeout limit))
      else let (t, acts, r) = stop (deadline - now) now in
        (t, acts, case r of Inl (ShutdownTimeout _) \<Rightarrow> Inl (ShutdownTimeout limit) | _ \<Rightarrow> r))"

definition shutdown_handle :: "string \<Rightarrow> task option \<Rightarrow> instant \<Rightarrow> duration \<Rightarrow> instant \<Rightarrow> timed_result" where
  "shutdown_handle n t = within_deadline (shutdown_task n t) (abort_task n t)"

definition shutdown_p2p :: "p2p_handle \<Rightarrow> instant \<Rightarrow> duration \<Rightarrow> instant \<Rightarrow> timed_result" where
  "shutdown_p2p h = within_deadline (shutdown_service h) (abort_and_join [] h)"

definition shutdown_verification :: "task option \<Rightarrow> instant \<Rightarrow> duration \<Rightarrow> instant \<Rightarrow> timed_result" where
  "shutdown_verification t deadline limit now =
     (let late = \<lambda>at. (at, StopCancelled VERIFICATION_TASK # abort_task VERIFICATION_TASK t,
            Inl (ShutdownTimeout limit)) in
      if deadline < now then late now
      else case t of
        None \<Rightarrow> (now, [StopCancelled VERIFICATION_TASK], Inl (TaskExitedUnexpectedly VERIFICATION_TASK))
      | Some f \<Rightarrow>
          (case stop_delay f of
             None \<Rightarrow> late deadline
           | Some d \<Rightarrow>
               if d \<le> deadline - now
               then (now + d, [StopCancelled VERIFICATION_TASK, Joined VERIFICATION_TASK], task_result (stop_result f))
               else late deadline))"

type_synonym shutdown_state = "instant \<times> life_action list \<times> error option"

definition stop_next :: "(instant \<Rightarrow> timed_result) option \<Rightarrow> shutdown_state \<Rightarrow> shutdown_state" where
  "stop_next f s =
     (case f of
        None \<Rightarrow> s
      | Some stop \<Rightarrow>
          let (now, acts, first) = s; (t, a, r) = stop now in (t, acts @ a, preserve_first_error first r))"

definition mark_not_serving :: "string \<Rightarrow> task option option \<Rightarrow> life_action list" where
  "mark_not_serving n h = (case h of None \<Rightarrow> [] | Some _ \<Rightarrow> [MarkedNotServing n])"

definition shutdown_requested :: "unit res \<Rightarrow> components \<Rightarrow> duration \<Rightarrow> instant \<Rightarrow> timed_result" where
  "shutdown_requested request c limit now =
     (let deadline = now + limit;
          handle = (\<lambda>n h. map_option (\<lambda>t. shutdown_handle n t deadline limit) h);
          s0 = (now, mark_not_serving RPC_TASK (c_rpc c) @ mark_not_serving SUBMISSION_RPC_TASK (c_submission c),
                preserve_first_error None request);
          s1 = stop_next (handle SUBMISSION_RPC_TASK (c_submission c)) s0;
          s2 = stop_next (handle LISTENER_TASK (c_listener c)) s1;
          s3 = stop_next (map_option (\<lambda>h. shutdown_p2p h deadline limit) (c_p2p c)) s2;
          s4 = stop_next (Some (shutdown_verification (c_verification c) deadline limit)) s3;
          (t, acts, first) = stop_next (handle RPC_TASK (c_rpc c)) s4 in
      (t, acts, case first of None \<Rightarrow> Inr () | Some e \<Rightarrow> Inl e))"

section \<open>The first exit\<close>

datatype app_exit =
    Requested "unit res"
  | P2pTaskExit string join_result
  | ListenerTaskExit join_result
  | VerificationTaskExit join_result
  | RpcTaskExit join_result
  | SubmissionRpcTaskExit join_result

text \<open>\<open>wait_for_app_exit\<close> takes the handle of the task that ended.\<close>

definition release_task :: "string \<Rightarrow> p2p_handle \<Rightarrow> p2p_handle" where
  "release_task n h = h\<lparr>p2p_held := filter (\<lambda>m. m \<noteq> n) (p2p_held h)\<rparr>"

definition wait_for_app_exit :: "app_exit \<Rightarrow> components \<Rightarrow> life_action list \<times> components" where
  "wait_for_app_exit exit c =
     (case exit of
        Requested _ \<Rightarrow> ([], c)
      | P2pTaskExit n _ \<Rightarrow> ([Exited n], c\<lparr>c_p2p := map_option (release_task n) (c_p2p c)\<rparr>)
      | ListenerTaskExit _ \<Rightarrow> ([Exited LISTENER_TASK], c\<lparr>c_listener := Some None\<rparr>)
      | VerificationTaskExit _ \<Rightarrow> ([Exited VERIFICATION_TASK], c)
      | RpcTaskExit _ \<Rightarrow> ([Exited RPC_TASK], c\<lparr>c_rpc := Some None\<rparr>)
      | SubmissionRpcTaskExit _ \<Rightarrow> ([Exited SUBMISSION_RPC_TASK], c\<lparr>c_submission := Some None\<rparr>))"

definition handle_app_exit :: "app_exit \<Rightarrow> components \<Rightarrow> duration \<Rightarrow> instant \<Rightarrow> timed_result" where
  "handle_app_exit exit c limit now =
     (case exit of
        Requested r \<Rightarrow> shutdown_requested r c limit now
      | P2pTaskExit n r \<Rightarrow> (now, force_shutdown_components c, Inl (into_error n r))
      | ListenerTaskExit r \<Rightarrow> (now, force_shutdown_components c, Inl (into_error LISTENER_TASK r))
      | VerificationTaskExit r \<Rightarrow>
          (now, force_shutdown_components (c\<lparr>c_verification := None\<rparr>), Inl (into_error VERIFICATION_TASK r))
      | RpcTaskExit r \<Rightarrow> (now, force_shutdown_components c, Inl (into_error RPC_TASK r))
      | SubmissionRpcTaskExit r \<Rightarrow>
          (now, force_shutdown_components c, Inl (into_error SUBMISSION_RPC_TASK r)))"

section \<open>Startup\<close>

text \<open>
  The environment of a run: the control socket, the prover, the node and the network that startup
  talks to, what interrupts the start of the listener, the tasks that startup creates, and the
  first exit with its time.
\<close>

datatype interruption =
    ShutdownFirst "unit res"
  | P2pExitFirst string join_result
  | VerificationExitFirst join_result

text \<open>
  The race of \<open>start_listener\<close>: the listener reports that it is ready, its task ends before that, or
  something else comes first, when its task may have been spawned already.
\<close>

datatype startup_race =
    ListenerReady
  | ListenerEnds join_result
  | Interrupted bool interruption

record app_env =
  env_fs :: fs_env
  env_prover :: noir_externs
  env_attempts :: "nat \<Rightarrow> noir_externs"
  env_took :: "nat \<Rightarrow> duration"
  env_http :: "string \<Rightarrow> string + unit"
  env_key :: key_env
  env_peer_id :: "keypair \<Rightarrow> peer_id"
  env_comet :: comet
  env_swarm :: build_env
  env_p2p_ready :: "unit res option"
  env_p2p :: p2p_handle
  env_race :: startup_race
  env_listener :: task
  env_verification :: task
  env_rpc_bind :: "io_error + unit"
  env_rpc :: task
  env_submission_bind :: "io_error + unit"
  env_submission :: task
  env_exit :: app_exit
  env_exit_at :: instant

definition app_registry :: "app_env \<Rightarrow> config \<Rightarrow> verifier_registry res" where
  "app_registry E cfg =
     (if noir_enabled (cfg_noir cfg)
      then bind_res (noir_initialize (env_prover E) (cfg_noir cfg)) (\<lambda>v.
        registry_new [(NoirBarretenberg, noir_backend (env_attempts E) (env_took E) v)])
      else Inr Map.empty)"

definition p2p_prepare :: "'x externs_scheme \<Rightarrow> app_env \<Rightarrow> config \<Rightarrow> driver res" where
  "p2p_prepare X E cfg =
     bind_res (load_validator_identity (env_key E) (validator_key_path (cfg_p2p cfg))) (\<lambda>identity.
     let me = env_peer_id E identity in
     bind_res (pulsar_client_new (env_http E) (cfg_chain cfg)) (\<lambda>client.
     bind_res (load_validator_set (env_key E) (env_comet E) client) (\<lambda>peers.
       if me \<notin> peers
       then Inl (P2pAuthorization (''local peer '' @ show_peer (build_codec (env_swarm E)) me @
         '' is not in the active validator set''))
       else bind_res (driver_build X (env_swarm E) (cfg_p2p cfg) me peers) (\<lambda>(d, _). Inr d))))"

definition p2p_service :: "app_env \<Rightarrow> p2p_handle" where
  "p2p_service E = (env_p2p E)\<lparr>p2p_held := [WORKER_TASK, DRIVER_TASK]\<rparr>"

definition p2p_start :: "'x externs_scheme \<Rightarrow> app_env \<Rightarrow> config \<Rightarrow> life_action list \<times> p2p_handle res" where
  "p2p_start X E cfg =
     (case p2p_prepare X E cfg of
        Inl e \<Rightarrow> ([], Inl e)
      | Inr _ \<Rightarrow>
          let spawn = [Spawned DRIVER_TASK, Spawned WORKER_TASK]; service = p2p_service E in
          (case env_p2p_ready E of
             None \<Rightarrow> (spawn @ abort_and_join [] service, Inl (P2pDriver ''driver exited before becoming ready''))
           | Some (Inl e) \<Rightarrow> (spawn @ abort_and_join [] service, Inl e)
           | Some (Inr _) \<Rightarrow> (spawn, Inr service)))"

definition start_if :: "bool \<Rightarrow> life_action list \<times> 'a res \<Rightarrow> life_action list \<times> 'a option res" where
  "start_if enabled start =
     (if \<not> enabled then ([], Inr None)
      else case start of (acts, Inl e) \<Rightarrow> (acts, Inl e) | (acts, Inr x) \<Rightarrow> (acts, Inr (Some x)))"

definition rpc_start :: "app_env \<Rightarrow> config \<Rightarrow> life_action list \<times> task option res" where
  "rpc_start E cfg =
     (case map_err (RpcBind (rpc_listen_address (cfg_rpc cfg))) (env_rpc_bind E) of
        Inl e \<Rightarrow> ([], Inl e)
      | Inr _ \<Rightarrow> ([Spawned RPC_TASK], Inr (Some (env_rpc E))))"

definition submission_start :: "app_env \<Rightarrow> config \<Rightarrow> life_action list \<times> task option res" where
  "submission_start E cfg =
     (case bind_res (request_limit (config_max_proof_bytes (cfg_proof_store cfg))
               (max_transaction_bytes (cfg_submission cfg)))
             (\<lambda>_. map_err (RpcBind (submission_listen_address (cfg_submission cfg))) (env_submission_bind E)) of
        Inl e \<Rightarrow> ([], Inl e)
      | Inr _ \<Rightarrow> ([Spawned SUBMISSION_RPC_TASK], Inr (Some (env_submission E))))"

datatype listener_startup =
    Started task
  | Disabled
  | StartupInterrupted interruption

definition listener_start :: "app_env \<Rightarrow> config \<Rightarrow> join_result option \<Rightarrow> life_action list \<times> task res" where
  "listener_start E cfg early =
     (case pulsar_client_new (env_http E) (cfg_chain cfg) of
        Inl e \<Rightarrow> ([], Inl e)
      | Inr _ \<Rightarrow>
          (case early of
             None \<Rightarrow> ([Spawned LISTENER_TASK], Inr (env_listener E))
           | Some r \<Rightarrow> ([Spawned LISTENER_TASK, Joined LISTENER_TASK], Inl (into_error LISTENER_TASK r))))"

fun interrupt_action :: "interruption \<Rightarrow> life_action list" where
  "interrupt_action (ShutdownFirst _) = []"
| "interrupt_action (P2pExitFirst n _) = [Exited n]"
| "interrupt_action (VerificationExitFirst _) = [Exited VERIFICATION_TASK]"

text \<open>Leaving the race drops the half-started listener, which aborts its task.\<close>

definition start_listener :: "app_env \<Rightarrow> config \<Rightarrow> life_action list \<times> listener_startup res" where
  "start_listener E cfg =
     (let wrap = (\<lambda>(acts, r). (acts, bind_res r (\<lambda>t. Inr (Started t)))) in
      if \<not> listener_enabled (cfg_listener cfg) then ([], Inr Disabled)
      else case env_race E of
        ListenerReady \<Rightarrow> wrap (listener_start E cfg None)
      | ListenerEnds r \<Rightarrow> wrap (listener_start E cfg (Some r))
      | Interrupted spawned what \<Rightarrow>
          (interrupt_action what @
             (if spawned \<and> is_ok (pulsar_client_new (env_http E) (cfg_chain cfg))
              then [Spawned LISTENER_TASK, Aborted LISTENER_TASK] else []),
           Inr (StartupInterrupted what)))"

definition interrupted_startup :: "app_env \<Rightarrow> p2p_handle option \<Rightarrow> interruption \<Rightarrow> life_action list \<times> unit res" where
  "interrupted_startup E p2p what =
     (case what of
        ShutdownFirst r \<Rightarrow> (cleanup_startup p2p None (Some (env_verification E)) None, r)
      | P2pExitFirst n r \<Rightarrow>
          (cleanup_startup (map_option (release_task n) p2p) None (Some (env_verification E)) None,
           Inl (into_error n r))
      | VerificationExitFirst r \<Rightarrow>
          (cleanup_startup p2p None None None, Inl (into_error VERIFICATION_TASK r)))"

section \<open>The run\<close>

text \<open>Serving: the two RPC servers, the first exit, and its handling.\<close>

definition app_serve :: "app_env \<Rightarrow> config \<Rightarrow> p2p_handle option \<Rightarrow> task option \<Rightarrow> life_action list \<times> unit res" where
  "app_serve E cfg p2p listener =
     (let worker = Some (env_verification E); held = map_option Some listener in
      case start_if (rpc_enabled (cfg_rpc cfg)) (rpc_start E cfg) of
        (a1, Inl e) \<Rightarrow> (a1 @ cleanup_startup p2p held worker None, Inl e)
      | (a1, Inr rpc) \<Rightarrow>
          (case start_if (submission_enabled (cfg_submission cfg)) (submission_start E cfg) of
             (a2, Inl e) \<Rightarrow> (a1 @ a2 @ cleanup_startup p2p held worker rpc, Inl e)
           | (a2, Inr submission) \<Rightarrow>
               let c = \<lparr>c_p2p = p2p, c_listener = held, c_verification = worker, c_rpc = rpc,
                     c_submission = submission\<rparr>;
                   (a3, c1) = wait_for_app_exit (env_exit E) c;
                   (_, a4, r) = handle_app_exit (env_exit E) c1 (shutdown_timeout (cfg_runtime cfg)) (env_exit_at E) in
               (a1 @ a2 @ a3 @ a4, r)))"

text \<open>From the spawn of the verification worker on.\<close>

definition app_started :: "app_env \<Rightarrow> config \<Rightarrow> p2p_handle option \<Rightarrow> life_action list \<times> unit res" where
  "app_started E cfg p2p =
     (let after = (\<lambda>a (acts, r). (Spawned VERIFICATION_TASK # a @ acts, r)) in
      case start_listener E cfg of
        (a, Inl e) \<Rightarrow> after a (cleanup_startup p2p None (Some (env_verification E)) None, Inl e)
      | (a, Inr (StartupInterrupted what)) \<Rightarrow> after a (interrupted_startup E p2p what)
      | (a, Inr Disabled) \<Rightarrow> after a (app_serve E cfg p2p None)
      | (a, Inr (Started t)) \<Rightarrow> after a (app_serve E cfg p2p (Some t)))"

definition app_bound :: "'x externs_scheme \<Rightarrow> app_env \<Rightarrow> config \<Rightarrow> life_action list \<times> unit res" where
  "app_bound X E cfg =
     (case bind_res (store_new (cfg_proof_store cfg)) (\<lambda>_.
           bind_res (app_registry E cfg) (\<lambda>_.
             if submission_enabled (cfg_submission cfg)
             then bind_res (pulsar_client_new (env_http E) (cfg_chain cfg)) (\<lambda>_. Inr ()) else Inr ())) of
        Inl e \<Rightarrow> ([], Inl e)
      | Inr _ \<Rightarrow>
          (case start_if (p2p_enabled (cfg_p2p cfg)) (p2p_start X E cfg) of
             (a, Inl e) \<Rightarrow> (a, Inl e)
           | (a, Inr p2p) \<Rightarrow> (case app_started E cfg p2p of (acts, r) \<Rightarrow> (a @ acts, r))))"

text \<open>The control socket is bound first and dropped last.\<close>

definition app_run :: "'x externs_scheme \<Rightarrow> app_env \<Rightarrow> config \<Rightarrow> life_action list \<times> unit res" where
  "app_run X E cfg =
     (let path = control_socket (cfg_runtime cfg) in
      case control_bind (env_fs E) path of
        (fs, Inl e) \<Rightarrow> (map ControlSocket fs, Inl e)
      | (fs, Inr _) \<Rightarrow>
          (case app_bound X E cfg of
             (acts, r) \<Rightarrow> (map ControlSocket fs @ acts @ map ControlSocket (control_drop path), r)))"

section \<open>Shutdown under one deadline\<close>

fun spawned_by :: "life_action \<Rightarrow> string list" where
  "spawned_by (Spawned n) = [n]"
| "spawned_by _ = []"

definition spawned :: "life_action list \<Rightarrow> string list" where
  "spawned acts = concat (map spawned_by acts)"

lemma spawned_simps [simp]: "spawned [] = []" "spawned (a # acts) = spawned_by a @ spawned acts"
  "spawned (acts @ acts') = spawned acts @ spawned acts'" "spawned (map Aborted ns) = []" "spawned (map ControlSocket fs) = []"
  by (simp_all add: spawned_def)

lemma spawned_abort [simp]: "spawned (abort_task n t) = []" "spawned (abort_and_join acts h) = []"
  by (cases t) (simp_all add: abort_task_def abort_and_join_def)

lemma ended_control [simp]: "ended (map ControlSocket fs) = []"
  by (induction fs) simp_all

text \<open>The tasks whose handles are held, and the components between startup and the first exit.\<close>

definition handle_tasks :: "string \<Rightarrow> task option option \<Rightarrow> string multiset" where
  "handle_tasks n h = (case h of Some (Some _) \<Rightarrow> {#n#} | _ \<Rightarrow> {#})"

definition p2p_tasks :: "p2p_handle option \<Rightarrow> string multiset" where
  "p2p_tasks h = (case h of None \<Rightarrow> {#} | Some p \<Rightarrow> mset (p2p_held p))"

definition held_tasks :: "components \<Rightarrow> string multiset" where
  "held_tasks c =
     handle_tasks SUBMISSION_RPC_TASK (c_submission c) + handle_tasks LISTENER_TASK (c_listener c) +
     p2p_tasks (c_p2p c) + handle_tasks VERIFICATION_TASK (Some (c_verification c)) + handle_tasks RPC_TASK (c_rpc c)"

definition running :: "components \<Rightarrow> bool" where
  "running c \<longleftrightarrow>
     c_submission c \<noteq> Some None \<and> c_listener c \<noteq> Some None \<and> c_rpc c \<noteq> Some None \<and> c_verification c \<noteq> None
     \<and> (\<forall>h. c_p2p c = Some h \<longrightarrow> p2p_held h = [WORKER_TASK, DRIVER_TASK])"

definition stop_rank :: "string \<Rightarrow> nat" where
  "stop_rank n =
     (if n = SUBMISSION_RPC_TASK then 0 else if n = LISTENER_TASK then 1
      else if n = WORKER_TASK \<or> n = DRIVER_TASK then 2 else if n = VERIFICATION_TASK then 3 else 4)"

lemma stop_rank_tasks [simp]:
  "stop_rank SUBMISSION_RPC_TASK = 0" "stop_rank LISTENER_TASK = 1" "stop_rank WORKER_TASK = 2"
  "stop_rank DRIVER_TASK = 2" "stop_rank VERIFICATION_TASK = 3" "stop_rank RPC_TASK = 4"
  by (simp_all add: stop_rank_def task_names)

text \<open>
  \<open>stops D N f\<close>: up to the deadline \<open>D\<close>, \<open>f\<close> ends the tasks \<open>N\<close> by then, and succeeds only without
  aborting. \<open>shutdown_ok\<close> is the state after the components up to rank \<open>k\<close>.
\<close>

definition stops :: "instant \<Rightarrow> string multiset \<Rightarrow> (instant \<Rightarrow> timed_result) \<Rightarrow> bool" where
  "stops D N f \<longleftrightarrow>
     (\<forall>now t a r. now \<le> D \<longrightarrow> f now = (t, a, r) \<longrightarrow>
        t \<le> D \<and> mset (ended a) = N \<and> spawned a = [] \<and> (r = Inr () \<longrightarrow> (\<forall>n. Aborted n \<notin> set a)))"

fun shutdown_ok :: "instant \<Rightarrow> nat \<Rightarrow> string multiset \<Rightarrow> error option \<Rightarrow> shutdown_state \<Rightarrow> bool" where
  "shutdown_ok D k M request (now, acts, first) \<longleftrightarrow>
     now \<le> D \<and> mset (ended acts) = M \<and> spawned acts = [] \<and> sorted (map stop_rank (ended acts))
     \<and> (\<forall>n \<in># M. stop_rank n \<le> k) \<and> (first = None \<longrightarrow> (\<forall>n. Aborted n \<notin> set acts))
     \<and> (request \<noteq> None \<longrightarrow> first = request)"

lemma stop_next_ok:
  assumes s: "shutdown_ok D k M request s" and f: "case f of None \<Rightarrow> N = {#} | Some stop \<Rightarrow> stops D N stop"
    and rank: "\<forall>n \<in># N. stop_rank n = k'" "k \<le> k'"
  shows "shutdown_ok D k' (M + N) request (stop_next f s)"
proof (cases f)
  case None
  then show ?thesis using assms by (cases s) (auto simp: stop_next_def intro: order_trans)
next
  case (Some stop)
  obtain now acts first where [simp]: "s = (now, acts, first)" by (cases s)
  obtain t a r where r: "stop now = (t, a, r)" by (cases "stop now")
  have st: "t \<le> D" "mset (ended a) = N" "spawned a = []" "r = Inr () \<longrightarrow> (\<forall>n. Aborted n \<notin> set a)"
    using f s r by (auto simp: Some stops_def)
  have sets: "set (ended a) = set_mset N" "set (ended acts) = set_mset M" using st(2) s by auto
  have "map stop_rank (ended a) = map (\<lambda>_. k') (ended a)" using rank(1) sets(1) by (intro map_cong) auto
  then have "sorted (map stop_rank (ended a))" by (simp add: map_replicate_const)
  then have "sorted (map stop_rank (ended (acts @ a)))"
    using s rank sets by (auto simp: sorted_append)
  moreover have "\<forall>n \<in># M + N. stop_rank n \<le> k'" using s rank by (auto intro: order_trans)
  ultimately show ?thesis
    using s st by (auto simp: Some stop_next_def r preserve_first_error_def split: sum.splits option.splits)
qed

text \<open>
  The contract of a component that can be stopped: given some time, it ends its tasks within it.
  The deadline of the application then bounds it.
\<close>

locale stoppable =
  fixes stop :: "duration \<Rightarrow> instant \<Rightarrow> timed_result"
    and tasks :: "string multiset"
  assumes in_time: "stop limit now = (t, a, r) \<Longrightarrow> t \<le> now + limit"
    and ends_tasks: "stop limit now = (t, a, r) \<Longrightarrow> mset (ended a) = tasks"
    and spawns_none: "stop limit now = (t, a, r) \<Longrightarrow> spawned a = []"
    and success_joins: "stop limit now = (t, a, Inr ()) \<Longrightarrow> Aborted n \<notin> set a"
begin

lemma by_deadline: "stops D tasks (within_deadline stop forced D limit)"
  unfolding stops_def
proof (intro allI impI)
  fix now t a r
  assume now: "now \<le> D" and r: "within_deadline stop forced D limit now = (t, a, r)"
  obtain t' a' r' where f: "stop (D - now) now = (t', a', r')" by (cases "stop (D - now) now")
  have "t = t'" "a = a'" "r = Inr () \<longrightarrow> r' = Inr ()"
    using r now by (auto simp: within_deadline_def f split: sum.splits error.splits)
  then show "t \<le> D \<and> mset (ended a) = tasks \<and> spawned a = [] \<and> (r = Inr () \<longrightarrow> (\<forall>n. Aborted n \<notin> set a))"
    using in_time [OF f] ends_tasks [OF f] spawns_none [OF f] success_joins f now by auto
qed

end

interpretation handle: stoppable "shutdown_task n (Some f)" "{#n#}" for n f
  by unfold_locales (auto simp: shutdown_task_def abort_task_def split: option.splits if_splits)

lemma spawned_shutdown_service: "shutdown_service h limit now = (t, a, r) \<Longrightarrow> spawned a = []"
proof -
  have *: "spawned (map snd (filter P (fst (shutdown_ordered h)))) = []" for P
    by (auto simp: shutdown_ordered_def wait_for_worker_shutdown_def join_driver_def Let_def
        split: drain_phase.splits worker_phase.splits option.splits sum.splits)
  show "shutdown_service h limit now = (t, a, r) \<Longrightarrow> spawned a = []"
    using * [of "\<lambda>(t, a). t \<le> limit"] * [of "\<lambda>_. True"]
    by (auto simp: shutdown_service_def Let_def split: prod.splits option.splits if_splits sum.splits)
qed

interpretation service: stoppable "shutdown_service (h\<lparr>p2p_held := [WORKER_TASK, DRIVER_TASK]\<rparr>)" "{#WORKER_TASK, DRIVER_TASK#}" for h
  by unfold_locales (use shutdown_service_ends spawned_shutdown_service in \<open>force+\<close>)

lemma shutdown_handle_stops: "stops D {#n#} (shutdown_handle n (Some f) D limit)"
  unfolding shutdown_handle_def by (rule handle.by_deadline)

lemma shutdown_p2p_stops:
  assumes "p2p_held h = [WORKER_TASK, DRIVER_TASK]"
  shows "stops D {#WORKER_TASK, DRIVER_TASK#} (shutdown_p2p h D limit)"
proof -
  have "h\<lparr>p2p_held := [WORKER_TASK, DRIVER_TASK]\<rparr> = h" using assms by (cases h) simp
  with service.by_deadline [of D h "abort_and_join [] h" limit] show ?thesis by (simp add: shutdown_p2p_def)
qed

lemma shutdown_verification_stops: "stops D {#VERIFICATION_TASK#} (shutdown_verification (Some f) D limit)"
  by (auto simp: stops_def shutdown_verification_def Let_def abort_task_def split: option.splits if_splits)


lemma handle_stop:
  "h \<noteq> Some None \<Longrightarrow>
   case map_option (\<lambda>t. shutdown_handle n t D limit) h of
     None \<Rightarrow> handle_tasks n h = {#} | Some stop \<Rightarrow> stops D (handle_tasks n h) stop"
  by (auto simp: handle_tasks_def shutdown_handle_stops split: option.splits)

lemma p2p_stop:
  "\<forall>p. h = Some p \<longrightarrow> p2p_held p = [WORKER_TASK, DRIVER_TASK] \<Longrightarrow>
   case map_option (\<lambda>p. shutdown_p2p p D limit) h of
     None \<Rightarrow> p2p_tasks h = {#} | Some stop \<Rightarrow> stops D (p2p_tasks h) stop"
  by (auto simp: p2p_tasks_def shutdown_p2p_stops split: option.splits)

lemma handle_rank: "\<forall>m \<in># handle_tasks n h. stop_rank m = stop_rank n"
  by (auto simp: handle_tasks_def split: option.splits)

lemma p2p_rank: "\<forall>p. h = Some p \<longrightarrow> p2p_held p = [WORKER_TASK, DRIVER_TASK] \<Longrightarrow> \<forall>m \<in># p2p_tasks h. stop_rank m = 2"
  by (auto simp: p2p_tasks_def split: option.splits)

lemma shutdown_requested_ends:
  assumes c: "running c" and run: "shutdown_requested request c limit now = (t, acts, r)"
  shows "t \<le> now + limit \<and> mset (ended acts) = held_tasks c \<and> spawned acts = [] \<and> sorted (map stop_rank (ended acts))
    \<and> (r = Inr () \<longrightarrow> request = Inr () \<and> (\<forall>n. Aborted n \<notin> set acts)) \<and> (\<forall>e. request = Inl e \<longrightarrow> r = Inl e)"
proof -
  let ?D = "now + limit" and ?q = "preserve_first_error None request"
  let ?h = "\<lambda>n h. map_option (\<lambda>t. shutdown_handle n t ?D limit) h"
  define s0 :: shutdown_state where
    "s0 = (now, mark_not_serving RPC_TASK (c_rpc c) @ mark_not_serving SUBMISSION_RPC_TASK (c_submission c), ?q)"
  define s1 where "s1 = stop_next (?h SUBMISSION_RPC_TASK (c_submission c)) s0"
  define s2 where "s2 = stop_next (?h LISTENER_TASK (c_listener c)) s1"
  define s3 where "s3 = stop_next (map_option (\<lambda>h. shutdown_p2p h ?D limit) (c_p2p c)) s2"
  define s4 where "s4 = stop_next (Some (shutdown_verification (c_verification c) ?D limit)) s3"
  define s5 where "s5 = stop_next (?h RPC_TASK (c_rpc c)) s4"
  note cs = c [unfolded running_def]
  have v: "stops ?D (handle_tasks VERIFICATION_TASK (Some (c_verification c)))
      (shutdown_verification (c_verification c) ?D limit)"
    using cs by (auto simp: handle_tasks_def shutdown_verification_stops)
  have "shutdown_ok ?D 0 {#} ?q s0"
    by (auto simp: s0_def mark_not_serving_def preserve_first_error_def split: option.splits sum.splits)
  then have "shutdown_ok ?D 0 ({#} + handle_tasks SUBMISSION_RPC_TASK (c_submission c)) ?q s1"
    unfolding s1_def using cs handle_stop handle_rank [of SUBMISSION_RPC_TASK] by (intro stop_next_ok) auto
  then have "shutdown_ok ?D 1 ({#} + handle_tasks SUBMISSION_RPC_TASK (c_submission c) +
      handle_tasks LISTENER_TASK (c_listener c)) ?q s2"
    unfolding s2_def using cs handle_stop handle_rank [of LISTENER_TASK] by (intro stop_next_ok) auto
  then have "shutdown_ok ?D 2 ({#} + handle_tasks SUBMISSION_RPC_TASK (c_submission c) +
      handle_tasks LISTENER_TASK (c_listener c) + p2p_tasks (c_p2p c)) ?q s3"
    unfolding s3_def using cs p2p_stop p2p_rank by (intro stop_next_ok) auto
  then have "shutdown_ok ?D 3 ({#} + handle_tasks SUBMISSION_RPC_TASK (c_submission c) +
      handle_tasks LISTENER_TASK (c_listener c) + p2p_tasks (c_p2p c) +
      handle_tasks VERIFICATION_TASK (Some (c_verification c))) ?q s4"
    unfolding s4_def using v handle_rank [of VERIFICATION_TASK] by (intro stop_next_ok) auto
  then have "shutdown_ok ?D 4 ({#} + handle_tasks SUBMISSION_RPC_TASK (c_submission c) +
      handle_tasks LISTENER_TASK (c_listener c) + p2p_tasks (c_p2p c) +
      handle_tasks VERIFICATION_TASK (Some (c_verification c)) + handle_tasks RPC_TASK (c_rpc c)) ?q s5"
    unfolding s5_def using cs handle_stop handle_rank [of RPC_TASK] by (intro stop_next_ok) auto
  moreover obtain first where "s5 = (t, acts, first)" "r = (case first of None \<Rightarrow> Inr () | Some e \<Rightarrow> Inl e)"
    using run by (auto simp: shutdown_requested_def Let_def s5_def s4_def s3_def s2_def s1_def s0_def split: prod.splits)
  ultimately show ?thesis
    by (auto simp: held_tasks_def preserve_first_error_def split: option.splits sum.splits)
qed


section \<open>No task outlives the application\<close>

lemma handle_tasks_simps [simp]:
  "handle_tasks n None = {#}" "handle_tasks n (Some None) = {#}" "handle_tasks n (Some (Some f)) = {#n#}"
  by (simp_all add: handle_tasks_def)

lemma force_handle_ends [simp]: "mset (ended (force_handle n h)) = handle_tasks n h" "spawned (force_handle n h) = []"
  by (auto simp: force_handle_def handle_tasks_def split: option.splits)

lemma force_p2p_ends [simp]: "mset (ended (force_p2p h)) = p2p_tasks h" "spawned (force_p2p h) = []"
  by (auto simp: force_p2p_def p2p_tasks_def abort_and_join_def split: option.splits)

lemma abort_task_ends [simp]: "mset (ended (abort_task n t)) = handle_tasks n (Some t)"
  by (auto simp: handle_tasks_def split: option.splits)

lemma force_shutdown_ends [simp]:
  "mset (ended (force_shutdown_components c)) = held_tasks c" "spawned (force_shutdown_components c) = []"
  by (simp_all add: force_shutdown_components_def held_tasks_def del: ended_abort_task)

lemma cleanup_startup_ends [simp]:
  "mset (ended (cleanup_startup p2p listener worker rpc)) =
     p2p_tasks p2p + handle_tasks LISTENER_TASK listener + handle_tasks VERIFICATION_TASK (Some worker) + handle_tasks RPC_TASK rpc"
  "spawned (cleanup_startup p2p listener worker rpc) = []"
  by (simp_all add: cleanup_startup_def del: ended_abort_task)

lemma release_task_ends:
  "n \<in> {WORKER_TASK, DRIVER_TASK} \<Longrightarrow>
   p2p_tasks (Some (p2p_service E)) = add_mset n (p2p_tasks (Some (release_task n (p2p_service E))))"
  by (auto simp: p2p_tasks_def release_task_def p2p_service_def)

text \<open>A component exits only when it was started: the waits of the other ones are pending forever.\<close>

fun exit_possible :: "config \<Rightarrow> app_exit \<Rightarrow> bool" where
  "exit_possible cfg (Requested _) = True"
| "exit_possible cfg (P2pTaskExit n _) = (p2p_enabled (cfg_p2p cfg) \<and> n \<in> {WORKER_TASK, DRIVER_TASK})"
| "exit_possible cfg (ListenerTaskExit _) = listener_enabled (cfg_listener cfg)"
| "exit_possible cfg (VerificationTaskExit _) = True"
| "exit_possible cfg (RpcTaskExit _) = rpc_enabled (cfg_rpc cfg)"
| "exit_possible cfg (SubmissionRpcTaskExit _) = submission_enabled (cfg_submission cfg)"

fun race_possible :: "config \<Rightarrow> startup_race \<Rightarrow> bool" where
  "race_possible cfg (Interrupted _ (P2pExitFirst n _)) = (p2p_enabled (cfg_p2p cfg) \<and> n \<in> {WORKER_TASK, DRIVER_TASK})"
| "race_possible cfg _ = True"

text \<open>What startup has when it begins to serve, and the components then.\<close>

definition p2p_of :: "app_env \<Rightarrow> config \<Rightarrow> p2p_handle option" where
  "p2p_of E cfg = (if p2p_enabled (cfg_p2p cfg) then Some (p2p_service E) else None)"

definition serving :: "app_env \<Rightarrow> config \<Rightarrow> components" where
  "serving E cfg =
     \<lparr>c_p2p = p2p_of E cfg,
      c_listener = (if listener_enabled (cfg_listener cfg) then Some (Some (env_listener E)) else None),
      c_verification = Some (env_verification E),
      c_rpc = (if rpc_enabled (cfg_rpc cfg) then Some (Some (env_rpc E)) else None),
      c_submission = (if submission_enabled (cfg_submission cfg) then Some (Some (env_submission E)) else None)\<rparr>"

lemma serving_running: "running (serving E cfg)"
  by (simp add: running_def serving_def p2p_of_def p2p_service_def)

lemma exit_ends:
  assumes "exit_possible cfg exit" "wait_for_app_exit exit (serving E cfg) = (a, c)" "handle_app_exit exit c limit now = (t, a', r)"
  shows "mset (ended (a @ a')) = held_tasks (serving E cfg) \<and> spawned (a @ a') = [] \<and> (r = Inr () \<longrightarrow> exit = Requested (Inr ()))"
proof (cases exit)
  case (Requested q)
  then show ?thesis using assms shutdown_requested_ends [OF serving_running] by (auto simp: wait_for_app_exit_def handle_app_exit_def)
next
  case (P2pTaskExit n j)
  then show ?thesis using assms release_task_ends [of n E]
    by (auto simp: wait_for_app_exit_def handle_app_exit_def held_tasks_def serving_def p2p_of_def)
qed (use assms in \<open>auto simp: wait_for_app_exit_def handle_app_exit_def held_tasks_def serving_def handle_tasks_def\<close>)

lemma start_rpc:
  assumes "start_if (rpc_enabled (cfg_rpc cfg)) (rpc_start E cfg) = (a, r)"
  shows "case r of Inl _ \<Rightarrow> a = []
    | Inr rpc \<Rightarrow> rpc = c_rpc (serving E cfg) \<and> ended a = [] \<and> mset (spawned a) = handle_tasks RPC_TASK rpc"
  using assms by (auto simp: start_if_def rpc_start_def serving_def handle_tasks_def split: if_splits sum.splits)

lemma start_submission:
  assumes "start_if (submission_enabled (cfg_submission cfg)) (submission_start E cfg) = (a, r)"
  shows "case r of Inl _ \<Rightarrow> a = []
    | Inr s \<Rightarrow> s = c_submission (serving E cfg) \<and> ended a = [] \<and> mset (spawned a) = handle_tasks SUBMISSION_RPC_TASK s"
  using assms by (auto simp: start_if_def submission_start_def serving_def handle_tasks_def split: if_splits sum.splits)

lemma app_serve_ends:
  assumes possible: "exit_possible cfg (env_exit E)" and l: "map_option Some listener = c_listener (serving E cfg)"
    and run: "app_serve E cfg (p2p_of E cfg) listener = (acts, r)"
  shows "mset (ended acts) = mset (spawned acts) + p2p_tasks (p2p_of E cfg) +
      handle_tasks LISTENER_TASK (map_option Some listener) + {#VERIFICATION_TASK#}
    \<and> subseq (spawned acts) [RPC_TASK, SUBMISSION_RPC_TASK] \<and> (r = Inr () \<longrightarrow> env_exit E = Requested (Inr ()))"
proof -
  obtain a1 r1 where rpc: "start_if (rpc_enabled (cfg_rpc cfg)) (rpc_start E cfg) = (a1, r1)" by fastforce
  obtain a2 r2 where sub: "start_if (submission_enabled (cfg_submission cfg)) (submission_start E cfg) = (a2, r2)" by fastforce
  note s = start_rpc [OF rpc] start_submission [OF sub]
  have a: "subseq (spawned a1) [RPC_TASK]" "subseq (spawned a2) [SUBMISSION_RPC_TASK]"
    using rpc sub by (auto simp: start_if_def rpc_start_def submission_start_def split: if_splits sum.splits)
  have a12: "subseq (spawned (a1 @ a2)) [RPC_TASK, SUBMISSION_RPC_TASK]" "subseq (spawned a1) [RPC_TASK, SUBMISSION_RPC_TASK]"
    using list_emb_append_mono [OF a] list_emb_append_mono [OF a(1) list_emb_Nil, of "[SUBMISSION_RPC_TASK]"] by simp_all
  show ?thesis
  proof (cases r1; cases r2)
    fix x1 x2
    assume [simp]: "r1 = Inr x1" "r2 = Inr x2"
    have c: "\<lparr>c_p2p = p2p_of E cfg, c_listener = map_option Some listener, c_verification = Some (env_verification E), c_rpc = x1,
        c_submission = x2\<rparr> = serving E cfg"
      using s l by (simp add: serving_def)
    obtain a3 c1 t a4 where e: "wait_for_app_exit (env_exit E) (serving E cfg) = (a3, c1)"
      "handle_app_exit (env_exit E) c1 (shutdown_timeout (cfg_runtime cfg)) (env_exit_at E) = (t, a4, r)" "acts = a1 @ a2 @ a3 @ a4"
      using run by (auto simp: app_serve_def rpc sub c Let_def split: prod.splits)
    then show ?thesis using exit_ends [OF possible e(1,2)] s l a12 by (auto simp: held_tasks_def serving_def)
  qed (use s run a12 in \<open>auto simp: app_serve_def rpc sub\<close>)
qed

lemma p2p_start_ends:
  assumes "start_if (p2p_enabled (cfg_p2p cfg)) (p2p_start X E cfg) = (a, r)"
  shows "subseq (spawned a) [DRIVER_TASK, WORKER_TASK] \<and>
    (case r of Inl _ \<Rightarrow> mset (ended a) = mset (spawned a)
     | Inr p2p \<Rightarrow> p2p = p2p_of E cfg \<and> ended a = [] \<and> mset (spawned a) = p2p_tasks p2p)"
  using assms
  by (auto simp: start_if_def p2p_start_def p2p_of_def p2p_tasks_def abort_and_join_def p2p_service_def Let_def
      split: if_splits sum.splits option.splits)

text \<open>After the start of the listener, \<open>listener_after\<close> is the handle that is held.\<close>

fun listener_after :: "listener_startup \<Rightarrow> task option option" where
  "listener_after (Started t) = Some (Some t)"
| "listener_after _ = None"

lemma interrupt_action_spawned [simp]: "spawned (interrupt_action w) = []"
  by (cases w) simp_all

lemma start_listener_ends:
  assumes "start_listener E cfg = (a, r)"
  shows "subseq (spawned a) [LISTENER_TASK] \<and>
    (case r of
       Inl _ \<Rightarrow> mset (ended a) = mset (spawned a)
     | Inr (StartupInterrupted w) \<Rightarrow>
         mset (ended a) = mset (spawned a) + mset (ended (interrupt_action w)) \<and> env_race E \<in> range (\<lambda>b. Interrupted b w)
     | Inr l \<Rightarrow> c_listener (serving E cfg) = listener_after l \<and> ended a = []
         \<and> mset (spawned a) = handle_tasks LISTENER_TASK (listener_after l))"
  using assms
  by (auto simp: start_listener_def listener_start_def serving_def bind_res_def Let_def
      split: if_splits sum.splits option.splits startup_race.splits interruption.splits)

lemma interrupted_startup_ends:
  assumes "interrupted_startup E (p2p_of E cfg) w = (a, r)" "race_possible cfg (Interrupted b w)"
  shows "mset (ended (interrupt_action w @ a)) = p2p_tasks (p2p_of E cfg) + {#VERIFICATION_TASK#} \<and> spawned a = []"
proof (cases w)
  case (P2pExitFirst n j)
  then show ?thesis using assms release_task_ends [of n E] by (auto simp: interrupted_startup_def p2p_of_def)
qed (use assms in \<open>auto simp: interrupted_startup_def\<close>)

text \<open>A stop was asked for: as the first exit, or during startup.\<close>

definition stop_asked :: "app_env \<Rightarrow> bool" where
  "stop_asked E \<longleftrightarrow> env_exit E = Requested (Inr ()) \<or> env_race E \<in> range (\<lambda>b. Interrupted b (ShutdownFirst (Inr ())))"

lemma app_started_ends:
  assumes possible: "exit_possible cfg (env_exit E)" "race_possible cfg (env_race E)"
    and run: "app_started E cfg (p2p_of E cfg) = (acts, r)"
  shows "mset (ended acts) = mset (spawned acts) + p2p_tasks (p2p_of E cfg)
    \<and> subseq (spawned acts) [VERIFICATION_TASK, LISTENER_TASK, RPC_TASK, SUBMISSION_RPC_TASK] \<and> (r = Inr () \<longrightarrow> stop_asked E)"
proof -
  obtain a l where l: "start_listener E cfg = (a, l)" by fastforce
  note ends = start_listener_ends [OF l]
  have order: "subseq (VERIFICATION_TASK # spawned a @ b) [VERIFICATION_TASK, LISTENER_TASK, RPC_TASK, SUBMISSION_RPC_TASK]"
    if "subseq b [RPC_TASK, SUBMISSION_RPC_TASK]" for b
    using list_emb_append_mono [OF ends [THEN conjunct1] that] by simp
  note order' = order [of "[]", simplified]
  consider e where "l = Inl e" | t where "l = Inr (Started t)" | "l = Inr Disabled" | w where "l = Inr (StartupInterrupted w)"
    by (metis sum.exhaust listener_startup.exhaust)
  then show ?thesis
  proof cases
    case 1
    then show ?thesis using run ends order' by (auto simp: app_started_def l)
  next
    case (2 t)
    then obtain b where b: "app_serve E cfg (p2p_of E cfg) (Some t) = (b, r)" "acts = Spawned VERIFICATION_TASK # a @ b"
      using run by (auto simp: app_started_def l split: prod.splits)
    then show ?thesis using app_serve_ends [OF possible(1) _ b(1)] ends 2 order by (auto simp: stop_asked_def)
  next
    case 3
    then obtain b where b: "app_serve E cfg (p2p_of E cfg) None = (b, r)" "acts = Spawned VERIFICATION_TASK # a @ b"
      using run by (auto simp: app_started_def l split: prod.splits)
    then show ?thesis using app_serve_ends [OF possible(1) _ b(1)] ends 3 order by (auto simp: stop_asked_def)
  next
    case (4 w)
    then obtain b where b: "interrupted_startup E (p2p_of E cfg) w = (b, r)" "acts = Spawned VERIFICATION_TASK # a @ b"
      using run by (auto simp: app_started_def l split: prod.splits)
    have "race_possible cfg (Interrupted True w)" using ends 4 possible(2) by (cases w) auto
    moreover have "r = Inr () \<longrightarrow> stop_asked E"
      using b(1) ends 4 by (auto simp: interrupted_startup_def stop_asked_def split: interruption.splits)
    ultimately show ?thesis using interrupted_startup_ends [OF b(1)] ends 4 b(2) order' by auto
  qed
qed

lemma app_bound_ends:
  assumes possible: "exit_possible cfg (env_exit E)" "race_possible cfg (env_race E)" and run: "app_bound X E cfg = (acts, r)"
  shows "mset (ended acts) = mset (spawned acts)
    \<and> subseq (spawned acts) [DRIVER_TASK, WORKER_TASK, VERIFICATION_TASK, LISTENER_TASK, RPC_TASK, SUBMISSION_RPC_TASK]
    \<and> (r = Inr () \<longrightarrow> stop_asked E)"
proof -
  obtain a p where p: "start_if (p2p_enabled (cfg_p2p cfg)) (p2p_start X E cfg) = (a, p)" by fastforce
  obtain b r' where b: "app_started E cfg (p2p_of E cfg) = (b, r')" by fastforce
  note ends = p2p_start_ends [OF p] app_started_ends [OF possible b]
  have "subseq (spawned a @ c) [DRIVER_TASK, WORKER_TASK, VERIFICATION_TASK, LISTENER_TASK, RPC_TASK, SUBMISSION_RPC_TASK]"
    if "subseq c [VERIFICATION_TASK, LISTENER_TASK, RPC_TASK, SUBMISSION_RPC_TASK]" for c
    using list_emb_append_mono [OF ends(1) [THEN conjunct1] that] by simp
  note this [of "[]", simplified] this [OF ends(2) [THEN conjunct2, THEN conjunct1]]
  then show ?thesis using run ends
    by (cases p) (auto simp: app_bound_def p b split: sum.splits prod.splits)
qed

text \<open>
  No task outlives the application and none ends twice, whichever start fails, whatever interrupts
  startup and whichever task exits first.
\<close>

lemma app_run_ends:
  assumes "exit_possible cfg (env_exit E)" "race_possible cfg (env_race E)" "app_run X E cfg = (acts, r)"
  shows "mset (ended acts) = mset (spawned acts)
    \<and> subseq (spawned acts) [DRIVER_TASK, WORKER_TASK, VERIFICATION_TASK, LISTENER_TASK, RPC_TASK, SUBMISSION_RPC_TASK]
    \<and> (is_ok (snd (control_bind (env_fs E) (control_socket (cfg_runtime cfg)))) \<longrightarrow>
         last acts = ControlSocket (RemoveFile (control_socket (cfg_runtime cfg))))
    \<and> (r = Inr () \<longrightarrow> stop_asked E)"
proof -
  obtain b r' where b: "app_bound X E cfg = (b, r')" by fastforce
  show ?thesis using assms(3) app_bound_ends [OF assms(1,2) b]
    by (auto simp: app_run_def b control_drop_def Let_def is_ok_def split: prod.splits sum.splits)
qed

definition quick :: "duration \<Rightarrow> task" where
  "quick d = \<lparr>stop_delay = Some d, stop_result = Inr (Inr ())\<rparr>"

definition demo_fs :: fs_env where
  "demo_fs = \<lparr>parent_of = \<lambda>_. Some ''/run/pulsar'', create_dir_all = \<lambda>_. Inr (),
     symlink_metadata = \<lambda>p. if p = ''/run/pulsar'' then Inr \<lparr>fs_is_dir = True, fs_is_socket = False, fs_uid = 7\<rparr>
       else Inl \<lparr>io_kind = NotFound, io_text = ''not found''\<rparr>,
     set_permissions = \<lambda>_ _. Inr (), unix_connect = \<lambda>_. ConnectTimeout, remove_file = \<lambda>_. Inr (),
     unix_bind = \<lambda>_. Inr (), effective_uid = 7\<rparr>"

definition demo_app_config :: config where
  "demo_app_config =
     \<lparr>cfg_runtime = \<lparr>control_socket = ''/run/pulsar/control.sock'', shutdown_timeout = from_secs 10\<rparr>,
      cfg_chain = \<lparr>chain_id = ''pulsar'', comet_rpc_url = ''http://node'', request_timeout = from_secs 5\<rparr>,
      cfg_listener = \<lparr>listener_enabled = False, reconnect_initial_backoff = 1, reconnect_max_backoff = 2\<rparr>,
      cfg_proof_store = demo_store_config, cfg_p2p = demo_p2p_config\<lparr>p2p_enabled := False\<rparr>,
      cfg_verification = \<lparr>max_concurrent_jobs = 1, job_timeout = from_secs 60, max_retries = 0, retry_backoff = 1\<rparr>,
      cfg_noir = \<lparr>noir_enabled = False, binary_path = ''/opt/bb'', home_directory = ''/var/bb'', threads_per_job = 1\<rparr>,
      cfg_rpc = \<lparr>rpc_enabled = True, rpc_listen_address = SocketAddr (IpV4 [127, 0, 0, 1]) 50051\<rparr>,
      cfg_submission = \<lparr>submission_enabled = False, submission_listen_address = SocketAddr (IpV4 [127, 0, 0, 1]) 50052,
        max_transaction_bytes = 3, max_concurrent_requests = 1\<rparr>\<rparr>"

text \<open>Only the verification server is enabled; the other parts of the environment are not asked.\<close>

definition demo_app_env :: "app_env \<Rightarrow> app_env" where
  "demo_app_env E = E\<lparr>env_fs := demo_fs, env_race := ListenerReady, env_verification := quick 1, env_rpc_bind := Inr (),
     env_rpc := quick 2, env_exit := Requested (Inr ()), env_exit_at := 0\<rparr>"

lemma demo_app_run:
  assumes "control_socket (cfg_runtime cfg) = ''/run/pulsar/control.sock''" "3 \<le> shutdown_timeout (cfg_runtime cfg)"
    and "is_ok (store_new (cfg_proof_store cfg))" "\<not> noir_enabled (cfg_noir cfg)" "\<not> p2p_enabled (cfg_p2p cfg)"
    and "\<not> listener_enabled (cfg_listener cfg)" "rpc_enabled (cfg_rpc cfg)" "\<not> submission_enabled (cfg_submission cfg)"
  shows "app_run X (demo_app_env E) cfg =
     (map ControlSocket [CreateDir ''/run/pulsar'', SetMode ''/run/pulsar'' 448, BindSocket ''/run/pulsar/control.sock'',
        SetMode ''/run/pulsar/control.sock'' 384] @
      [Spawned VERIFICATION_TASK, Spawned RPC_TASK, MarkedNotServing RPC_TASK, StopCancelled VERIFICATION_TASK,
       Joined VERIFICATION_TASK, StopCancelled RPC_TASK, Joined RPC_TASK,
       ControlSocket (RemoveFile ''/run/pulsar/control.sock'')], Inr ())"
proof -
  have "control_bind demo_fs ''/run/pulsar/control.sock'' =
     ([CreateDir ''/run/pulsar'', SetMode ''/run/pulsar'' 448, BindSocket ''/run/pulsar/control.sock'',
       SetMode ''/run/pulsar/control.sock'' 384], Inr ())"
    by (simp add: control_bind_def prepare_parent_directory_def prepare_socket_path_def demo_fs_def act_def control_io_def
        ensure_owned_by_current_user_def)
  moreover obtain s where "store_new (cfg_proof_store cfg) = Inr s"
    using assms(3) by (auto simp: is_ok_def split: sum.splits)
  ultimately show ?thesis using assms
    by (simp add: app_run_def app_bound_def app_started_def app_serve_def app_registry_def start_if_def rpc_start_def
        start_listener_def demo_app_env_def wait_for_app_exit_def handle_app_exit_def
        shutdown_requested_def stop_next_def shutdown_verification_def shutdown_handle_def within_deadline_def shutdown_task_def
        mark_not_serving_def preserve_first_error_def quick_def task_result_def control_drop_def Let_def)
qed

text \<open>
  C17. A requested shutdown ends all components within the configured time: from the running
  application, every held task is joined or aborted exactly once by the deadline, in the order
  submission server, listener, P2P, verification worker, verification server; the error of the
  request is preserved, and success means that nothing had to be aborted.
\<close>

theorem shutdown_within_timeout:
  assumes "running c" "shutdown_requested request c limit now = (t, acts, r)"
  shows "t \<le> now + limit \<and> mset (ended acts) = held_tasks c \<and> sorted (map stop_rank (ended acts))
    \<and> (r = Inr () \<longrightarrow> request = Inr () \<and> (\<forall>n. Aborted n \<notin> set acts)) \<and> (\<forall>e. request = Inl e \<longrightarrow> r = Inl e)"
  using shutdown_requested_ends [OF assms] by blast

definition demo_components :: components where
  "demo_components =
     \<lparr>c_p2p = Some \<lparr>p2p_held = [WORKER_TASK, DRIVER_TASK], drain_phase = DrainReplied 1 (Inr ()),
        worker_phase = WorkerEnds 2 (Inr (Inr ())), driver_ends = Some (0, Inr (Inr ()))\<rparr>,
      c_listener = Some (Some (quick 1)), c_verification = Some \<lparr>stop_delay = None, stop_result = Inl Cancelled\<rparr>,
      c_rpc = Some (Some (quick 1)), c_submission = None\<rparr>"

theorem shutdown_within_timeout_witness:
  "\<exists>acts. shutdown_requested (Inr ()) demo_components 10 5 = (15, acts, Inl (ShutdownTimeout 10)) \<and>
     ended acts = [LISTENER_TASK, WORKER_TASK, DRIVER_TASK, VERIFICATION_TASK, RPC_TASK] \<and>
     mset (ended acts) = held_tasks demo_components"
proof -
  have run: "\<exists>acts. shutdown_requested (Inr ()) demo_components 10 5 = (15, acts, Inl (ShutdownTimeout 10)) \<and>
     ended acts = [LISTENER_TASK, WORKER_TASK, DRIVER_TASK, VERIFICATION_TASK, RPC_TASK]"
    by (simp add: shutdown_requested_def demo_components_def stop_next_def shutdown_verification_def shutdown_handle_def
        shutdown_p2p_def within_deadline_def shutdown_task_def shutdown_service_def shutdown_ordered_def
        wait_for_worker_shutdown_def join_driver_def abort_task_def mark_not_serving_def preserve_first_error_def quick_def
        task_result_def Let_def)
  moreover have "running demo_components" by (simp add: running_def demo_components_def)
  ultimately show ?thesis using shutdown_within_timeout by blast
qed

end
