(* ===== verification/Process.thy ===== *)
theory Process
  imports App
begin

text \<open>
  The process: the commands of \<open>src/cli.rs\<close>, the logging set up by \<open>src/telemetry.rs\<close>, the dispatch
  of \<open>src/lib.rs\<close> and the exit code of \<open>src/main.rs\<close>. The reading of the arguments and the tracing
  subscriber are third-party code; the first is the command given, the second a parameter.
\<close>

definition DEFAULT_CONFIG_PATH :: path where "DEFAULT_CONFIG_PATH = ''config/default.toml''"

text \<open>The option \<open>--config\<close>, absent or with its value.\<close>

definition config_args :: "path option \<Rightarrow> path" where
  "config_args option = (case option of None \<Rightarrow> DEFAULT_CONFIG_PATH | Some p \<Rightarrow> p)"

datatype cli_command = Run path | Stop path

text \<open>\<open>EnvFilter::try_from_default_env\<close>, \<open>EnvFilter::new\<close> and the installation of the subscriber.\<close>

record 'f tracing_env =
  try_from_default_env :: "string + 'f"
  env_filter_new :: "string \<Rightarrow> 'f"
  subscriber_try_init :: "'f \<Rightarrow> string + unit"

definition telemetry_init :: "'f tracing_env \<Rightarrow> unit res" where
  "telemetry_init T =
     (let filter = (case try_from_default_env T of Inr f \<Rightarrow> f | Inl _ \<Rightarrow> env_filter_new T ''info'') in
      map_err Telemetry (subscriber_try_init T filter))"

text \<open>The other end of the control socket as the command \<open>stop\<close> meets it.\<close>

record stop_env =
  stop_connect :: connect_outcome
  stop_peer :: peer_stream
  stop_polls :: "(bool \<times> duration) list"

text \<open>\<open>None\<close>: the command \<open>stop\<close> still polls at the end of the given answers.\<close>

definition verifier_run ::
  "'x externs_scheme \<Rightarrow> config_externs \<Rightarrow> (path \<Rightarrow> io_error + string) \<Rightarrow> 'f tracing_env \<Rightarrow> app_env \<Rightarrow>
     stop_env \<Rightarrow> cli_command \<Rightarrow> life_action list \<times> unit res option" where
  "verifier_run X CE files T E S cmd =
     (case cmd of
        Run p \<Rightarrow>
          (case bind_res (from_file CE p (files p)) (\<lambda>cfg. bind_res (telemetry_init T) (\<lambda>_. Inr cfg)) of
             Inl e \<Rightarrow> ([], Some (Inl e))
           | Inr cfg \<Rightarrow> (case app_run X E cfg of (acts, r) \<Rightarrow> (acts, Some r)))
      | Stop p \<Rightarrow>
          (case from_file CE p (files p) of
             Inl e \<Rightarrow> ([], Some (Inl e))
           | Inr cfg \<Rightarrow> ([], request_shutdown (cfg_runtime cfg) (stop_connect S) (stop_peer S) (stop_polls S))))"

datatype exit_code = ExitSuccess | ExitFailure

text \<open>The exit code, and the error written to the standard error output.\<close>

definition process_main ::
  "'x externs_scheme \<Rightarrow> config_externs \<Rightarrow> (path \<Rightarrow> io_error + string) \<Rightarrow> 'f tracing_env \<Rightarrow> app_env \<Rightarrow>
     stop_env \<Rightarrow> cli_command \<Rightarrow> life_action list \<times> (exit_code \<times> error option) option" where
  "process_main X CE files T E S cmd =
     (case verifier_run X CE files T E S cmd of
        (acts, None) \<Rightarrow> (acts, None)
      | (acts, Some (Inr _)) \<Rightarrow> (acts, Some (ExitSuccess, None))
      | (acts, Some (Inl e)) \<Rightarrow> (acts, Some (ExitFailure, Some e)))"

section \<open>The end of the process\<close>

text \<open>
  C16. The process leaves nothing behind: in every run, whichever start fails, whatever interrupts
  startup and whichever task exits first, the tasks are spawned at most once and in the fixed
  order, and each spawned task is joined, aborted or seen to exit exactly once; once the control
  socket is bound, its removal is the last action. The process always exits; with success only
  when the configuration loaded, logging was installed and a stop was asked for, and otherwise with
  an error on its output.
\<close>

theorem process_ends_all_tasks:
  assumes "\<And>cfg. from_file CE p (files p) = Inr cfg \<Longrightarrow> exit_possible cfg (env_exit E) \<and> race_possible cfg (env_race E)"
    and "process_main X CE files T E S (Run p) = (acts, out)"
  shows "mset (ended acts) = mset (spawned acts)
    \<and> subseq (spawned acts) [DRIVER_TASK, WORKER_TASK, VERIFICATION_TASK, LISTENER_TASK, RPC_TASK, SUBMISSION_RPC_TASK]
    \<and> (\<forall>cfg. from_file CE p (files p) = Inr cfg \<and> is_ok (telemetry_init T)
           \<and> is_ok (snd (control_bind (env_fs E) (control_socket (cfg_runtime cfg)))) \<longrightarrow>
         last acts = ControlSocket (RemoveFile (control_socket (cfg_runtime cfg))))
    \<and> (out = Some (ExitSuccess, None) \<and> is_ok (from_file CE p (files p)) \<and> is_ok (telemetry_init T) \<and> stop_asked E
       \<or> (\<exists>e. out = Some (ExitFailure, Some e)))"
proof (cases "from_file CE p (files p)")
  case (Inl e)
  then show ?thesis using assms(2) by (auto simp: process_main_def verifier_run_def)
next
  case cfg: (Inr cfg)
  show ?thesis
  proof (cases "telemetry_init T")
    case (Inl e)
    then show ?thesis using assms(2) cfg by (auto simp: process_main_def verifier_run_def)
  next
    case (Inr u)
    obtain a r where run: "app_run X E cfg = (a, r)" by fastforce
    have "acts = a" "out = (case r of Inr _ \<Rightarrow> Some (ExitSuccess, None) | Inl e \<Rightarrow> Some (ExitFailure, Some e))"
      using assms(2) cfg Inr run by (auto simp: process_main_def verifier_run_def split: sum.splits)
    then show ?thesis
      using app_run_ends [OF _ _ run] assms(1) [OF cfg] cfg Inr by (cases r) auto
  qed
qed

definition demo_tracing :: "string tracing_env" where
  "demo_tracing = \<lparr>try_from_default_env = Inl ''environment variable not found'', env_filter_new = \<lambda>f. f,
     subscriber_try_init = \<lambda>_. Inr ()\<rparr>"

lemma process_config_loads:
  obtains cfg where "from_file demo_config_externs ''v.toml'' (Inr []) = Inr cfg"
    "control_socket (cfg_runtime cfg) = ''/run/pulsar/control.sock''" "3 \<le> shutdown_timeout (cfg_runtime cfg)"
    "is_ok (store_new (cfg_proof_store cfg))" "\<not> noir_enabled (cfg_noir cfg)" "\<not> p2p_enabled (cfg_p2p cfg)"
    "\<not> listener_enabled (cfg_listener cfg)" "rpc_enabled (cfg_rpc cfg)" "\<not> submission_enabled (cfg_submission cfg)"
proof -
  obtain ch p2 where parts: "validate_chain demo_config_externs file_chain_default False = Inr ch"
    "validate_p2p demo_config_externs file_p2p_default 8388608 [] = Inr p2"
    using demo_sections2 by (auto simp: is_ok_def split: sum.splits)
  have "chain_id ch = []" "\<not> p2p_enabled p2"
    using parts(1) validate_p2p_ok [OF parts(2)]
    by (auto simp: validate_chain_def file_chain_default_def file_p2p_default_def trim_def
        Let_def bind_res_Inr_iff)
  moreover obtain ver noir where "validate_verification file_verification_default = Inr (ver, noir)" "\<not> noir_enabled noir"
    by (simp add: validate_verification_def file_verification_default_def file_noir_default_def)
  moreover have "is_ok (store_new \<lparr>max_capacity_bytes = 536870912, config_max_proof_bytes = 8388608,
      terminal_retention = from_secs 900, store_event_buffer = 256\<rparr>)"
    by (simp add: store_new_def from_secs_def u32_try_from_def checked_add_u32_def checked_add_usize_def word_bounds
        METADATA_WEIGHT_BYTES_def FAILURE_CODE_MAX_BYTES_def FAILURE_MESSAGE_MAX_BYTES_def)
  ultimately show thesis
    using parts
    by (intro that) (auto simp: from_file_def demo_config_externs_def demo_file_def demo_sections
        is_absolute_def starts_with_def cross_checks_def file_p2p_default_def from_secs_def)
qed

theorem process_ends_all_tasks_witness:
  "\<exists>acts. process_main demo_store_externs demo_config_externs (\<lambda>_. Inr []) demo_tracing (demo_app_env undefined) undefined
       (Run ''v.toml'') = (acts, Some (ExitSuccess, None)) \<and>
     spawned acts = [VERIFICATION_TASK, RPC_TASK] \<and> mset (ended acts) = mset (spawned acts) \<and>
     last acts = ControlSocket (RemoveFile ''/run/pulsar/control.sock'')"
proof -
  let ?E = "demo_app_env undefined"
  obtain cfg0 where cfg: "from_file demo_config_externs ''v.toml'' (Inr []) = Inr cfg0"
    "control_socket (cfg_runtime cfg0) = ''/run/pulsar/control.sock''" "3 \<le> shutdown_timeout (cfg_runtime cfg0)"
    "is_ok (store_new (cfg_proof_store cfg0))" "\<not> noir_enabled (cfg_noir cfg0)" "\<not> p2p_enabled (cfg_p2p cfg0)"
    "\<not> listener_enabled (cfg_listener cfg0)" "rpc_enabled (cfg_rpc cfg0)" "\<not> submission_enabled (cfg_submission cfg0)"
    using process_config_loads .
  have tel: "telemetry_init demo_tracing = Inr ()" by (simp add: telemetry_init_def demo_tracing_def)
  have possible: "exit_possible c (env_exit ?E) \<and> race_possible c (env_race ?E)" for c
    by (simp add: demo_app_env_def)
  note run = demo_app_run [OF cfg(2-9), of demo_store_externs undefined]
  have main: "process_main demo_store_externs demo_config_externs (\<lambda>_. Inr []) demo_tracing ?E undefined (Run ''v.toml'') =
     (fst (app_run demo_store_externs ?E cfg0), Some (ExitSuccess, None))"
    using cfg(1) tel run by (simp add: process_main_def verifier_run_def)
  from process_ends_all_tasks [OF _ main] possible
  show ?thesis unfolding main by (simp add: run)
qed

end
