(* ===== verification/P2p_Channels.thy ===== *)
theory P2p_Channels
  imports Retrieval
begin

text \<open>
  The driver and the retrieval worker as two tasks joined by their bounded channels
  (\<open>mpsc::channel(config.command_buffer)\<close> and \<open>mpsc::channel(config.event_buffer)\<close> of
  \<open>src/p2p/driver.rs\<close>). A round of the driver first computes and then waits for room for its event;
  a turn of the worker waits for the reply of each command it sends. Both loops poll their channels
  only between rounds and turns.
\<close>

text \<open>
  \<open>n_outbox\<close> holds the events the current round of the driver still has to send. \<open>n_turn\<close> is the
  turn of the worker that runs: the commands it has still to send and the state it ends in, and
  \<open>n_calling\<close> the command whose reply it awaits. The replies a turn gets are those of its
  environment.
\<close>

record p2p_net =
  n_driver :: driver
  n_outbox :: "driver_event list"
  n_events :: "driver_event list"
  n_commands :: "(ticket \<times> driver_command) list"
  n_worker :: p2p_worker
  n_turn :: "(driver_command list \<times> p2p_worker) option"
  n_calling :: "ticket option"

fun emitted_by :: "driver_output \<Rightarrow> driver_event list" where
  "emitted_by (Event open_channel e) = (if open_channel then [e] else [])"
| "emitted_by _ = []"

definition emitted :: "driver_output list \<Rightarrow> driver_event list" where
  "emitted out = concat (map emitted_by out)"

definition answer_calls :: "driver_output list \<Rightarrow> ticket option \<Rightarrow> ticket option" where
  "answer_calls out c = (case c of None \<Rightarrow> None | Some t \<Rightarrow> if t \<in> set (replied out) then None else Some t)"

definition after_round :: "driver \<Rightarrow> driver_output list \<Rightarrow> p2p_net \<Rightarrow> p2p_net" where
  "after_round d out s =
     s\<lparr>n_driver := d, n_outbox := emitted out, n_calling := answer_calls out (n_calling s)\<rparr>"

fun own_round :: "driver_input \<Rightarrow> bool" where
  "own_round (CommandInput _ _) = False"
| "own_round CommandsClosed = False"
| "own_round _ = True"

fun own_turn :: "worker_input \<Rightarrow> bool" where
  "own_turn (StoreRecv _) = True"
| "own_turn (WakeReady _) = True"
| "own_turn _ = False"

definition begin_turn :: "p2p_worker \<Rightarrow> p2p_net \<Rightarrow> p2p_net" where
  "begin_turn w s = s\<lparr>n_turn := Some (drop (length (sent (n_worker s))) (sent w), w)\<rparr>"

text \<open>\<open>other_caller\<close> is a command of the listener or of the shutdown.\<close>

inductive channel_step :: "'x store_externs_scheme \<Rightarrow> nat \<Rightarrow> nat \<Rightarrow> p2p_net \<Rightarrow> p2p_net \<Rightarrow> bool"
  for X events_cap commands_cap where
  driver_own:
    "n_outbox s = [] \<Longrightarrow> own_round inp \<Longrightarrow> driver_round X E inp (n_driver s) = (d, out, None) \<Longrightarrow>
     channel_step X events_cap commands_cap s (after_round d out s)"
| driver_command:
    "n_outbox s = [] \<Longrightarrow> n_commands s = (t, c) # cs \<Longrightarrow>
     driver_round X E (CommandInput t c) (n_driver s) = (d, out, None) \<Longrightarrow>
     channel_step X events_cap commands_cap s (after_round d out (s\<lparr>n_commands := cs\<rparr>))"
| driver_emit:
    "n_outbox s = e # es \<Longrightarrow> length (n_events s) < events_cap \<Longrightarrow>
     channel_step X events_cap commands_cap s (s\<lparr>n_outbox := es, n_events := n_events s @ [e]\<rparr>)"
| worker_event:
    "n_turn s = None \<Longrightarrow> n_events s = ev # evs \<Longrightarrow>
     worker_turn E (DriverRecv (Some ev)) (n_worker s) = Finished w (Inr ()) \<Longrightarrow>
     w_externs E = X \<Longrightarrow>
     channel_step X events_cap commands_cap s (begin_turn w (s\<lparr>n_events := evs\<rparr>))"
| worker_own:
    "n_turn s = None \<Longrightarrow> own_turn inp \<Longrightarrow>
     worker_turn E inp ((n_worker s)\<lparr>w_store := st\<rparr>) = Finished w (Inr ()) \<Longrightarrow>
     w_externs E = X \<Longrightarrow>
     channel_step X events_cap commands_cap s (begin_turn w s)"
| worker_call:
    "n_turn s = Some (c # cs, w) \<Longrightarrow> n_calling s = None \<Longrightarrow> length (n_commands s) < commands_cap \<Longrightarrow>
     t \<notin> fst ` set (n_commands s) \<Longrightarrow>
     channel_step X events_cap commands_cap s
       (s\<lparr>n_turn := Some (cs, w), n_calling := Some t, n_commands := n_commands s @ [(t, c)]\<rparr>)"
| worker_return:
    "n_turn s = Some ([], w) \<Longrightarrow> n_calling s = None \<Longrightarrow>
     channel_step X events_cap commands_cap s (s\<lparr>n_turn := None, n_worker := w\<rparr>)"
| other_caller:
    "length (n_commands s) < commands_cap \<Longrightarrow> t \<notin> fst ` set (n_commands s) \<Longrightarrow> n_calling s \<noteq> Some t \<Longrightarrow>
     channel_step X events_cap commands_cap s (s\<lparr>n_commands := n_commands s @ [(t, c)]\<rparr>)"

inductive_cases channel_stepE: "channel_step X events_cap commands_cap s s'"

definition channel_start :: "driver \<Rightarrow> p2p_worker \<Rightarrow> p2p_net" where
  "channel_start d w =
     \<lparr>n_driver = d, n_outbox = [], n_events = [], n_commands = [], n_worker = w, n_turn = None,
      n_calling = None\<rparr>"

definition channel_init :: "p2p_net \<Rightarrow> bool" where
  "channel_init s \<longleftrightarrow> (\<exists>d w. driver_init (d, [], []) \<and> worker_init w \<and> s = channel_start d w)"

section \<open>Blocked states\<close>

definition blocked :: "nat \<Rightarrow> p2p_net \<Rightarrow> bool" where
  "blocked events_cap s \<longleftrightarrow>
     n_outbox s \<noteq> [] \<and> events_cap \<le> length (n_events s) \<and> n_turn s \<noteq> None \<and> n_calling s \<noteq> None"

lemma blocked_step:
  assumes "blocked n s" "channel_step X n m s s'"
  shows "blocked n s' \<and> n_driver s' = n_driver s \<and> n_worker s' = n_worker s"
  using assms(2,1) by (cases rule: channel_step.cases) (auto simp: blocked_def)

lemma blocked_forever:
  assumes "(channel_step X n m)\<^sup>*\<^sup>* s s'" "blocked n s"
  shows "blocked n s' \<and> n_driver s' = n_driver s \<and> n_worker s' = n_worker s"
  using assms(1)
proof (induction rule: rtranclp_induct)
  case (step s1 s2)
  then show ?case using blocked_step [of n s1 X m s2] by auto
qed (use assms(2) in simp)

section \<open>A burst of requests\<close>

text \<open>A driver that serves \<open>p\<close>, and the request of \<open>p\<close> for the proof \<open>i\<close>.\<close>

definition serves :: "peer_id \<Rightarrow> driver \<Rightarrow> bool" where
  "serves p d \<longleftrightarrow> is_running d \<and> p \<in> authorized_peers d"

definition proof_request :: "peer_id \<Rightarrow> verification_id \<Rightarrow> driver \<Rightarrow> driver_input" where
  "proof_request p i d =
     SwarmInput (ProofExchange (ExchangeRequest p
       \<lparr>request_chain_id = p2p_chain_id (drv_config d), request_verification_id = as_bytes i\<rparr> 0))"

lemma request_round:
  assumes "serves p d" "length (as_bytes i) = 32" "events_open E"
  obtains d' r where "driver_round X E (proof_request p i d) d = (d', [Event True (ProofRequested r p i)], None)"
    and "serves p d'"
proof -
  have "verification_id_try_from (as_bytes i) = Inr i" using assms(2) by simp
  then show ?thesis
    using assms that by (simp add: serves_def proof_request_def driver_round_def handle_swarm_event_def
        handle_exchange_def handle_inbound_request_def emit_def finish_round_def finish_drain_def is_running_def Let_def
        del: verification_id_try_from_Inr)
qed

lemma burst_step:
  assumes s: "serves p (n_driver s)" "n_outbox s = []" and i: "length (as_bytes i) = 32"
  obtains d r where "channel_step X n m s (s\<lparr>n_driver := d, n_outbox := [ProofRequested r p i]\<rparr>)" and "serves p d"
proof -
  let ?E = "(undefined :: net_env)\<lparr>events_open := True\<rparr>"
  have "events_open ?E" by simp
  from request_round [OF s(1) i this, of X] obtain d r where
    d: "driver_round X ?E (proof_request p i (n_driver s)) (n_driver s) = (d, [Event True (ProofRequested r p i)], None)"
       "serves p d" by blast
  have "channel_step X n m s (after_round d [Event True (ProofRequested r p i)] s)"
    by (rule driver_own [OF s(2) _ d(1)]) (simp add: proof_request_def)
  moreover have "after_round d [Event True (ProofRequested r p i)] s = s\<lparr>n_driver := d, n_outbox := [ProofRequested r p i]\<rparr>"
    by (cases "n_calling s") (simp_all add: after_round_def emitted_def answer_calls_def replied_def)
  ultimately show ?thesis using d(2) that by simp
qed

text \<open>While the worker awaits a reply, requests fill the event channel.\<close>

lemma burst:
  assumes "serves p (n_driver s)" "n_outbox s = []" "length (as_bytes i) = 32" "length (n_events s) + k \<le> n"
  shows "\<exists>s'. (channel_step X n m)\<^sup>*\<^sup>* s s' \<and> serves p (n_driver s') \<and> n_outbox s' = []
    \<and> length (n_events s') = length (n_events s) + k \<and> n_turn s' = n_turn s \<and> n_calling s' = n_calling s"
  using assms(4)
proof (induction k)
  case (Suc k)
  then obtain s1 where s1: "(channel_step X n m)\<^sup>*\<^sup>* s s1" "serves p (n_driver s1)" "n_outbox s1 = []"
    "length (n_events s1) = length (n_events s) + k" "n_turn s1 = n_turn s" "n_calling s1 = n_calling s" by auto
  from burst_step [OF s1(2,3) assms(3)] obtain d r where
    d: "channel_step X n m s1 (s1\<lparr>n_driver := d, n_outbox := [ProofRequested r p i]\<rparr>)" "serves p d" by blast
  let ?s2 = "s1\<lparr>n_driver := d, n_outbox := [ProofRequested r p i]\<rparr>"
  have e: "channel_step X n m ?s2 (?s2\<lparr>n_outbox := [], n_events := n_events ?s2 @ [ProofRequested r p i]\<rparr>)"
    using Suc.prems s1(4) by (intro driver_emit) auto
  then show ?case using s1 d
    by (intro exI [of _ "?s2\<lparr>n_outbox := [], n_events := n_events ?s2 @ [ProofRequested r p i]\<rparr>"])
       (auto intro: rtranclp.rtrancl_into_rtrancl)
qed (use assms in auto)

text \<open>The worker answers a request with one command.\<close>

lemma answer_turn:
  assumes "n_events s = [ProofRequested r p i]" "n_turn s = None" "n_calling s = None" "n_commands s = []" "0 < m"
  obtains s' where "(channel_step X n m)\<^sup>*\<^sup>* s s'" "n_driver s' = n_driver s" "n_outbox s' = n_outbox s"
    "n_events s' = []" "n_turn s' \<noteq> None" "n_calling s' \<noteq> None"
proof -
  let ?E = "(undefined :: _ worker_env)\<lparr>w_externs := X, unit_reply := \<lambda>_ _. Inr ()\<rparr>"
  let ?c = "RespondProof r (get_proof X (w_store (n_worker s)) i)"
  let ?s1 = "begin_turn (send ?c (n_worker s)) (s\<lparr>n_events := []\<rparr>)"
  have "worker_turn ?E (DriverRecv (Some (ProofRequested r p i))) (n_worker s) = Finished (send ?c (n_worker s)) (Inr ())"
    by (simp add: worker_turn_def handle_driver_event_def command_def)
  then have 1: "channel_step X n m s ?s1" using assms by (intro worker_event) auto
  have "channel_step X n m ?s1 (?s1\<lparr>n_turn := Some ([], send ?c (n_worker s)), n_calling := Some 0,
      n_commands := n_commands ?s1 @ [(0, ?c)]\<rparr>)"
    using assms by (intro worker_call) (auto simp: begin_turn_def send_def)
  with 1 have "(channel_step X n m)\<^sup>*\<^sup>* s (?s1\<lparr>n_turn := Some ([], send ?c (n_worker s)), n_calling := Some 0,
      n_commands := n_commands ?s1 @ [(0, ?c)]\<rparr>)" by simp
  then show ?thesis using that by (simp add: begin_turn_def)
qed

text \<open>
  C21. The driver and the worker can wait for each other forever: whatever the sizes of the two
  channels, one authorized peer that sends enough proof requests while the worker answers its first
  leads to a state in which the driver waits for room for an event and the worker for a reply of
  the driver, and no later step of any task changes that.
\<close>

theorem p2p_channels_deadlock:
  assumes d: "driver_init (d, [], [])" "p \<in> authorized_peers d" and w: "worker_init w"
    and caps: "0 < events_cap" "0 < commands_cap"
  shows "\<exists>s. reach channel_init (channel_step X events_cap commands_cap) s \<and>
    (\<forall>s'. (channel_step X events_cap commands_cap)\<^sup>*\<^sup>* s s' \<longrightarrow>
       n_outbox s' \<noteq> [] \<and> length (n_events s') \<ge> events_cap \<and> n_calling s' \<noteq> None
       \<and> n_driver s' = n_driver s \<and> n_worker s' = n_worker s)"
proof -
  let ?step = "channel_step X events_cap commands_cap" and ?i = "VerificationId (replicate 32 0)"
  let ?s0 = "channel_start d w"
  have i: "length (as_bytes ?i) = 32" by simp
  have s0: "serves p (n_driver ?s0)" "n_outbox ?s0 = []"
    using d by (auto simp: serves_def driver_init_def is_running_def new_driver_def channel_start_def)
  from burst_step [OF s0 i] obtain d1 r where
    s1: "?step ?s0 (?s0\<lparr>n_driver := d1, n_outbox := [ProofRequested r p ?i]\<rparr>)" "serves p d1" by blast
  let ?s1 = "?s0\<lparr>n_driver := d1, n_outbox := [ProofRequested r p ?i]\<rparr>"
  let ?s2 = "?s1\<lparr>n_outbox := [], n_events := n_events ?s1 @ [ProofRequested r p ?i]\<rparr>"
  have "?step ?s1 ?s2" using caps by (intro driver_emit) (auto simp: channel_start_def)
  with s1 have s2: "?step\<^sup>*\<^sup>* ?s0 ?s2" by simp
  from answer_turn [of ?s2 r p ?i commands_cap X events_cap] caps obtain s3 where
    s3: "?step\<^sup>*\<^sup>* ?s2 s3" "n_driver s3 = d1" "n_outbox s3 = []" "n_events s3 = []" "n_turn s3 \<noteq> None" "n_calling s3 \<noteq> None"
    by (auto simp: channel_start_def)
  from burst [of p s3 ?i events_cap events_cap X commands_cap] s3 s1(2) obtain s4 where
    s4: "?step\<^sup>*\<^sup>* s3 s4" "serves p (n_driver s4)" "n_outbox s4 = []" "length (n_events s4) = events_cap"
      "n_turn s4 \<noteq> None" "n_calling s4 \<noteq> None" by auto
  from burst_step [OF s4(2,3) i] obtain d5 r5 where
    s5: "?step s4 (s4\<lparr>n_driver := d5, n_outbox := [ProofRequested r5 p ?i]\<rparr>)" by blast
  let ?s5 = "s4\<lparr>n_driver := d5, n_outbox := [ProofRequested r5 p ?i]\<rparr>"
  have "channel_init ?s0" using d w by (auto simp: channel_init_def)
  then have "reach channel_init ?step ?s5"
    using s2 s3(1) s4(1) s5 by (intro reach_rtranclp [OF reach.reach_init]) auto
  moreover have "blocked events_cap ?s5" using s4 by (auto simp: blocked_def)
  ultimately show ?thesis using blocked_forever [of X events_cap commands_cap ?s5] unfolding blocked_def by blast
qed

theorem p2p_channels_deadlock_witness:
  "\<exists>s. reach channel_init (channel_step demo_store_externs 16 16) s \<and>
    (\<forall>s'. (channel_step demo_store_externs 16 16)\<^sup>*\<^sup>* s s' \<longrightarrow>
       n_outbox s' \<noteq> [] \<and> length (n_events s') \<ge> 16 \<and> n_calling s' \<noteq> None
       \<and> n_driver s' = n_driver s \<and> n_worker s' = n_worker s)"
proof (rule p2p_channels_deadlock)
  show "driver_init (demo_driver, [], [])" unfolding demo_driver_def driver_init_def by blast
  show "[2] \<in> authorized_peers demo_driver" by (simp add: demo_driver_def new_driver_def)
qed (use demo_worker_init in simp_all)


end
