(* ===== verification/P2p_Exchange.thy ===== *)
theory P2p_Exchange
  imports Retrieval
begin

text \<open>
  Two nodes together: a proof that one node stores reaches a validator that waits for it. The
  workers (\<open>src/p2p/worker.rs\<close>) and the drivers (\<open>src/p2p/driver.rs\<close>) of both sides are composed
  with the gossip messages (\<open>src/p2p/availability.rs\<close>) and the frames of the proof exchange
  (\<open>src/p2p/codec.rs\<close>) in the order in which a transfer uses them.
\<close>

section \<open>The two sides\<close>

text \<open>A driver that serves its peer: same chain, peer authorized, nothing closed.\<close>

definition linked :: "string \<Rightarrow> p2p_codec \<Rightarrow> nat \<Rightarrow> net_env \<Rightarrow> driver \<Rightarrow> peer_id \<Rightarrow> bool" where
  "linked cid K mp E d peer \<longleftrightarrow>
     is_running d \<and> p2p_chain_id (drv_config d) = cid \<and> p2p_max_proof_bytes (drv_config d) = mp
     \<and> peer \<in> authorized_peers d \<and> net_codec E = K \<and> events_open E \<and> send_response_ok E
     \<and> publish E = (\<lambda>_. Inr ())"

text \<open>A worker with a free slot, an empty queue and no retrieval of the identifier.\<close>

definition free_for :: "verification_id \<Rightarrow> p2p_worker \<Rightarrow> bool" where
  "free_for i w \<longleftrightarrow> retrievals w i = None \<and> r_pending w = [] \<and> active_retrievals w < w_max_concurrent w"

text \<open>The random order of the providers puts the peer first in line.\<close>

definition draws :: "'x worker_env \<Rightarrow> peer_id \<Rightarrow> bool" where
  "draws F peer \<longleftrightarrow> (\<forall>n ps. if peer \<in> set ps then shuffle F n ps \<noteq> [] \<and> last (shuffle F n ps) = peer else True)"

definition prost_request_len :: "'x externs_scheme \<Rightarrow> get_proof_request message_codec \<Rightarrow> bool" where
  "prost_request_len X M \<longleftrightarrow>
     (\<forall>r. message_len M r =
        text_field_len X (request_chain_id r) + text_field_len X (request_verification_id r))"

section \<open>The drivers\<close>

lemma finish_running [simp]: "is_running d \<Longrightarrow> finish_round (d, out) = (d, out)"
  by (simp add: finish_round_def finish_drain_def is_running_def)

lemma announce_round:
  assumes "linked cid K mp E d peer"
  shows "driver_round X E (CommandInput t (Announce i)) d =
    (d\<lparr>drv_availability := add_provider (drv_availability d) i (local_peer_id d)\<rparr>,
     [Net (Publish (announcement K cid i)), Reply t (UnitReply (Inr ()))], None)"
  using assms
  by (simp add: driver_round_def handle_command_def driver_announce_def linked_def is_running_def finish_round_def
      finish_drain_def Let_def)

lemma gossip_round:
  assumes "linked cid K mp E d peer" "prost_availability K" "length (as_bytes i) = 32"
  shows "driver_round X E (SwarmInput (Gossipsub (GossipMessage peer mid (Some peer) (announcement K cid i)))) d =
    (d\<lparr>drv_availability := add_provider (drv_availability d) i peer\<rparr>,
     [Net (ReportValidation mid peer Accept), Event True (AvailabilityAnnounced peer i)], None)"
proof -
  have [simp]: "verification_id_try_from (as_bytes i) = Inr i" using assms(3) by simp
  have "decode_availability K (encode_availability K m) = Inr m" for m
    using assms(2) by (simp add: prost_availability_def)
  then have "decode_and_validate K (announcement K cid i) cid A n = Inr (Announcement i)" for A n
    by (simp add: decode_and_validate_def announcement_def)
  then show ?thesis
    using assms(1)
    by (simp add: driver_round_def handle_swarm_event_def handle_gossip_def validated_gossip_def linked_def
        is_running_def finish_round_def finish_drain_def emit_def Let_def)
qed

lemma linked_same:
  assumes "linked cid K mp E d peer"
    and "drv_state d' = drv_state d" "drv_config d' = drv_config d" "authorized_peers d' = authorized_peers d"
  shows "linked cid K mp E d' peer"
  using assms by (simp add: linked_def is_running_def)

lemma providers_round:
  assumes "linked cid K mp E d peer"
  shows "driver_round X E (CommandInput t (Providers i)) d =
    (d, [Reply t (ProvidersReply (Inr (providers (drv_availability d) i)))], None)"
  using assms
  by (simp add: driver_round_def handle_command_def linked_def is_running_def finish_round_def finish_drain_def Let_def)

lemma ask_round:
  assumes "linked cid K mp E d peer" "(peer, i) \<notin> in_flight d"
  shows "driver_round X E (CommandInput t (RequestProof peer i)) d =
    (d\<lparr>in_flight := insert (peer, i) (in_flight d), next_proof_request_id := next_proof_request_id d + 1,
       outbound_requests := (outbound_requests d)(send_request_id E \<mapsto>
         \<lparr>out_application_id = next_proof_request_id d, out_peer = peer, out_verification_id = i\<rparr>)\<rparr>,
     [Net (SendRequest (send_request_id E) peer \<lparr>request_chain_id = cid, request_verification_id = as_bytes i\<rparr>),
      Reply t (RequestReply (Inr (next_proof_request_id d)))], None)"
  using assms
  by (simp add: driver_round_def handle_command_def driver_request_proof_def require_running_def linked_def
      is_running_def finish_round_def finish_drain_def Let_def)

lemma serve_round:
  assumes "linked cid K mp E d peer" "length (as_bytes i) = 32"
  shows "driver_round X E (SwarmInput (ProofExchange (ExchangeRequest peer
      \<lparr>request_chain_id = cid, request_verification_id = as_bytes i\<rparr> ch))) d =
    (d\<lparr>next_inbound_request_id := next_inbound_request_id d + 1,
       inbound_requests := (inbound_requests d)(next_inbound_request_id d \<mapsto>
         \<lparr>in_peer = peer, in_verification_id = i, in_channel = ch\<rparr>)\<rparr>,
     [Event True (ProofRequested (next_inbound_request_id d) peer i)], None)"
proof -
  have [simp]: "verification_id_try_from (as_bytes i) = Inr i" using assms(2) by simp
  show ?thesis
    using assms(1)
    by (simp add: driver_round_def handle_swarm_event_def handle_exchange_def handle_inbound_request_def linked_def
        is_running_def finish_round_def finish_drain_def emit_def Let_def)
qed

lemma respond_round:
  assumes "linked cid K mp E d peer" "encoded_len X p \<le> mp"
    and "inbound_requests d q = Some \<lparr>in_peer = peer, in_verification_id = verification_id X p, in_channel = ch\<rparr>"
  shows "driver_round X E (CommandInput t (RespondProof q (Some p))) d =
    (d\<lparr>inbound_requests := (inbound_requests d)(q := None)\<rparr>,
     [Net (SendResponse ch (reply_message cid (Some p))), Reply t (UnitReply (Inr ()))], None)"
  using assms
  by (simp add: driver_round_def handle_command_def respond_proof_def linked_def reply_message_def
      is_running_def finish_round_def finish_drain_def Let_def not_less)

lemma received_round:
  assumes "linked cid K mp E d peer" "varint_len X" "wire_proof_len X" "in_memory p" "encoded_len X p \<le> mp"
    and "outbound_requests d k =
      Some \<lparr>out_application_id = r, out_peer = peer, out_verification_id = verification_id X p\<rparr>"
  shows "driver_round X E (SwarmInput (ProofExchange (ExchangeResponse peer k (reply_message cid (Some p))))) d =
    (d\<lparr>outbound_requests := (outbound_requests d)(k := None), in_flight := in_flight d - {(peer, verification_id X p)},
       drv_availability := add_provider (drv_availability d) (verification_id X p) peer\<rparr>,
     [Event True (ProofReceived r peer (verification_id X p) p)], None)"
proof -
  have "proof_from_wire (proof_to_wire p) = Inr p"
    by (cases p; cases "proof_type p") (simp_all add: proof_from_wire_def proof_to_wire_def proof_type_to_i32_def proof_type_try_from_def)
  then have "validate_exchanged_proof X (proof_to_wire p) (verification_id X p) mp = Inr p"
    using encoded_len_wire [OF assms(2-4)] assms(5) by (simp add: validate_exchanged_proof_def)
  then show ?thesis
    using assms(1,6)
    by (simp add: driver_round_def handle_swarm_event_def handle_exchange_def handle_outbound_response_def
        linked_def reply_message_def forget_request_def
        is_running_def finish_round_def finish_drain_def emit_def Let_def not_less)
qed

section \<open>The workers\<close>

lemma stored_content:
  assumes "reachable_store X s" "get_proof X s i = Some p"
  shows "verification_id X p = i" "in_memory p" "encoded_len X p \<le> max_proof_bytes s"
proof -
  have "moka X" "store_inv X s" using reachable_good [OF assms(1)] by auto
  moreover obtain a where a: "store_get X s i = Some a" "record_proof (arc_val a) = Some p"
    using assms(2) by (auto simp: get_proof_def Option.bind_eq_Some_conv)
  ultimately have "record_ok X (max_proof_bytes s) i (arc_val a)"
    using store_invD(2) moka_getD by (metis (no_types, lifting))
  then show "verification_id X p = i" "in_memory p" "encoded_len X p \<le> max_proof_bytes s"
    using a(2) by (auto simp: record_ok_def content_ok_def)
qed

lemma announce_turn:
  assumes "r_pending w = []" "unit_reply F (length (sent w)) (Announce i) = Inr ()"
  shows "\<exists>w'. worker_turn F (StoreRecv (StoreEvent (ProofStored i source))) w = Finished w' (Inr ())
    \<and> sent w' = sent w @ [Announce i] \<and> w_store w' = w_store w \<and> r_pending w' = []"
  using assms
  by (auto simp: worker_turn_def p2p_handle_store_result_def handle_store_event_def command_def send_def
      stop_retrieval_def set_retrieval_def drive_pending_def split: option.split)

lemma serve_turn:
  assumes "unit_reply F (length (sent w)) (RespondProof q (Some p)) = Inr ()"
    and "get_proof (w_externs F) (w_store w) i = Some p"
  shows "worker_turn F (DriverRecv (Some (ProofRequested q peer i))) w =
    Finished (send (RespondProof q (Some p)) w) (Inr ())"
  using assms by (simp add: worker_turn_def handle_driver_event_def command_def)

lemma awaiting_waits:
  assumes "reachable_store (w_externs F) (w_store w)" "phase_of (entry (w_store w) i) = AwaitingContent"
  shows "waiting_in_store F i w"
proof -
  have moka: "moka (w_externs F)" and inv: "store_inv (w_externs F) (w_store w)" using reachable_good [OF assms(1)] by auto
  obtain a where a: "records (w_store w) i = Some a" "verification (metadata (arc_val a)) = None"
      "chain_observed_at (metadata (arc_val a)) \<noteq> None"
    using assms(2) by (auto simp: phase_of_def entry_def split: option.splits if_splits)
  then show ?thesis
    using store_invD(2) [OF inv a(1)] by (simp add: waiting_in_store_def moka_getD [OF moka] record_ok_def)
qed

lemma ask_turn:
  assumes free: "free_for i w" and peer: "draws F peer" "peer \<noteq> w_local_peer_id w"
    and waits: "waiting_in_store F i w" "0 < provider_rounds F"
    and replies: "providers_reply F (length (sent w)) i = Inr ps" "peer \<in> set ps"
      "request_reply F (Suc (length (sent w))) peer i = Inr r"
  shows "\<exists>w' st. worker_turn F (DriverRecv (Some (AvailabilityAnnounced peer i))) w = Finished w' (Inr ())
    \<and> sent w' = sent w @ [Providers i, RequestProof peer i] \<and> w_store w' = w_store w
    \<and> active_retrievals w' = Suc (active_retrievals w) \<and> r_pending w' = [] \<and> published w' = published w
    \<and> retrievals w' = (retrievals w)(i \<mapsto> st) \<and> active_request st = Some (r, peer)"
proof -
  obtain n where n: "provider_rounds F = Suc n" using waits(2) gr0_implies_Suc by blast
  let ?w = "w\<lparr>r_pending := [], retrievals := (retrievals w)(i \<mapsto> fresh_retrieval)\<rparr>"
  let ?w1 = "?w\<lparr>sent := sent w @ [Providers i]\<rparr>"
  have "candidates F i ps ?w1 \<noteq> [] \<and> last (candidates F i ps ?w1) = peer"
    using peer replies(2) by (auto simp: candidates_def draws_def fresh_retrieval_def)
  then have asked: "try_retrieve F (Suc n) i ?w = Finished (started F i r peer (send (RequestProof peer i) ?w1)) (Inr ())"
    using free replies by (simp add: Let_def send_def free_for_def passed_def fresh_retrieval_def)
  have [simp]: "fresh_retrieval\<lparr>rs_queued := False\<rparr> = fresh_retrieval" by (simp add: fresh_retrieval_def)
  have "\<not> rs_queued fresh_retrieval" "active_request fresh_retrieval = None" "\<not> rs_finished fresh_retrieval"
    by (simp_all add: fresh_retrieval_def)
  then have "worker_turn F (DriverRecv (Some (AvailabilityAnnounced peer i))) w =
      then_w (try_retrieve F (Suc n) i ?w) (drive_turns F 0)"
    using free waits(1) n
    by (simp add: worker_turn_def handle_driver_event_def ensure_retrieval_def free_for_def enqueue_retrieval_def
        drive_pending_def set_retrieval_def Let_def del: try_retrieve.simps)
  then show ?thesis
    using free unfolding asked by (auto simp: free_for_def set_retrieval_def started_def send_def)
qed

lemma download_turn:
  assumes reach: "reachable_store (w_externs F) (w_store w)"
    and phase: "phase_of (entry (w_store w) i) = AwaitingContent"
    and p: "verification_id (w_externs F) p = i" "encoded_len (w_externs F) p \<le> max_proof_bytes (w_store w)"
    and request: "retrievals w i = Some st" "active_request st = Some (r, peer)" "0 < active_retrievals w"
      "r_pending w = []"
  shows "\<exists>w'. worker_turn F (DriverRecv (Some (ProofReceived r peer i p))) w = Finished w' (Inr ())
    \<and> w_store w' = put_record (w_store w) i
        (queue_if_ready (with_content p (Peer peer) (w_now F w) (the (entry (w_store w) i))))
    \<and> published w' = published w @ [ProofStored i (Peer peer), VerificationChanged i Queued]
    \<and> retrievals w' = (retrievals w)(i := None) \<and> active_retrievals w' = active_retrievals w - 1
    \<and> sent w' = sent w"
proof -
  have moka: "moka (w_externs F)" and inv: "store_inv (w_externs F) (w_store w)" using reachable_good [OF reach] by auto
  obtain a where a: "records (w_store w) i = Some a" "verification (metadata (arc_val a)) = None"
      "chain_observed_at (metadata (arc_val a)) \<noteq> None"
    using phase by (auto simp: phase_of_def entry_def split: option.splits if_splits)
  then have "record_proof (arc_val a) = None" using store_invD(2) [OF inv a(1)] by (simp add: record_ok_def)
  then have "attach_downloaded_proof (w_externs F) (w_now F w) (w_store w) i p peer =
      (put_record (w_store w) i (queue_if_ready (with_content p (Peer peer) (w_now F w) (the (entry (w_store w) i)))),
       [ProofStored i (Peer peer), VerificationChanged i Queued], Inr ChangeUpdated)"
    using a p by (auto simp: attach_downloaded_proof_def validate_proof_def attach_entry_def compute_eq [OF moka]
        entry_def queued_event_def queue_if_ready_def with_content_def Let_def)
  then show ?thesis
    using request by (simp add: worker_turn_def handle_driver_event_def store_download_def finish_request_def
        or_panic_def drive_unless_def drive_pending_def set_retrieval_def Let_def)
qed

section \<open>From one store to the other\<close>

lemma request_frame:
  assumes "varint_len X" "prost_request_len X M" "prost_message M \<lparr>request_chain_id = cid, request_verification_id = v\<rparr>"
    and "length cid \<le> 900" "length v = 32"
  shows "bind_res (write_request M (Inr ()) \<lparr>request_chain_id = cid, request_verification_id = v\<rparr>) (read_request M)
    = Inr \<lparr>request_chain_id = cid, request_verification_id = v\<rparr>"
proof -
  have "encoded_len_varint X n \<le> 10" for n using assms(1) by (simp add: varint_len_def)
  then have "message_len M \<lparr>request_chain_id = cid, request_verification_id = v\<rparr> \<le> 1024"
    using assms(2,4,5) add_mono [of "encoded_len_varint X (length cid)" 10 "encoded_len_varint X 32" 10]
    by (auto simp: prost_request_len_def text_field_len_def delimited_len_def)
  then show ?thesis
    using assms(3)
    by (simp add: write_request_def write_message_def read_request_def read_message_def read_to_end_def
        prost_message_def checked_add_usize_def MAX_REQUEST_BYTES_def usize_bound_def)
qed

text \<open>The drivers of both sides with the frames between them, from the request to the proof.\<close>

lemma drivers_exchange:
  assumes laws: "varint_len X" "wire_proof_len X" "prost_response_len X M" "prost_request_len X Mq"
    and messages: "prost_message M (reply_message cid (Some p))"
      "prost_message Mq \<lparr>request_chain_id = cid, request_verification_id = as_bytes i\<rparr>"
    and nodes: "linked cid K mp EA dA b" "linked cid K mp EB dB a"
    and sizes: "mp + length cid + 23 < usize_bound" "length cid \<le> 900" "length (as_bytes i) = 32"
    and p: "verification_id X p = i" "in_memory p" "encoded_len X p \<le> mp"
    and unused: "(b, i) \<notin> in_flight dA" "outbound_requests dA (send_request_id EA) = None"
      "inbound_requests dB (next_inbound_request_id dB) = None"
  shows "\<exists>k req dA2 dB2 q dB3 resp limit dA3.
      driver_round X EA (CommandInput t (RequestProof b i)) dA =
        (dA2, [Net (SendRequest k b req), Reply t (RequestReply (Inr (next_proof_request_id dA)))], None)
    \<and> bind_res (write_request Mq (Inr ()) req) (read_request Mq) = Inr req
    \<and> driver_round X EB (SwarmInput (ProofExchange (ExchangeRequest a req ch))) dB =
        (dB2, [Event True (ProofRequested q a i)], None)
    \<and> driver_round X EB (CommandInput u (RespondProof q (Some p))) dB2 =
        (dB3, [Net (SendResponse ch resp), Reply u (UnitReply (Inr ()))], None)
    \<and> max_response_bytes X mp cid = Inr limit
    \<and> bind_res (write_response M (Inr ()) resp limit) (\<lambda>io. read_response M io limit) = Inr resp
    \<and> driver_round X EA (SwarmInput (ProofExchange (ExchangeResponse b k resp))) dA2 =
        (dA3, [Event True (ProofReceived (next_proof_request_id dA) b i p)], None)
    \<and> outbound_requests dA3 = outbound_requests dA \<and> in_flight dA3 = in_flight dA
    \<and> inbound_requests dB3 = inbound_requests dB"
proof -
  let ?req = "\<lparr>request_chain_id = cid, request_verification_id = as_bytes i\<rparr>"
  obtain dA2 where A2: "driver_round X EA (CommandInput t (RequestProof b i)) dA =
        (dA2, [Net (SendRequest (send_request_id EA) b ?req), Reply t (RequestReply (Inr (next_proof_request_id dA)))], None)"
      "linked cid K mp EA dA2 b" "in_flight dA2 = insert (b, i) (in_flight dA)"
      "outbound_requests dA2 = (outbound_requests dA)(send_request_id EA \<mapsto>
         \<lparr>out_application_id = next_proof_request_id dA, out_peer = b, out_verification_id = i\<rparr>)"
    using ask_round [OF nodes(1) unused(1), of X t] linked_same [OF nodes(1)] by simp
  let ?q = "next_inbound_request_id dB"
  obtain dB2 where B2: "driver_round X EB (SwarmInput (ProofExchange (ExchangeRequest a ?req ch))) dB =
        (dB2, [Event True (ProofRequested ?q a i)], None)"
      "linked cid K mp EB dB2 a" "inbound_requests dB2 = (inbound_requests dB)(?q \<mapsto>
         \<lparr>in_peer = a, in_verification_id = i, in_channel = ch\<rparr>)"
    using serve_round [OF nodes(2) sizes(3), of X ch] linked_same [OF nodes(2)] by simp
  let ?resp = "reply_message cid (Some p)"
  obtain dB3 where B3: "driver_round X EB (CommandInput u (RespondProof ?q (Some p))) dB2 =
        (dB3, [Net (SendResponse ch ?resp), Reply u (UnitReply (Inr ()))], None)"
      "inbound_requests dB3 = inbound_requests dB"
    using respond_round [OF B2(2) p(3), of ?q ch u] B2(3) p(1) unused(3) by (simp add: fun_upd_idem)
  obtain limit where frames: "max_response_bytes X mp cid = Inr limit"
      "bind_res (write_response M (Inr ()) ?resp limit) (\<lambda>io. read_response M io limit) = Inr ?resp"
    using exchange_carries_replies [OF laws(1-3), of mp "Some p" cid] messages(1) sizes(1) p(2,3)
    by (auto simp: exchange_reply_def)
  obtain dA3 where A3: "driver_round X EA (SwarmInput (ProofExchange (ExchangeResponse b (send_request_id EA) ?resp))) dA2 =
        (dA3, [Event True (ProofReceived (next_proof_request_id dA) b i p)], None)"
      "outbound_requests dA3 = outbound_requests dA" "in_flight dA3 = in_flight dA"
    using received_round [OF A2(2) laws(1,2) p(2,3), of "send_request_id EA"] A2(3,4) p(1) unused(1,2)
    by (simp add: fun_upd_idem)
  note request_frame [OF laws(1,4) messages(2) sizes(2,3)]
  with A2(1) B2(1) B3 frames A3 show ?thesis by blast
qed

text \<open>
  C8. A proof travels. Node B has stored content that node A waits for; both run on the same
  chain and authorize each other. B's worker announces it, B's driver publishes, A's driver
  accepts the message and tells its worker, which asks its driver for the providers and requests
  the proof from B; the request passes the frames; B's driver hands it to B's worker, which
  answers from its store; the response passes the frames within the limit; A's driver validates
  it against the request and A's worker attaches it. At the end A has B's proof, queued for
  verification, and no slot, request or inbound entry of either side is left over.
\<close>

theorem proof_travels:
  assumes laws: "varint_len X" "wire_proof_len X" "prost_response_len X M" "prost_request_len X Mq" "prost_availability K"
    and messages: "prost_message M (reply_message cid (Some p))"
      "prost_message Mq \<lparr>request_chain_id = cid, request_verification_id = as_bytes i\<rparr>"
    and nodes: "linked cid K mp EA dA b" "linked cid K mp EB dB a" "w_externs FA = X" "w_externs FB = X"
    and sizes: "mp + length cid + 23 < usize_bound" "length cid \<le> 900" "length (as_bytes i) = 32"
      "max_proof_bytes (w_store wB) \<le> mp" "max_proof_bytes (w_store wB) \<le> max_proof_bytes (w_store wA)"
    and stores: "reachable_store X (w_store wA)" "reachable_store X (w_store wB)"
      "phase_of (entry (w_store wA) i) = AwaitingContent" "get_proof X (w_store wB) i = Some p"
    and asker: "free_for i wA" "draws FA b" "b \<noteq> w_local_peer_id wA" "0 < provider_rounds FA"
      "(b, i) \<notin> in_flight dA" "outbound_requests dA (send_request_id EA) = None" "index_ok (drv_availability dA)"
    and server: "r_pending wB = []" "inbound_requests dB (next_inbound_request_id dB) = None"
    and replies: "\<forall>n c. unit_reply FB n c = Inr ()"
      "providers_reply FA (length (sent wA)) i = Inr (providers (add_provider (drv_availability dA) i b) i)"
      "request_reply FA (Suc (length (sent wA))) b i = Inr (next_proof_request_id dA)"
  shows "\<exists>wB1 dB1 m dA1 wA1 k req dA2 dB2 q wB2 dB3 resp limit dA3 r wA2.
      worker_turn FB (StoreRecv (StoreEvent (ProofStored i source))) wB = Finished wB1 (Inr ())
    \<and> sent wB1 = sent wB @ [Announce i]
    \<and> driver_round X EB (CommandInput t1 (Announce i)) dB =
        (dB1, [Net (Publish m), Reply t1 (UnitReply (Inr ()))], None)
    \<and> driver_round X EA (SwarmInput (Gossipsub (GossipMessage b mid (Some b) m))) dA =
        (dA1, [Net (ReportValidation mid b Accept), Event True (AvailabilityAnnounced b i)], None)
    \<and> worker_turn FA (DriverRecv (Some (AvailabilityAnnounced b i))) wA = Finished wA1 (Inr ())
    \<and> sent wA1 = sent wA @ [Providers i, RequestProof b i]
    \<and> driver_round X EA (CommandInput t2 (Providers i)) dA1 =
        (dA1, [Reply t2 (ProvidersReply (providers_reply FA (length (sent wA)) i))], None)
    \<and> driver_round X EA (CommandInput t3 (RequestProof b i)) dA1 =
        (dA2, [Net (SendRequest k b req), Reply t3 (RequestReply (request_reply FA (Suc (length (sent wA))) b i))], None)
    \<and> bind_res (write_request Mq (Inr ()) req) (read_request Mq) = Inr req
    \<and> driver_round X EB (SwarmInput (ProofExchange (ExchangeRequest a req ch))) dB1 =
        (dB2, [Event True (ProofRequested q a i)], None)
    \<and> worker_turn FB (DriverRecv (Some (ProofRequested q a i))) wB1 = Finished wB2 (Inr ())
    \<and> sent wB2 = sent wB1 @ [RespondProof q (Some p)]
    \<and> driver_round X EB (CommandInput t4 (RespondProof q (Some p))) dB2 =
        (dB3, [Net (SendResponse ch resp), Reply t4 (UnitReply (Inr ()))], None)
    \<and> max_response_bytes X mp cid = Inr limit
    \<and> bind_res (write_response M (Inr ()) resp limit) (\<lambda>io. read_response M io limit) = Inr resp
    \<and> driver_round X EA (SwarmInput (ProofExchange (ExchangeResponse b k resp))) dA2 =
        (dA3, [Event True (ProofReceived r b i p)], None)
    \<and> worker_turn FA (DriverRecv (Some (ProofReceived r b i p))) wA1 = Finished wA2 (Inr ())
    \<and> get_proof X (w_store wA2) i = Some p \<and> phase_of (entry (w_store wA2) i) = InState Queued
    \<and> published wA2 = published wA @ [ProofStored i (Peer b), VerificationChanged i Queued]
    \<and> retrievals wA2 = retrievals wA \<and> active_retrievals wA2 = active_retrievals wA
    \<and> outbound_requests dA3 = outbound_requests dA \<and> in_flight dA3 = in_flight dA
    \<and> inbound_requests dB3 = inbound_requests dB"
proof -
  have p: "verification_id X p = i" "in_memory p" "encoded_len X p \<le> max_proof_bytes (w_store wB)"
    using stored_content [OF stores(2,4)] by auto
  then have len: "encoded_len X p \<le> mp" "encoded_len X p \<le> max_proof_bytes (w_store wA)" using sizes(4,5) by auto
  obtain wB1 where B1: "worker_turn FB (StoreRecv (StoreEvent (ProofStored i source))) wB = Finished wB1 (Inr ())"
      "sent wB1 = sent wB @ [Announce i]" "w_store wB1 = w_store wB"
    using announce_turn [OF server(1)] replies(1) by blast
  let ?dB1 = "dB\<lparr>drv_availability := add_provider (drv_availability dB) i (local_peer_id dB)\<rparr>"
  let ?dA1 = "dA\<lparr>drv_availability := add_provider (drv_availability dA) i b\<rparr>"
  have l: "linked cid K mp EA ?dA1 b" "linked cid K mp EB ?dB1 a"
    using nodes(1,2) by (simp_all add: linked_def is_running_def)
  have "b \<in> set (providers (add_provider (drv_availability dA) i b) i)"
    using index_okD [OF asker(7), of i]
    by (cases "drv_availability dA i") (simp_all add: providers_def add_provider_def set_insort_key)
  then obtain wA1 st where A1: "worker_turn FA (DriverRecv (Some (AvailabilityAnnounced b i))) wA = Finished wA1 (Inr ())"
      "sent wA1 = sent wA @ [Providers i, RequestProof b i]" "w_store wA1 = w_store wA"
      "active_retrievals wA1 = Suc (active_retrievals wA)" "r_pending wA1 = []" "published wA1 = published wA"
      "retrievals wA1 = (retrievals wA)(i \<mapsto> st)" "active_request st = Some (next_proof_request_id dA, b)"
    using ask_turn [OF asker(1-3) awaiting_waits asker(4) replies(2) _ replies(3)] stores(1,3) nodes(3) by metis
  obtain k req dA2 dB2 q dB3 resp limit dA3 where E:
      "driver_round X EA (CommandInput t3 (RequestProof b i)) ?dA1 =
        (dA2, [Net (SendRequest k b req), Reply t3 (RequestReply (request_reply FA (Suc (length (sent wA))) b i))], None)"
      "bind_res (write_request Mq (Inr ()) req) (read_request Mq) = Inr req"
      "driver_round X EB (SwarmInput (ProofExchange (ExchangeRequest a req ch))) ?dB1 =
        (dB2, [Event True (ProofRequested q a i)], None)"
      "driver_round X EB (CommandInput t4 (RespondProof q (Some p))) dB2 =
        (dB3, [Net (SendResponse ch resp), Reply t4 (UnitReply (Inr ()))], None)"
      "max_response_bytes X mp cid = Inr limit"
      "bind_res (write_response M (Inr ()) resp limit) (\<lambda>io. read_response M io limit) = Inr resp"
      "driver_round X EA (SwarmInput (ProofExchange (ExchangeResponse b k resp))) dA2 =
        (dA3, [Event True (ProofReceived (next_proof_request_id dA) b i p)], None)"
      "outbound_requests dA3 = outbound_requests dA" "in_flight dA3 = in_flight dA"
      "inbound_requests dB3 = inbound_requests dB"
    using drivers_exchange [OF laws(1-4) messages l sizes(1-3) p(1,2) len(1), of t3 ch t4] asker(5,6) server(2) replies(3)
    by auto
  obtain wA2 where W: "worker_turn FA (DriverRecv (Some (ProofReceived (next_proof_request_id dA) b i p))) wA1 = Finished wA2 (Inr ())"
      "w_store wA2 = put_record (w_store wA) i
        (queue_if_ready (with_content p (Peer b) (w_now FA wA1) (the (entry (w_store wA) i))))"
      "published wA2 = published wA @ [ProofStored i (Peer b), VerificationChanged i Queued]"
      "retrievals wA2 = retrievals wA" "active_retrievals wA2 = active_retrievals wA"
    using download_turn [of FA wA1 i p st "next_proof_request_id dA" b] stores(1,3) nodes(3) p(1) len(2) A1 asker(1)
    by (auto simp: free_for_def fun_upd_idem)
  have stored: "get_proof X (w_store wA2) i = Some p" "phase_of (entry (w_store wA2) i) = InState Queued"
    using stores(3) moka_getD [of X] reachable_good [OF stores(1)]
    by (auto simp: W(2) get_proof_def put_record_def entry_def phase_of_def queue_if_ready_def with_content_def
        split: option.splits if_splits)
  have turn: "worker_turn FB (DriverRecv (Some (ProofRequested q a i))) wB1 = Finished (send (RespondProof q (Some p)) wB1) (Inr ())"
    using serve_turn [of FB wB1 q p i a] replies(1) stores(4) B1(3) nodes(4) by simp
  have sent: "sent (send (RespondProof q (Some p)) wB1) = sent wB1 @ [RespondProof q (Some p)]" by (simp add: send_def)
  have asked: "driver_round X EA (CommandInput t2 (Providers i)) ?dA1 =
      (?dA1, [Reply t2 (ProvidersReply (providers_reply FA (length (sent wA)) i))], None)"
    using providers_round [OF l(1)] replies(2) by simp
  note rounds = announce_round [OF nodes(2)] gossip_round [OF nodes(1) laws(5) sizes(3)] asked E
  show ?thesis by (intro exI conjI) (rule B1(1,2) A1(1,2) rounds turn sent W(1,3-5) stored)+
qed

definition demo_peer_driver :: driver where
  "demo_peer_driver = new_driver demo_p2p_config [2] ({[1], [2]} - {[2]}) {}"

definition demo_request_codec :: "get_proof_request \<Rightarrow> get_proof_request message_codec" where
  "demo_request_codec m =
     (let len = (\<lambda>r. text_field_len demo_store_externs (request_chain_id r) +
        text_field_len demo_store_externs (request_verification_id r))
      in \<lparr>message_len = len, encode_message = (\<lambda>r. replicate (len r) 0), decode_message = (\<lambda>_. Inr m)\<rparr>)"

lemma demo_request_codec_ok:
  "prost_request_len demo_store_externs (demo_request_codec m)" "prost_message (demo_request_codec m) m"
  by (simp_all add: prost_request_len_def prost_message_def demo_request_codec_def Let_def)

text \<open>The environment of the asking worker, with the peer first in line.\<close>

definition demo_asking_env :: "store_externs worker_env" where
  "demo_asking_env = demo_worker_env\<lparr>shuffle := (\<lambda>_ ps. filter (\<lambda>p. p \<noteq> [2]) ps @ filter (\<lambda>p. p = [2]) ps)\<rparr>"

lemma demo_draws: "draws demo_asking_env [2]"
proof -
  have "filter (\<lambda>p. p = x) ps \<noteq> [] \<and> last (filter (\<lambda>p. p = x) ps) = x" if "x \<in> set ps" for x and ps :: "peer_id list"
  proof -
    have "filter (\<lambda>p. p = x) ps \<noteq> []" using that by (simp add: filter_empty_conv)
    then show ?thesis using last_in_set [of "filter (\<lambda>p. p = x) ps"] by simp
  qed
  then show ?thesis by (auto simp: draws_def demo_asking_env_def)
qed


lemma demo_max_proof_bytes: "max_proof_bytes demo_queued = 100"
  by (simp add: demo_queued_def insert_local_proof_def insert_entry_def Let_def demo_id_def [symmetric]
      validate_proof_def demo_observed_records compute_eq(3) [OF demo_moka] queue_if_ready_def with_content_def)

lemma demo_linked:
  "linked ''pulsar'' demo_p2p_codec 1000 demo_net demo_driver [2]"
  "linked ''pulsar'' demo_p2p_codec 1000 demo_net demo_peer_driver [1]"
  by (simp_all add: linked_def demo_net_def demo_driver_def demo_peer_driver_def new_driver_def demo_p2p_config_def
      is_running_def)

theorem proof_travels_witness:
  "\<exists>r wA1 wA2.
     worker_turn demo_asking_env (DriverRecv (Some (AvailabilityAnnounced [2] demo_id)))
       (demo_worker\<lparr>w_store := demo_observed\<rparr>) = Finished wA1 (Inr ())
   \<and> worker_turn demo_asking_env (DriverRecv (Some (ProofReceived r [2] demo_id demo_proof))) wA1 = Finished wA2 (Inr ())
   \<and> get_proof demo_store_externs (w_store wA2) demo_id = Some demo_proof"
proof -
  let ?wA = "demo_worker\<lparr>w_store := demo_observed\<rparr>" and ?wB = "p2p_worker_new [2] demo_p2p_config demo_queued"
  have stores: "reachable_store demo_store_externs (w_store ?wA)" "reachable_store demo_store_externs (w_store ?wB)"
      "phase_of (entry (w_store ?wA) demo_id) = AwaitingContent"
      "get_proof demo_store_externs (w_store ?wB) demo_id = Some demo_proof"
    using demo_reach by (simp_all add: p2p_worker_new_def phase_of_def entry_def demo_observed_records get_proof_def
        moka_getD [OF demo_moka] demo_queued_records demo_record_def)
  have sizes: "1000 + length ''pulsar'' + 23 < usize_bound" "length ''pulsar'' \<le> 900" "length (as_bytes demo_id) = 32"
      "max_proof_bytes (w_store ?wB) \<le> 1000" "max_proof_bytes (w_store ?wB) \<le> max_proof_bytes (w_store ?wA)"
    by (simp_all add: usize_bound_def p2p_worker_new_def demo_max_proof_bytes demo_observed_records demo_id_len)
  have asker: "free_for demo_id ?wA" "[2] \<noteq> w_local_peer_id ?wA" "0 < provider_rounds demo_asking_env"
      "([2], demo_id) \<notin> in_flight demo_driver" "outbound_requests demo_driver (send_request_id demo_net) = None"
      "index_ok (drv_availability demo_driver)"
    by (simp_all add: free_for_def demo_worker_def p2p_worker_new_def send_def demo_p2p_config_def demo_asking_env_def
        demo_worker_env_def demo_driver_def new_driver_def index_ok_def)
  have server: "r_pending ?wB = []" "inbound_requests demo_peer_driver (next_inbound_request_id demo_peer_driver) = None"
      "\<forall>n c. unit_reply demo_worker_env n c = Inr ()"
    by (simp_all add: p2p_worker_new_def demo_peer_driver_def new_driver_def demo_worker_env_def)
  have replies: "providers_reply demo_asking_env (length (sent ?wA)) demo_id =
        Inr (providers (add_provider (drv_availability demo_driver) demo_id [2]) demo_id)"
      "request_reply demo_asking_env (Suc (length (sent ?wA))) [2] demo_id = Inr (next_proof_request_id demo_driver)"
      "w_externs demo_asking_env = demo_store_externs" "w_externs demo_worker_env = demo_store_externs"
    by (simp_all add: demo_asking_env_def demo_worker_env_def demo_driver_def new_driver_def providers_def add_provider_def)
  show ?thesis
    using proof_travels [OF demo_store_laws(1,3) demo_reply_codec_ok(1) demo_request_codec_ok(1) demo_p2p_codec_ok
        demo_reply_codec_ok(2) demo_request_codec_ok(2) demo_linked replies(3,4) sizes stores asker(1) demo_draws asker(2-6)
        server replies(1,2)]
    by blast
qed

end
