(* ===== verification/Sha256.thy ===== *)
theory Sha256
  imports Proof_Identity
begin

text \<open>
  SHA-256 as FIPS 180-4 defines it. The development takes the hash function as a parameter (the
  \<open>sha2\<close> crate); this instance of the parameter shows that the model of the verification ID
  computes the value the repository pins for the chain (\<open>src/proof.rs\<close>). Words of 32 bits
  are integers below \<open>2 ^ 32\<close>, so that the rewriter evaluates the rounds.
\<close>

section \<open>The compression function\<close>

text \<open>
  The constants are the first 32 bits of the fractional parts of the cube roots of the first 64 primes
  and of the square roots of the first eight. \<open>root_bits\<close> finds the bits of an integer root from the
  top; three bits are enough for the integer parts.
\<close>

definition first_primes :: "nat list" where
  "first_primes =
    [2, 3, 5, 7, 11, 13, 17, 19, 23, 29, 31, 37, 41, 43, 47, 53, 59, 61, 67, 71, 73, 79, 83, 89, 97, 101, 103,
     107, 109, 113, 127, 131, 137, 139, 149, 151, 157, 163, 167, 173, 179, 181, 191, 193, 197, 199, 211, 223, 227,
     229, 233, 239, 241, 251, 257, 263, 269, 271, 277, 281, 283, 293, 307, 311]"

primrec root_bits :: "nat \<Rightarrow> int \<Rightarrow> nat \<Rightarrow> int \<Rightarrow> int" where
  "root_bits e x 0 r = r"
| "root_bits e x (Suc b) r = root_bits e x b (if (r + 2 ^ b) ^ e \<le> x then r + 2 ^ b else r)"

definition root_fraction :: "nat \<Rightarrow> nat \<Rightarrow> int" where
  "root_fraction e n = take_bit 32 (root_bits e (int n * 2 ^ (32 * e)) 35 0)"

definition round_constants :: "int list" where
  "round_constants = map (root_fraction 3) first_primes"

definition initial_hash :: "int list" where
  "initial_hash = map (root_fraction 2) (take 8 first_primes)"

definition add32 :: "int \<Rightarrow> int \<Rightarrow> int" where
  "add32 a b = take_bit 32 (a + b)"

definition rotr :: "nat \<Rightarrow> int \<Rightarrow> int" where
  "rotr n x = drop_bit n x OR push_bit (32 - n) (take_bit n x)"

definition Ch :: "int \<Rightarrow> int \<Rightarrow> int \<Rightarrow> int" where
  "Ch x y z = (x AND y) XOR ((0xffffffff XOR x) AND z)"

definition Maj :: "int \<Rightarrow> int \<Rightarrow> int \<Rightarrow> int" where
  "Maj x y z = (x AND y) XOR (x AND z) XOR (y AND z)"

definition Sigma0 :: "int \<Rightarrow> int" where
  "Sigma0 x = rotr 2 x XOR rotr 13 x XOR rotr 22 x"

definition Sigma1 :: "int \<Rightarrow> int" where
  "Sigma1 x = rotr 6 x XOR rotr 11 x XOR rotr 25 x"

definition sigma0 :: "int \<Rightarrow> int" where
  "sigma0 x = rotr 7 x XOR rotr 18 x XOR drop_bit 3 x"

definition sigma1 :: "int \<Rightarrow> int" where
  "sigma1 x = rotr 17 x XOR rotr 19 x XOR drop_bit 10 x"

text \<open>The message schedule, from a window of the last sixteen words.\<close>

primrec schedule :: "nat \<Rightarrow> int list \<Rightarrow> int list" where
  "schedule 0 w = []"
| "schedule (Suc n) w =
     hd w # schedule n (tl w @ [add32 (add32 (sigma1 (w ! 14)) (w ! 9)) (add32 (sigma0 (w ! 1)) (w ! 0))])"

type_synonym hash_state = "int \<times> int \<times> int \<times> int \<times> int \<times> int \<times> int \<times> int"

fun hash_round :: "hash_state \<Rightarrow> int \<Rightarrow> int \<Rightarrow> hash_state" where
  "hash_round (a, b, c, d, e, f, g, h) k w =
     (let t1 = add32 (add32 (add32 h (Sigma1 e)) (add32 (Ch e f g) k)) w;
          t2 = add32 (Sigma0 a) (Maj a b c)
      in (add32 t1 t2, a, b, c, add32 d t1, e, f, g))"

fun hash_rounds :: "int list \<Rightarrow> int list \<Rightarrow> hash_state \<Rightarrow> hash_state" where
  "hash_rounds (k # ks) (w # ws) s = hash_rounds ks ws (hash_round s k w)"
| "hash_rounds _ _ s = s"

definition hash_state_of :: "int list \<Rightarrow> hash_state" where
  "hash_state_of h = (h ! 0, h ! 1, h ! 2, h ! 3, h ! 4, h ! 5, h ! 6, h ! 7)"

fun hash_words :: "hash_state \<Rightarrow> int list" where
  "hash_words (a, b, c, d, e, f, g, h) = [a, b, c, d, e, f, g, h]"

definition compress_block :: "int list \<Rightarrow> int list \<Rightarrow> int list \<Rightarrow> int list" where
  "compress_block ks h block =
     map2 add32 h (hash_words (hash_rounds ks (schedule 64 block) (hash_state_of h)))"

section \<open>Padding and output\<close>

definition be_word :: "bytes \<Rightarrow> int" where
  "be_word b = foldl (\<lambda>acc x. 256 * acc + uint x) 0 b"

definition word_bytes :: "int \<Rightarrow> bytes" where
  "word_bytes x = map (\<lambda>k. word_of_int (drop_bit k x)) [24, 16, 8, 0]"

definition padded :: "bytes \<Rightarrow> bytes" where
  "padded m =
     m @ 0x80 # replicate ((119 - length m mod 64) mod 64) 0 @
     word_bytes (int (8 * length m) div 2 ^ 32) @ word_bytes (int (8 * length m))"

function digest_blocks :: "int list \<Rightarrow> int list \<Rightarrow> int list \<Rightarrow> int list" where
  "digest_blocks ks h ws = (if ws = [] then h else digest_blocks ks (compress_block ks h (take 16 ws)) (drop 16 ws))"
  by pat_completeness auto

termination
  by (relation "measure (\<lambda>(ks, h, ws). length ws)") auto

declare digest_blocks.simps [simp del]

fun be_words :: "bytes \<Rightarrow> int list" where
  "be_words (a # b # c # d # r) = be_word [a, b, c, d] # be_words r"
| "be_words _ = []"

definition sha256_digest :: "bytes \<Rightarrow> bytes" where
  "sha256_digest m = concat (map word_bytes (digest_blocks round_constants initial_hash (be_words (padded m))))"

text \<open>The root that the search finds: the largest integer whose power stays within \<open>x\<close>.\<close>

lemma root_bits_correct:
  assumes "0 \<le> r" "r ^ e \<le> x" "x < (r + 2 ^ b) ^ e"
  shows "root_bits e x b r ^ e \<le> x \<and> x < (root_bits e x b r + 1) ^ e"
  using assms
proof (induction b arbitrary: r)
  case (Suc b)
  have "r + 2 ^ Suc b = (r + 2 ^ b) + 2 ^ b" by simp
  then show ?case using Suc.IH [of r] Suc.IH [of "r + 2 ^ b"] Suc.prems by (simp only: root_bits.simps) (simp split: if_split)
qed simp

lemma root_bits_numeral:
  "root_bits e x (numeral n) r =
     root_bits e x (pred_numeral n) (if (r + 2 ^ pred_numeral n) ^ e \<le> x then r + 2 ^ pred_numeral n else r)"
  by (simp add: numeral_eq_Suc)

lemma initial_hash_length: "length initial_hash = 8"
  by (simp add: initial_hash_def first_primes_def)

lemma schedule_numeral:
  "schedule (numeral n) w =
     hd w # schedule (pred_numeral n)
       (tl w @ [add32 (add32 (sigma1 (w ! 14)) (w ! 9)) (add32 (sigma0 (w ! 1)) (w ! 0))])"
  by (simp add: numeral_eq_Suc)

lemmas hash_defs = add32_def rotr_def Ch_def Maj_def Sigma0_def Sigma1_def sigma0_def sigma1_def

text \<open>The three blocks of the message whose hash is pinned, and its hash.\<close>

definition vector_block1 :: "int list" where
  "vector_block1 =
    [0x70756c73, 0x61722f76, 0x65726966, 0x69636174, 0x696f6e2f, 0x76310000, 0x00000101, 0x01010101,
     0x01010101, 0x01010101, 0x01010101, 0x01010101, 0x01010101, 0x01010101, 0x01010102, 0x02020202]"

definition vector_block2 :: "int list" where
  "vector_block2 =
    [0x02020202, 0x02020202, 0x02020202, 0x02020202, 0x02020202, 0x02020202, 0x02020203, 0x03030303,
     0x03030303, 0x03030303, 0x03030303, 0x03030303, 0x03030303, 0x03030303, 0x03030380, 0x00000000]"

definition vector_block3 :: "int list" where
  "vector_block3 =
    [0x00000000, 0x00000000, 0x00000000, 0x00000000, 0x00000000, 0x00000000, 0x00000000, 0x00000000,
     0x00000000, 0x00000000, 0x00000000, 0x00000000, 0x00000000, 0x00000000, 0x00000000, 0x000003d8]"

definition vector_hash :: "int list" where
  "vector_hash =
    [0xd2548149, 0xa7d66265, 0x7a2a4b4a, 0x15b18f6f, 0x49fd85c1, 0x14f6958c, 0x4db423ed, 0xb4bd3e35]"

text \<open>The constants are an argument of the fold, so that they are evaluated once.\<close>

lemma vector_compress:
  "foldl (compress_block round_constants) initial_hash [vector_block1, vector_block2, vector_block3] = vector_hash"
  by (simp add: compress_block_def round_constants_def initial_hash_def first_primes_def root_fraction_def root_bits_numeral
      hash_state_of_def hash_defs schedule_numeral vector_block1_def vector_block2_def vector_block3_def vector_hash_def)

lemma vector_words:
  "be_words (padded (id_preimage MinaPickles (replicate 32 1) (replicate 32 2) (replicate 32 3))) =
     vector_block1 @ vector_block2 @ vector_block3"
  by (simp add: padded_def id_preimage_def VERIFICATION_ID_DOMAIN_def ascii_def u32_to_be_bytes_def
      proof_type_to_u32_def word_bytes_def be_word_def vector_block1_def vector_block2_def vector_block3_def
      replicate_numeral)

section \<open>The instance\<close>

lemma hash_words_length [simp]: "length (hash_words s) = 8"
  by (cases s rule: hash_words.cases) simp

lemma compress_block_length: "length h = 8 \<Longrightarrow> length (compress_block ks h block) = 8"
  by (simp add: compress_block_def)

lemma digest_blocks_length: "length h = 8 \<Longrightarrow> length (digest_blocks ks h ws) = 8"
proof (induction ks h ws rule: digest_blocks.induct)
  case (1 ks h ws)
  then show ?case by (subst digest_blocks.simps) (simp add: compress_block_length)
qed

lemma sha256_digest_length: "length (sha256_digest m) = 32"
proof -
  have "length (concat (map word_bytes ws)) = 4 * length ws" for ws by (induction ws) (simp_all add: word_bytes_def)
  then show ?thesis by (simp add: sha256_digest_def digest_blocks_length initial_hash_length)
qed

text \<open>The externs of the model with the hash of the standard.\<close>

definition sha256_externs :: externs where
  "sha256_externs = demo_externs\<lparr>sha256 := sha256_digest\<rparr>"

lemma sha256_externs_len: "sha256_len sha256_externs"
  by (simp add: sha256_len_def sha256_externs_def sha256_digest_length)

text \<open>The value the repository pins (\<open>matches_chain_verification_id_vector\<close>).\<close>

definition matches_chain_verification_id_vector :: "'x externs_scheme \<Rightarrow> bool" where
  "matches_chain_verification_id_vector X \<longleftrightarrow>
     (let i = from_component_hashes X MinaPickles (replicate 32 1) (replicate 32 2) (replicate 32 3)
      in display_id X i = ''d2548149a7d662657a2a4b4a15b18f6f49fd85c114f6958c4db423edb4bd3e35'')"

lemma three_blocks:
  assumes "length b1 = 16" "length b2 = 16" "length b3 = 16"
  shows "digest_blocks ks h (b1 @ b2 @ b3) = foldl (compress_block ks) h [b1, b2, b3]"
proof -
  have "b1 \<noteq> []" "b2 \<noteq> []" "b3 \<noteq> []" using assms by auto
  moreover have "digest_blocks ks h' [] = h'" for h' by (subst digest_blocks.simps) simp
  moreover have "digest_blocks ks h' b3 = digest_blocks ks (compress_block ks h' b3) []" for h'
    using assms(3) \<open>b3 \<noteq> []\<close> by (subst digest_blocks.simps) simp
  moreover have "digest_blocks ks h' (b2 @ b3) = digest_blocks ks (compress_block ks h' b2) b3" for h'
    using assms(2) \<open>b2 \<noteq> []\<close> by (subst digest_blocks.simps) simp
  ultimately show ?thesis using assms(1) by (subst digest_blocks.simps) simp
qed

lemma vector_digest:
  "digest_blocks round_constants initial_hash (vector_block1 @ vector_block2 @ vector_block3) = vector_hash"
  unfolding vector_compress [symmetric] by (rule three_blocks) (simp_all add: vector_block1_def vector_block2_def vector_block3_def)

lemma chain_vector: "matches_chain_verification_id_vector sha256_externs"
  by (simp add: matches_chain_verification_id_vector_def display_id_def from_component_hashes_def sha256_externs_def
      sha256_digest_def vector_words vector_digest demo_hex_def vector_hash_def word_bytes_def Let_def)

end
