(* ===== verification/Tests_Config.thy ===== *)
theory Tests_Config
  imports Config
begin

text \<open>
  The unit tests of \<open>src/config.rs\<close>, run on the model. The text of a test file stands for the
  values that serde reads from it: the defaults of every section with the keys the file sets.
  The tests hold for every HTTP client that accepts the default URL and every multiaddr parser
  that accepts the address the tests use. The test on unknown keys is about serde alone.
\<close>

section \<open>Test files\<close>

definition test_file :: "path \<Rightarrow> nat \<Rightarrow> file_config" where
  "test_file socket secs =
     \<lparr>file_runtime = \<lparr>file_control_socket = socket, shutdown_timeout_secs = secs\<rparr>,
      file_chain = file_chain_default, file_listener = file_listener_default,
      file_proof_store = file_proof_store_default, file_p2p = file_p2p_default,
      file_verification = file_verification_default, file_rpc = file_rpc_default,
      file_submission = file_submission_default\<rparr>"

definition load_file :: "config_externs \<Rightarrow> file_config \<Rightarrow> config res" where
  "load_file E f = from_file (E\<lparr>toml_from_str := (\<lambda>_. Inr f)\<rparr>) ''test.toml'' (Inr [])"

definition invalid_config :: "config res \<Rightarrow> bool" where
  "invalid_config r \<longleftrightarrow> (case r of Inl (InvalidConfig _) \<Rightarrow> True | _ \<Rightarrow> False)"

definition text_contains :: "string \<Rightarrow> string \<Rightarrow> bool" where
  "text_contains s part \<longleftrightarrow> list_ex (\<lambda>k. starts_with (drop k s) part) [0..<Suc (length s)]"

definition invalid_config_with :: "string \<Rightarrow> config res \<Rightarrow> bool" where
  "invalid_config_with part r \<longleftrightarrow> (case r of Inl (InvalidConfig m) \<Rightarrow> text_contains m part | _ \<Rightarrow> False)"

definition with_chain :: "file_config \<Rightarrow> file_config" where
  "with_chain f = f\<lparr>file_chain := file_chain_default\<lparr>file_chain_id := ''pulsar-test''\<rparr>\<rparr>"

definition with_listener :: "file_config \<Rightarrow> file_config" where
  "with_listener f = f\<lparr>file_listener := file_listener_default\<lparr>file_listener_enabled := True\<rparr>\<rparr>"

definition with_rpc :: "string \<Rightarrow> file_config \<Rightarrow> file_config" where
  "with_rpc address f = f\<lparr>file_rpc := \<lparr>file_rpc_enabled = True, file_rpc_listen_address = address\<rparr>\<rparr>"

definition enabled_p2p :: file_p2p_config where
  "enabled_p2p = file_p2p_default\<lparr>file_p2p_enabled := True,
     file_listen_addresses := [''/ip4/0.0.0.0/tcp/39000''],
     file_validator_key_path := ''/tmp/priv_validator_key.json''\<rparr>"

definition enabled_submission :: file_submission_config where
  "enabled_submission = file_submission_default\<lparr>file_submission_enabled := True\<rparr>"

section \<open>Tests\<close>

definition loads_valid_config :: "config_externs \<Rightarrow> bool" where
  "loads_valid_config E \<longleftrightarrow>
     (case load_file E (test_file ''/tmp/pulsar-verifier-test.sock'' 7) of
        Inl _ \<Rightarrow> False
      | Inr c \<Rightarrow>
          control_socket (cfg_runtime c) = ''/tmp/pulsar-verifier-test.sock''
          \<and> shutdown_timeout (cfg_runtime c) = from_secs 7
          \<and> max_capacity_bytes (cfg_proof_store c) = 512 * 1024 * 1024
          \<and> config_max_proof_bytes (cfg_proof_store c) = 8 * 1024 * 1024
          \<and> terminal_retention (cfg_proof_store c) = from_secs 900
          \<and> \<not> p2p_enabled (cfg_p2p c)
          \<and> max_concurrent_retrievals (cfg_p2p c) = 16
          \<and> retrieval_timeout (cfg_p2p c) = from_secs 30
          \<and> retrieval_initial_backoff (cfg_p2p c) = from_millis 250
          \<and> retrieval_max_backoff (cfg_p2p c) = from_secs 2
          \<and> max_concurrent_jobs (cfg_verification c) = 2
          \<and> job_timeout (cfg_verification c) = from_secs 30
          \<and> max_retries (cfg_verification c) = 2
          \<and> retry_backoff (cfg_verification c) = from_millis 250
          \<and> \<not> rpc_enabled (cfg_rpc c)
          \<and> Some (rpc_listen_address (cfg_rpc c)) = parse_socket_addr ''127.0.0.1:50051''
          \<and> \<not> submission_enabled (cfg_submission c)
          \<and> Some (submission_listen_address (cfg_submission c)) = parse_socket_addr ''127.0.0.1:50052''
          \<and> max_transaction_bytes (cfg_submission c) = 1024 * 1024
          \<and> max_concurrent_requests (cfg_submission c) = 16)"

definition rejects_relative_socket_path :: "config_externs \<Rightarrow> bool" where
  "rejects_relative_socket_path E \<longleftrightarrow> invalid_config (load_file E (test_file ''run/control.sock'' 10))"

definition rejects_zero_timeout :: "config_externs \<Rightarrow> bool" where
  "rejects_zero_timeout E \<longleftrightarrow> invalid_config (load_file E (test_file ''/tmp/control.sock'' 0))"

text \<open>Reading a file that does not exist is an error of the operating system.\<close>

definition reports_missing_file :: "config_externs \<Rightarrow> io_error \<Rightarrow> bool" where
  "reports_missing_file E e \<longleftrightarrow>
     (case from_file E ''/definitely/missing/pulsar-verifier.toml'' (Inl e) of
        Inl (ConfigRead _ _) \<Rightarrow> True | _ \<Rightarrow> False)"

definition loads_enabled_p2p_config :: "config_externs \<Rightarrow> bool" where
  "loads_enabled_p2p_config E \<longleftrightarrow>
     (case load_file E ((with_listener (with_chain (test_file ''/tmp/control.sock'' 15)))\<lparr>file_p2p := enabled_p2p\<rparr>) of
        Inl _ \<Rightarrow> False
      | Inr c \<Rightarrow> p2p_enabled (cfg_p2p c) \<and> p2p_chain_id (cfg_p2p c) = ''pulsar-test''
          \<and> p2p_max_proof_bytes (cfg_p2p c) = 8 * 1024 * 1024 \<and> max_concurrent_retrievals (cfg_p2p c) = 16)"

definition rejects_p2p_request_timeout_without_shutdown_margin :: "config_externs \<Rightarrow> bool" where
  "rejects_p2p_request_timeout_without_shutdown_margin E \<longleftrightarrow>
     invalid_config_with ''shutdown_timeout_secs must be greater''
       (load_file E ((with_listener (with_chain (test_file ''/tmp/control.sock'' 10)))
          \<lparr>file_p2p := enabled_p2p\<lparr>proof_request_timeout_secs := 10\<rparr>\<rparr>))"

definition rejects_invalid_p2p_retrieval_limits :: "config_externs \<Rightarrow> bool" where
  "rejects_invalid_p2p_retrieval_limits E \<longleftrightarrow>
     list_all (\<lambda>settings. invalid_config (load_file E ((test_file ''/tmp/control.sock'' 15)\<lparr>file_p2p := settings\<rparr>)))
       [file_p2p_default\<lparr>file_max_concurrent_retrievals := 0\<rparr>,
        file_p2p_default\<lparr>file_max_concurrent_retrievals := 257\<rparr>,
        file_p2p_default\<lparr>retrieval_timeout_secs := 0\<rparr>,
        file_p2p_default\<lparr>retrieval_initial_backoff_millis := 0\<rparr>,
        file_p2p_default\<lparr>retrieval_max_backoff_secs := 0\<rparr>,
        file_p2p_default\<lparr>retrieval_initial_backoff_millis := 3000, retrieval_max_backoff_secs := 2\<rparr>,
        file_p2p_default\<lparr>retrieval_timeout_secs := 30, retrieval_max_backoff_secs := 31\<rparr>,
        file_p2p_default\<lparr>proof_request_timeout_secs := 10, retrieval_timeout_secs := 10\<rparr>]"

definition rejects_enabled_p2p_without_chain_id :: "config_externs \<Rightarrow> bool" where
  "rejects_enabled_p2p_without_chain_id E \<longleftrightarrow>
     invalid_config (load_file E ((with_listener (test_file ''/tmp/control.sock'' 10))\<lparr>file_p2p := enabled_p2p\<rparr>))"

definition listener_requires_valid_chain_and_reconnect_policy :: "config_externs \<Rightarrow> bool" where
  "listener_requires_valid_chain_and_reconnect_policy E \<longleftrightarrow>
     (let base = with_listener (test_file ''/tmp/control.sock'' 10) in
      list_all (\<lambda>f. invalid_config (load_file E f))
        [base,
         base\<lparr>file_chain := file_chain_default\<lparr>file_chain_id := ''pulsar-test'',
           file_comet_rpc_url := ''ftp://127.0.0.1:26657''\<rparr>\<rparr>,
         (with_chain base)\<lparr>file_listener := \<lparr>file_listener_enabled = True,
           reconnect_initial_backoff_millis = 31000, reconnect_max_backoff_secs = 30\<rparr>\<rparr>])"

definition enabled_p2p_requires_listener :: "config_externs \<Rightarrow> bool" where
  "enabled_p2p_requires_listener E \<longleftrightarrow>
     invalid_config_with ''listener.enabled''
       (load_file E ((with_chain (test_file ''/tmp/control.sock'' 15))\<lparr>file_p2p := enabled_p2p\<rparr>))"

definition rejects_invalid_proof_store_limits :: "config_externs \<Rightarrow> bool" where
  "rejects_invalid_proof_store_limits E \<longleftrightarrow>
     invalid_config (load_file E ((test_file ''/tmp/control.sock'' 10)\<lparr>file_proof_store :=
       file_proof_store_default\<lparr>file_max_capacity_bytes := 1024, file_max_proof_bytes := 2048\<rparr>\<rparr>))"

definition rejects_invalid_verification_limits :: "config_externs \<Rightarrow> bool" where
  "rejects_invalid_verification_limits E \<longleftrightarrow>
     list_all (\<lambda>v. invalid_config (load_file E ((test_file ''/tmp/control.sock'' 10)\<lparr>file_verification := v\<rparr>)))
       [file_verification_default\<lparr>file_max_concurrent_jobs := 0\<rparr>,
        file_verification_default\<lparr>file_max_concurrent_jobs := 257\<rparr>,
        file_verification_default\<lparr>job_timeout_secs := 0\<rparr>,
        file_verification_default\<lparr>file_max_retries := 11\<rparr>,
        file_verification_default\<lparr>file_max_retries := 1, retry_backoff_millis := 0\<rparr>]"

definition loads_disabled_noir_defaults :: "config_externs \<Rightarrow> bool" where
  "loads_disabled_noir_defaults E \<longleftrightarrow>
     (case load_file E (test_file ''/tmp/control.sock'' 10) of
        Inl _ \<Rightarrow> False
      | Inr c \<Rightarrow> \<not> noir_enabled (cfg_noir c) \<and> threads_per_job (cfg_noir c) = 1)"

definition validates_enabled_noir_paths_and_thread_count :: "config_externs \<Rightarrow> bool" where
  "validates_enabled_noir_paths_and_thread_count E \<longleftrightarrow>
     list_all (\<lambda>n. invalid_config (load_file E ((test_file ''/tmp/control.sock'' 10)
         \<lparr>file_verification := file_verification_default\<lparr>file_noir := n\<rparr>\<rparr>)))
       [file_noir_default\<lparr>file_noir_enabled := True, file_binary_path := ''bb'', file_home_directory := ''/tmp/bb-home''\<rparr>,
        file_noir_default\<lparr>file_noir_enabled := True, file_binary_path := ''/tmp/bb'', file_home_directory := ''bb-home''\<rparr>,
        file_noir_default\<lparr>file_threads_per_job := 0\<rparr>,
        file_noir_default\<lparr>file_threads_per_job := 257\<rparr>]"

definition loads_enabled_loopback_rpc :: "config_externs \<Rightarrow> bool" where
  "loads_enabled_loopback_rpc E \<longleftrightarrow>
     (case load_file E (with_rpc ''[::1]:50051'' (test_file ''/tmp/control.sock'' 10)) of
        Inl _ \<Rightarrow> False
      | Inr c \<Rightarrow> rpc_enabled (cfg_rpc c) \<and> is_loopback (addr_ip (rpc_listen_address (cfg_rpc c))))"

definition rejects_unsafe_or_malformed_rpc_addresses :: "config_externs \<Rightarrow> bool" where
  "rejects_unsafe_or_malformed_rpc_addresses E \<longleftrightarrow>
     list_all (\<lambda>address. invalid_config (load_file E (with_rpc address (test_file ''/tmp/control.sock'' 10))))
       [''0.0.0.0:50051'', ''192.168.1.10:50051'', ''127.0.0.1:0'', ''localhost:50051'', ''127.0.0.1'']"

definition loads_enabled_submission_with_required_services :: "config_externs \<Rightarrow> bool" where
  "loads_enabled_submission_with_required_services E \<longleftrightarrow>
     (case load_file E ((with_rpc ''127.0.0.1:50051'' (with_listener (with_chain (test_file ''/tmp/control.sock'' 15))))
        \<lparr>file_submission := \<lparr>file_submission_enabled = True, file_submission_listen_address = ''127.0.0.1:50052'',
           file_max_transaction_bytes = 2048, file_max_concurrent_requests = 4\<rparr>\<rparr>) of
        Inl _ \<Rightarrow> False
      | Inr c \<Rightarrow> submission_enabled (cfg_submission c) \<and> max_transaction_bytes (cfg_submission c) = 2048
          \<and> max_concurrent_requests (cfg_submission c) = 4)"

definition rejects_unsafe_or_incomplete_submission_config :: "config_externs \<Rightarrow> bool" where
  "rejects_unsafe_or_incomplete_submission_config E \<longleftrightarrow>
     (let base = test_file ''/tmp/control.sock'' 15;
          full = with_rpc ''127.0.0.1:50051'' (with_listener (with_chain base)) in
      list_all (\<lambda>f. invalid_config (load_file E (f\<lparr>file_submission := enabled_submission\<rparr>)))
        [base, with_chain base, with_listener (with_chain base)]
      \<and> list_all (\<lambda>address. invalid_config (load_file E (full\<lparr>file_submission :=
            enabled_submission\<lparr>file_submission_listen_address := address\<rparr>\<rparr>)))
          [''0.0.0.0:50052'', ''10.0.0.1:50052'', ''127.0.0.1:0'']
      \<and> list_all (\<lambda>settings. invalid_config (load_file E (full\<lparr>file_submission := settings\<rparr>)))
          [enabled_submission\<lparr>file_submission_listen_address := ''127.0.0.1:50051''\<rparr>,
           enabled_submission\<lparr>file_max_transaction_bytes := 0\<rparr>,
           enabled_submission\<lparr>file_max_transaction_bytes := 16777217\<rparr>,
           enabled_submission\<lparr>file_max_concurrent_requests := 0\<rparr>,
           enabled_submission\<lparr>file_max_concurrent_requests := 65\<rparr>])"

definition submission_requires_shutdown_margin_for_chain_relay :: "config_externs \<Rightarrow> bool" where
  "submission_requires_shutdown_margin_for_chain_relay E \<longleftrightarrow>
     invalid_config_with ''chain.request_timeout_secs''
       (load_file E ((with_rpc ''127.0.0.1:50051'' (with_listener (test_file ''/tmp/control.sock'' 5)))
          \<lparr>file_chain := file_chain_default\<lparr>file_chain_id := ''pulsar-test'', request_timeout_secs := 5\<rparr>,
           file_submission := enabled_submission\<rparr>))"

section \<open>Their results\<close>

definition accepts_test_addresses :: "config_externs \<Rightarrow> bool" where
  "accepts_test_addresses E \<longleftrightarrow>
     http_client_new E ''http://127.0.0.1:26657'' = Inr () \<and> is_ok (parse_multiaddr E ''/ip4/0.0.0.0/tcp/39000'')"

lemma read_groups_numeral:
  "read_groups (numeral n) i s =
     (case (if 0 < pred_numeral n then read_separator CHR '':'' i read_ipv4_addr s else None) of
        Some (v4, r) \<Rightarrow> ([v4 ! 0 * 256 + v4 ! 1, v4 ! 2 * 256 + v4 ! 3], True, r)
      | None \<Rightarrow>
          (case read_separator CHR '':'' i (read_number 16 (Some 4) True 65536) s of
             None \<Rightarrow> ([], False, s)
           | Some (g, r) \<Rightarrow>
               (case read_groups (pred_numeral n) (Suc i) r of (gs, v4, r') \<Rightarrow> (g # gs, v4, r'))))"
  by (simp add: numeral_eq_Suc)

lemma test_addresses:
  "parse_socket_addr ''0.0.0.0:50051'' = Some (SocketAddr (IpV4 [0, 0, 0, 0]) 50051)"
  "parse_socket_addr ''192.168.1.10:50051'' = Some (SocketAddr (IpV4 [192, 168, 1, 10]) 50051)"
  "parse_socket_addr ''127.0.0.1:0'' = Some (SocketAddr (IpV4 [127, 0, 0, 1]) 0)"
  "parse_socket_addr ''localhost:50051'' = None"
  "parse_socket_addr ''127.0.0.1'' = None"
  "parse_socket_addr ''0.0.0.0:50052'' = Some (SocketAddr (IpV4 [0, 0, 0, 0]) 50052)"
  "parse_socket_addr ''10.0.0.1:50052'' = Some (SocketAddr (IpV4 [10, 0, 0, 1]) 50052)"
  by (simp_all add: addr_eval read_socket_addr_v6_def)

lemma test_loopback6: "parse_socket_addr ''[::1]:50051'' = Some (SocketAddr (IpV6 [0, 0, 0, 0, 0, 0, 0, 1]) 50051)"
  by (simp add: addr_eval read_socket_addr_v6_def read_ipv6_addr_def read_scope_id_def read_groups_numeral replicate_numeral)

lemmas config_run = load_file_def from_file_def test_file_def with_chain_def with_listener_def with_rpc_def enabled_p2p_def
  enabled_submission_def validate_proof_store_def file_proof_store_default_def validate_listener_def
  file_listener_default_def validate_rpc_def file_rpc_default_def validate_loopback_address_def is_loopback_def
  validate_submission_config_def file_submission_default_def validate_chain_def file_chain_default_def
  validate_p2p_def file_p2p_default_def validate_verification_def file_verification_default_def file_noir_default_def
  parse_multiaddrs_def cross_checks_def from_millis_def from_secs_def is_absolute_def starts_with_def
  test_addresses test_loopback6 invalid_config_def accepts_test_addresses_def Let_def

lemma trim_test [simp]: "trim [] = []" "trim ''pulsar-test'' = ''pulsar-test''"
  by code_simp+

lemma rejects_relative_socket_path: "rejects_relative_socket_path E"
  by (simp add: rejects_relative_socket_path_def config_run)

lemma rejects_zero_timeout: "rejects_zero_timeout E"
  by (simp add: rejects_zero_timeout_def config_run)

lemma reports_missing_file: "reports_missing_file E e"
  by (simp add: reports_missing_file_def from_file_def)

lemma rejects_invalid_proof_store_limits: "rejects_invalid_proof_store_limits E"
  by (simp add: rejects_invalid_proof_store_limits_def config_run)

lemma loads_valid_config: "accepts_test_addresses E \<Longrightarrow> loads_valid_config E"
  by (simp add: loads_valid_config_def config_run)

lemma loads_enabled_p2p_config: "accepts_test_addresses E \<Longrightarrow> loads_enabled_p2p_config E"
  by (auto simp: loads_enabled_p2p_config_def config_run is_ok_def split: sum.splits)

lemma rejects_p2p_request_timeout_without_shutdown_margin:
  "accepts_test_addresses E \<Longrightarrow> rejects_p2p_request_timeout_without_shutdown_margin E"
  by (auto simp: rejects_p2p_request_timeout_without_shutdown_margin_def config_run is_ok_def invalid_config_with_def
      text_contains_def upt_rec split: sum.splits)

lemma rejects_invalid_p2p_retrieval_limits:
  "accepts_test_addresses E \<Longrightarrow> rejects_invalid_p2p_retrieval_limits E"
  by (simp add: rejects_invalid_p2p_retrieval_limits_def config_run)

lemma rejects_enabled_p2p_without_chain_id: "rejects_enabled_p2p_without_chain_id E"
  by (simp add: rejects_enabled_p2p_without_chain_id_def config_run)

lemma listener_requires_valid_chain_and_reconnect_policy: "listener_requires_valid_chain_and_reconnect_policy E"
  by (simp add: listener_requires_valid_chain_and_reconnect_policy_def config_run)

lemma enabled_p2p_requires_listener: "accepts_test_addresses E \<Longrightarrow> enabled_p2p_requires_listener E"
  by (auto simp: enabled_p2p_requires_listener_def config_run is_ok_def invalid_config_with_def
      text_contains_def upt_rec split: sum.splits)

lemma rejects_invalid_verification_limits: "accepts_test_addresses E \<Longrightarrow> rejects_invalid_verification_limits E"
  by (simp add: rejects_invalid_verification_limits_def config_run)

lemma loads_disabled_noir_defaults: "accepts_test_addresses E \<Longrightarrow> loads_disabled_noir_defaults E"
  by (simp add: loads_disabled_noir_defaults_def config_run)

lemma validates_enabled_noir_paths_and_thread_count:
  "accepts_test_addresses E \<Longrightarrow> validates_enabled_noir_paths_and_thread_count E"
  by (simp add: validates_enabled_noir_paths_and_thread_count_def config_run)

lemma loads_enabled_loopback_rpc: "accepts_test_addresses E \<Longrightarrow> loads_enabled_loopback_rpc E"
  by (simp add: loads_enabled_loopback_rpc_def config_run)

lemma rejects_unsafe_or_malformed_rpc_addresses:
  "accepts_test_addresses E \<Longrightarrow> rejects_unsafe_or_malformed_rpc_addresses E"
  by (simp add: rejects_unsafe_or_malformed_rpc_addresses_def config_run)

lemma loads_enabled_submission_with_required_services:
  "accepts_test_addresses E \<Longrightarrow> loads_enabled_submission_with_required_services E"
  by (simp add: loads_enabled_submission_with_required_services_def config_run)

lemma rejects_unsafe_or_incomplete_submission_config:
  "accepts_test_addresses E \<Longrightarrow> rejects_unsafe_or_incomplete_submission_config E"
  by (simp add: rejects_unsafe_or_incomplete_submission_config_def config_run)

lemma submission_requires_shutdown_margin_for_chain_relay:
  "accepts_test_addresses E \<Longrightarrow> submission_requires_shutdown_margin_for_chain_relay E"
  by (simp add: submission_requires_shutdown_margin_for_chain_relay_def config_run invalid_config_with_def
      text_contains_def upt_rec)

lemma test_addresses_accepted: "accepts_test_addresses demo_config_externs"
  by (simp add: accepts_test_addresses_def demo_config_externs_def)

end
