(* ===== verification/Tests_Store.thy ===== *)
theory Tests_Store
  imports Store_Lifecycle
begin

text \<open>
  The unit tests of \<open>src/proof.rs\<close>, \<open>src/store/record.rs\<close> and \<open>src/store/mod.rs\<close>, run on the
  model: each test is a predicate with the calls and the assertions of its body, and the lemma of the
  same name shows that it holds. A test holds for every cache with the documented behaviour and
  every hash function that gives the identifiers of its proofs different values.
\<close>

section \<open>Identity of proofs\<close>

definition identity_proof :: zk_proof where
  "identity_proof = \<lparr>proof_type = MinaPickles, proof_bytes = ascii ''proof'',
     public_inputs = ascii ''public-inputs'', verification_key = ascii ''verification-key''\<rparr>"

definition every_proof_component_changes_the_id :: "'x externs_scheme \<Rightarrow> bool" where
  "every_proof_component_changes_the_id X \<longleftrightarrow>
     (let original = identity_proof; i = verification_id X original;
          c1 = original\<lparr>proof_bytes := ascii ''other-proof''\<rparr>;
          c2 = original\<lparr>public_inputs := ascii ''other-inputs''\<rparr>;
          c3 = original\<lparr>verification_key := ascii ''other-key''\<rparr>;
          c4 = c3\<lparr>proof_type := NoirBarretenberg\<rparr>
      in verification_id X c1 \<noteq> i \<and> verification_id X c2 \<noteq> i \<and> verification_id X c3 \<noteq> i
         \<and> verification_id X c4 \<noteq> i)"

definition wire_round_trip_preserves_complete_proof :: "'x externs_scheme \<Rightarrow> bool" where
  "wire_round_trip_preserves_complete_proof X \<longleftrightarrow>
     (let original = identity_proof; wire = proof_to_wire original
      in encoded_len X original = wire_proof_encoded_len X wire \<and> proof_from_wire wire = Inr original)"

definition rejects_invalid_ids_and_proof_types :: bool where
  "rejects_invalid_ids_and_proof_types \<longleftrightarrow>
     (case verification_id_try_from (replicate 31 0) of Inl (InvalidVerificationId _) \<Rightarrow> True | _ \<Rightarrow> False)
     \<and> proof_type_try_from 0 = Inl (UnsupportedProofType 0)
     \<and> proof_type_try_from 99 = Inl (UnsupportedProofType 99)"

text \<open>The hash has no collision among the messages of the proofs.\<close>

definition collision_free :: "'x externs_scheme \<Rightarrow> zk_proof list \<Rightarrow> bool" where
  "collision_free X ps \<longleftrightarrow> inj_on (sha256 X) (\<Union>p \<in> set ps. hashed_messages X p)"

lemma distinct_ids:
  assumes "sha256_len X" "collision_free X ps" "p \<in> set ps" "q \<in> set ps" "p \<noteq> q"
  shows "verification_id X p \<noteq> verification_id X q"
proof
  assume eq: "verification_id X p = verification_id X q"
  have inj: "m = m'" if "sha256 X m = sha256 X m'" "m \<in> hashed_messages X p" "m' \<in> hashed_messages X q" for m m'
    using assms(2) unfolding collision_free_def
    by (rule inj_onD) (use assms(3,4) that in auto)
  have "id_preimage (proof_type p) (sha256 X (proof_bytes p)) (sha256 X (public_inputs p)) (sha256 X (verification_key p))
      = id_preimage (proof_type q) (sha256 X (proof_bytes q)) (sha256 X (public_inputs q)) (sha256 X (verification_key q))"
    (is "?m = ?m'")
  proof (rule inj)
    show "sha256 X ?m = sha256 X ?m'" using eq by (simp add: verification_id_def from_component_hashes_def)
  qed (simp_all add: hashed_messages_def)
  then have same: "proof_type p = proof_type q" "sha256 X (proof_bytes p) = sha256 X (proof_bytes q)"
      "sha256 X (public_inputs p) = sha256 X (public_inputs q)"
      "sha256 X (verification_key p) = sha256 X (verification_key q)"
    using id_preimage_inject sha256_lenD [OF assms(1)] by blast+
  have "p = q" using inj [OF same(2)] inj [OF same(3)] inj [OF same(4)] same(1)
    by (intro zk_proof_eqI) (simp_all add: hashed_messages_def)
  then show False using assms(5) by simp
qed

lemma every_proof_component_changes_the_id:
  assumes "sha256_len X"
    and "collision_free X [identity_proof, identity_proof\<lparr>proof_bytes := ascii ''other-proof''\<rparr>,
      identity_proof\<lparr>public_inputs := ascii ''other-inputs''\<rparr>, identity_proof\<lparr>verification_key := ascii ''other-key''\<rparr>,
      identity_proof\<lparr>verification_key := ascii ''other-key'', proof_type := NoirBarretenberg\<rparr>]"
  shows "every_proof_component_changes_the_id X"
  unfolding every_proof_component_changes_the_id_def Let_def
  by (intro conjI; rule distinct_ids [OF assms]) (simp_all add: identity_proof_def ascii_def)

lemma identity_in_memory: "in_memory identity_proof"
  by (simp add: in_memory_def identity_proof_def usize_bound_def)

lemma wire_round_trip_preserves_complete_proof:
  assumes "varint_len X" "wire_proof_len X"
  shows "wire_round_trip_preserves_complete_proof X"
  using encoded_len_wire [OF assms identity_in_memory]
  by (simp add: wire_round_trip_preserves_complete_proof_def proof_from_wire_def proof_to_wire_def identity_proof_def
      proof_type_try_from_def proof_type_to_i32_def)

lemma rejects_invalid_ids_and_proof_types: "rejects_invalid_ids_and_proof_types"
  by (simp add: rejects_invalid_ids_and_proof_types_def verification_id_try_from_def VERIFICATION_ID_LEN_def
      proof_type_try_from_def)

section \<open>Failure diagnostics\<close>

definition failure_enforces_wire_bounds_and_stable_code_format :: bool where
  "failure_enforces_wire_bounds_and_stable_code_format \<longleftrightarrow>
     (case verification_failure_new ''backend_timeout'' ''timed out'' True of
        Inl _ \<Rightarrow> False
      | Inr f \<Rightarrow> failure_code f = ''backend_timeout'' \<and> failure_message f = ''timed out'' \<and> failure_retryable f)
     \<and> list_all (\<lambda>code. \<not> is_ok (verification_failure_new code [] False))
         [[], ''BackendTimeout'', ''backend-timeout'', ''1backend'']
     \<and> \<not> is_ok (verification_failure_new (replicate 65 CHR ''a'') [] False)
     \<and> \<not> is_ok (verification_failure_new ''backend'' (replicate 257 CHR ''m'') False)"

lemma failure_enforces_wire_bounds_and_stable_code_format: "failure_enforces_wire_bounds_and_stable_code_format"
  by code_simp

section \<open>The store\<close>

definition test_config :: proof_store_config where
  "test_config = \<lparr>max_capacity_bytes = 1024 * 1024, config_max_proof_bytes = 1024,
     terminal_retention = from_secs 60, store_event_buffer = 16\<rparr>"

definition test_proof :: "bytes \<Rightarrow> zk_proof" where
  "test_proof b = \<lparr>proof_type = MinaPickles, proof_bytes = b, public_inputs = ascii ''inputs'',
     verification_key = ascii ''key''\<rparr>"

text \<open>An \<open>unwrap\<close> that fails makes the test fail; the events of the two calls come in order.\<close>

definition stored_chain_proof ::
  "'x store_externs_scheme \<Rightarrow> instant \<Rightarrow> store \<Rightarrow> bytes \<Rightarrow> store \<times> proof_store_event list \<times> verification_id option" where
  "stored_chain_proof X now s b =
     (let p = test_proof b; i = verification_id X p;
          (s1, ev1, r1) = observe_chain_verification X now s i;
          (s2, ev2, r2) = insert_local_proof X now s1 p Rpc
      in (s2, ev1 @ ev2, if is_ok r1 \<and> is_ok r2 then Some i else None))"

definition merges_chain_first_metadata_with_content :: "'x store_externs_scheme \<Rightarrow> instant \<Rightarrow> peer_id \<Rightarrow> bool" where
  "merges_chain_first_metadata_with_content X now peer \<longleftrightarrow>
     (case store_new test_config of
        Inl _ \<Rightarrow> False
      | Inr s \<Rightarrow>
          let p = test_proof (ascii ''proof''); i = verification_id X p;
              (s1, ev1, r1) = observe_chain_verification X now s i;
              (s2, ev2, r2) = attach_downloaded_proof X now s1 i p peer
          in r1 = Inr ChangeInserted
             \<and> (case store_get X s1 i of None \<Rightarrow> False | Some a \<Rightarrow> record_proof (arc_val a) = None)
             \<and> take 1 (ev1 @ ev2) = [VerificationObserved i]
             \<and> r2 = Inr ChangeUpdated \<and> get_proof X s2 i = Some p)"

definition merges_proof_first_without_duplicate_events :: "'x store_externs_scheme \<Rightarrow> instant \<Rightarrow> bool" where
  "merges_proof_first_without_duplicate_events X now \<longleftrightarrow>
     (case store_new test_config of
        Inl _ \<Rightarrow> False
      | Inr s \<Rightarrow>
          let p = test_proof (ascii ''proof-first''); i = verification_id X p;
              (s1, ev1, r1) = insert_local_proof X now s p Rpc;
              (s2, ev2, r2) = observe_chain_verification X now s1 i;
              (s3, ev3, r3) = observe_chain_verification X now s2 i
          in r1 = Inr (i, ChangeInserted) \<and> ev1 = [ProofStored i Rpc]
             \<and> r2 = Inr ChangeUpdated \<and> ev2 = [VerificationObserved i, VerificationChanged i Queued]
             \<and> r3 = Inr ChangeUnchanged \<and> ev3 = [])"

definition rejects_unobserved_mismatched_and_oversized_downloads ::
  "'x store_externs_scheme \<Rightarrow> instant \<Rightarrow> peer_id \<Rightarrow> bool" where
  "rejects_unobserved_mismatched_and_oversized_downloads X now peer \<longleftrightarrow>
     (case store_new test_config of
        Inl _ \<Rightarrow> False
      | Inr s \<Rightarrow>
          let valid = test_proof (ascii ''proof''); i = verification_id X valid;
              (s1, _, r1) = attach_downloaded_proof X now s i valid peer;
              (s2, _, r2) = observe_chain_verification X now s1 i;
              (s3, _, r3) = attach_downloaded_proof X now s2 i (test_proof (ascii ''different'')) peer;
              oversized = test_proof (replicate 1024 0);
              (s4, _, r4) = insert_local_proof X now s3 oversized Rpc
          in (case r1 of Inl (ProofNotObserved _) \<Rightarrow> True | _ \<Rightarrow> False) \<and> is_ok r2
             \<and> (case r3 of Inl (VerificationIdMismatch _) \<Rightarrow> True | _ \<Rightarrow> False)
             \<and> (case r4 of Inl (ProofTooLarge j _ _) \<Rightarrow> j = verification_id X oversized | _ \<Rightarrow> False)
             \<and> (case store_get X s4 i of None \<Rightarrow> False | Some a \<Rightarrow> record_proof (arc_val a) = None))"

definition applies_limit_to_the_encoded_composite_proof :: "'x store_externs_scheme \<Rightarrow> instant \<Rightarrow> bool" where
  "applies_limit_to_the_encoded_composite_proof X now \<longleftrightarrow>
     (let p = test_proof (ascii ''bounded''); n = encoded_len X p in
      (case store_new (test_config\<lparr>config_max_proof_bytes := n\<rparr>) of
         Inl _ \<Rightarrow> False
       | Inr s \<Rightarrow> is_ok (snd (snd (insert_local_proof X now s p Rpc))))
      \<and> (case store_new (test_config\<lparr>config_max_proof_bytes := n - 1\<rparr>) of
         Inl _ \<Rightarrow> False
       | Inr s \<Rightarrow>
           (case snd (snd (insert_local_proof X now s p Rpc)) of
              Inl (ProofTooLarge _ actual maximum) \<Rightarrow> actual = n \<and> maximum = n - 1
            | _ \<Rightarrow> False)))"

lemma test_store_new:
  assumes "0 < n" "n \<le> 1024"
  shows "store_new (test_config\<lparr>config_max_proof_bytes := n\<rparr>) =
    Inr \<lparr>records = Map.empty, next_ptr = 0, max_proof_bytes = n, terminal_expiry = from_secs 60\<rparr>"
  using assms
  by (simp add: store_new_def test_config_def u32_try_from_def checked_add_u32_def checked_add_usize_def
      METADATA_WEIGHT_BYTES_def FAILURE_CODE_MAX_BYTES_def FAILURE_MESSAGE_MAX_BYTES_def word_bounds from_secs_pos)

lemma test_store [simp]:
  "store_new test_config =
    Inr \<lparr>records = Map.empty, next_ptr = 0, max_proof_bytes = 1024, terminal_expiry = from_secs 60\<rparr>"
  using test_store_new [of 1024] by (simp add: test_config_def)

lemma ascii_empty [simp]: "ascii t = [] \<longleftrightarrow> t = []"
  by (simp add: ascii_def)

lemma compute_run:
  assumes "moka X"
  shows "compute X s i f =
    (case f (next_ptr s) (records s i) of
       Inl e \<Rightarrow> (s\<lparr>next_ptr := Suc (next_ptr s)\<rparr>, Inl e)
     | Inr (Put v) \<Rightarrow> (s\<lparr>records := (records s)(i \<mapsto> v), next_ptr := Suc (next_ptr s)\<rparr>,
         Inr (case records s i of None \<Rightarrow> Inserted v | Some _ \<Rightarrow> ReplacedWith v))
     | Inr Remove \<Rightarrow> (s\<lparr>records := (records s)(i := None), next_ptr := Suc (next_ptr s)\<rparr>,
         Inr (case records s i of None \<Rightarrow> StillNone | Some v \<Rightarrow> Removed v))
     | Inr Nop \<Rightarrow> (s\<lparr>next_ptr := Suc (next_ptr s)\<rparr>,
         Inr (case records s i of None \<Rightarrow> StillNone | Some v \<Rightarrow> Unchanged v)))"
  using assms by (auto simp: compute_def moka_def moka_compute_def split: sum.split op.split option.split)

lemma test_proof_len:
  assumes "varint_len X" "length b < 2048"
  shows "encoded_len X (test_proof b) = 15 + wire_field_len X b"
  using assms encoded_len_exact [OF assms(1), of "test_proof b"] varint_len_small [OF assms(1)]
  by (simp add: in_memory_def test_proof_def usize_bound_def wire_field_len_def)

lemmas test_run = Let_def observe_chain_verification_def observe_entry_def insert_local_proof_def insert_entry_def
  attach_downloaded_proof_def attach_entry_def validate_proof_def begin_verification_def begin_entry_def
  finish_verification_def finish_entry_def retry_verification_def retry_entry_def outcome_state_def
  publish_stored_def store_change_def result_state_def queue_if_ready_def with_content_def get_proof_def
  wire_field_len_def

lemma merges_chain_first_metadata_with_content:
  assumes "moka X" "varint_len X"
  shows "merges_chain_first_metadata_with_content X now peer"
  using varint_len_small [OF assms(2)]
  by (simp add: merges_chain_first_metadata_with_content_def test_run compute_run [OF assms(1)] moka_getD [OF assms(1)]
      test_proof_len [OF assms(2)])

lemma merges_proof_first_without_duplicate_events:
  assumes "moka X" "varint_len X"
  shows "merges_proof_first_without_duplicate_events X now"
  using varint_len_small [OF assms(2)]
  by (simp add: merges_proof_first_without_duplicate_events_def test_run compute_run [OF assms(1)]
      test_proof_len [OF assms(2)])

lemma rejects_unobserved_mismatched_and_oversized_downloads:
  assumes "moka X" "varint_len X"
    and "verification_id X (test_proof (ascii ''different'')) \<noteq> verification_id X (test_proof (ascii ''proof''))"
  shows "rejects_unobserved_mismatched_and_oversized_downloads X now peer"
  using varint_len_small [OF assms(2)] assms(3)
  by (simp add: rejects_unobserved_mismatched_and_oversized_downloads_def test_run compute_run [OF assms(1)]
      moka_getD [OF assms(1)] test_proof_len [OF assms(2)])

lemma applies_limit_to_the_encoded_composite_proof:
  assumes "moka X" "varint_len X"
  shows "applies_limit_to_the_encoded_composite_proof X now"
  using varint_len_small [OF assms(2)]
  by (simp add: applies_limit_to_the_encoded_composite_proof_def test_run compute_run [OF assms(1)]
      test_proof_len [OF assms(2)] test_store_new)

text \<open>
  The two claims of \<open>join!\<close> are two atomic steps, in one order or the other; the code treats them
  alike.
\<close>

definition verification_is_single_flight_and_status_order_is_stable ::
  "'x store_externs_scheme \<Rightarrow> instant \<Rightarrow> bool" where
  "verification_is_single_flight_and_status_order_is_stable X now \<longleftrightarrow>
     (case store_new test_config of
        Inl _ \<Rightarrow> False
      | Inr s \<Rightarrow>
          (case stored_chain_proof X now s (ascii ''verified'') of
             (s1, _, Some verified) \<Rightarrow>
          (case stored_chain_proof X now s1 (ascii ''wrong'') of
             (s2, _, Some wrong) \<Rightarrow>
               let missing = verification_id X (test_proof (ascii ''missing''));
                   (s3, _, first) = begin_verification X s2 verified;
                   (s4, _, second) = begin_verification X s3 verified
               in (case (first, second) of
                     (Inr a, Inr b) \<Rightarrow>
                       of_bool (a \<noteq> None) + of_bool (b \<noteq> None) = (1 :: nat)
                       \<and> (case (if a \<noteq> None then a else b) of
                            None \<Rightarrow> False
                          | Some verified_job \<Rightarrow>
                              let (s5, _, r5) = finish_verification X now s4 verified_job (OutcomeCompleted Valid);
                                  (s6, _, r6) = begin_verification X s5 wrong
                              in is_ok r5 \<and>
                                 (case r6 of
                                    Inr (Some wrong_job) \<Rightarrow>
                                      let (s7, _, r7) = finish_verification X now s6 wrong_job (OutcomeCompleted Invalid)
                                      in is_ok r7
                                         \<and> statuses X s7 [missing, wrong, verified] =
                                             [\<lparr>status_id = missing, status = StatusUnavailable\<rparr>,
                                              \<lparr>status_id = wrong, status = StatusCompleted Invalid\<rparr>,
                                              \<lparr>status_id = verified, status = StatusCompleted Valid\<rparr>]
                                         \<and> completed_results X s7 [missing, wrong, verified] =
                                             [\<lparr>completed_id = wrong, completed_verdict = Invalid\<rparr>,
                                              \<lparr>completed_id = verified, completed_verdict = Valid\<rparr>]
                                  | _ \<Rightarrow> False))
                   | _ \<Rightarrow> False)
           | _ \<Rightarrow> False)
           | _ \<Rightarrow> False))"

lemma verification_is_single_flight_and_status_order_is_stable:
  assumes "moka X" "varint_len X"
    and "distinct (map (\<lambda>t. verification_id X (test_proof (ascii t))) [''verified'', ''wrong'', ''missing''])"
  shows "verification_is_single_flight_and_status_order_is_stable X now"
  using varint_len_small [OF assms(2)] assms(3)
  by (simp add: verification_is_single_flight_and_status_order_is_stable_def stored_chain_proof_def test_run
      compute_run [OF assms(1)] moka_getD [OF assms(1)] test_proof_len [OF assms(2)] statuses_def status_of_def)
     auto

definition stale_job_cannot_complete_a_reinserted_record :: "'x store_externs_scheme \<Rightarrow> instant \<Rightarrow> bool" where
  "stale_job_cannot_complete_a_reinserted_record X now \<longleftrightarrow>
     (case store_new test_config of
        Inl _ \<Rightarrow> False
      | Inr s \<Rightarrow>
          let candidate = test_proof (ascii ''reinserted''); i = verification_id X candidate;
              (s1, _, r1) = observe_chain_verification X now s i;
              (s2, _, r2) = insert_local_proof X now s1 candidate Rpc;
              (s3, _, r3) = begin_verification X s2 i
          in is_ok r1 \<and> is_ok r2 \<and>
             (case r3 of
                Inr (Some stale_job) \<Rightarrow>
                  let (s4, _) = invalidate X s3 i;
                      (s5, _, r5) = observe_chain_verification X now s4 i;
                      (s6, _, r6) = insert_local_proof X now s5 candidate Rpc;
                      (s7, _, r7) = finish_verification X now s6 stale_job (OutcomeCompleted Valid)
                  in is_ok r5 \<and> is_ok r6 \<and> r7 = Inr ChangeUnchanged
                     \<and> status (statuses X s7 [i] ! 0) = StatusQueued
              | _ \<Rightarrow> False))"

lemma stale_job_cannot_complete_a_reinserted_record:
  assumes "moka X" "varint_len X"
  shows "stale_job_cannot_complete_a_reinserted_record X now"
  using varint_len_small [OF assms(2)]
  by (simp add: stale_job_cannot_complete_a_reinserted_record_def test_run compute_run [OF assms(1)]
      mokaD [OF assms(1)] test_proof_len [OF assms(2)] statuses_def status_of_def)

definition operational_failure_is_distinct_and_only_retryable_failure_requeues ::
  "'x store_externs_scheme \<Rightarrow> instant \<Rightarrow> bool" where
  "operational_failure_is_distinct_and_only_retryable_failure_requeues X now \<longleftrightarrow>
     (case (store_new test_config, verification_failure_new ''backend_timeout'' ''timed out'' True,
            verification_failure_new ''unsupported_backend'' ''not configured'' False) of
        (Inr s, Inr failure, Inr unsupported) \<Rightarrow>
          (case stored_chain_proof X now s (ascii ''retryable'') of
             (s1, _, Some retryable) \<Rightarrow>
               (case begin_verification X s1 retryable of
                  (s2, _, Inr (Some retryable_job)) \<Rightarrow>
                    let (s3, _, r3) = finish_verification X now s2 retryable_job (OutcomeFailed failure);
                        (s4, _, r4) = finish_verification X now s3 retryable_job (OutcomeFailed failure);
                        (s5, _, r5) = retry_verification X s4 retryable
                    in r3 = Inr ChangeUpdated
                       \<and> (case store_get X s3 retryable of
                            None \<Rightarrow> False | Some a \<Rightarrow> completed_at (metadata (arc_val a)) = None)
                       \<and> r4 = Inr ChangeUnchanged \<and> r5 = Inr ChangeUpdated
                       \<and> status (statuses X s5 [retryable] ! 0) = StatusQueued
                       \<and> (case stored_chain_proof X now s5 (ascii ''permanent'') of
                            (s6, _, Some permanent) \<Rightarrow>
                              (case begin_verification X s6 permanent of
                                 (s7, _, Inr (Some permanent_job)) \<Rightarrow>
                                   let (s8, _, r8) = finish_verification X now s7 permanent_job (OutcomeFailed unsupported);
                                       (s9, _, r9) = retry_verification X s8 permanent
                                   in is_ok r8 \<and> (case r9 of Inl (InvalidVerificationTransition _ _) \<Rightarrow> True | _ \<Rightarrow> False)
                               | _ \<Rightarrow> False)
                          | _ \<Rightarrow> False)
                | _ \<Rightarrow> False)
           | _ \<Rightarrow> False)
      | _ \<Rightarrow> False)"

lemma test_failures:
  "verification_failure_new ''backend_timeout'' ''timed out'' True =
     Inr \<lparr>failure_code = ''backend_timeout'', failure_message = ''timed out'', failure_retryable = True\<rparr>"
  "verification_failure_new ''unsupported_backend'' ''not configured'' False =
     Inr \<lparr>failure_code = ''unsupported_backend'', failure_message = ''not configured'', failure_retryable = False\<rparr>"
  "verification_failure_new ''backend_crash'' ''worker exited'' True =
     Inr \<lparr>failure_code = ''backend_crash'', failure_message = ''worker exited'', failure_retryable = True\<rparr>"
  "verification_failure_new ''backend_error'' ''bounded message'' False =
     Inr \<lparr>failure_code = ''backend_error'', failure_message = ''bounded message'', failure_retryable = False\<rparr>"
  by code_simp+

lemma operational_failure_is_distinct_and_only_retryable_failure_requeues:
  assumes "moka X" "varint_len X"
    and "verification_id X (test_proof (ascii ''retryable'')) \<noteq> verification_id X (test_proof (ascii ''permanent''))"
  shows "operational_failure_is_distinct_and_only_retryable_failure_requeues X now"
  using varint_len_small [OF assms(2)] assms(3)
  by (simp add: operational_failure_is_distinct_and_only_retryable_failure_requeues_def test_failures
      stored_chain_proof_def test_run compute_run [OF assms(1)] moka_getD [OF assms(1)] test_proof_len [OF assms(2)]
      statuses_def status_of_def)

text \<open>
  Sleeping and \<open>run_pending_tasks\<close>: the cache drops the entry of one identifier when its retention has
  passed, and reports it.
\<close>

definition expire_due :: "instant \<Rightarrow> verification_id \<Rightarrow> store \<Rightarrow> store \<times> proof_store_event list" where
  "expire_due now i s =
     (case records s i of
        None \<Rightarrow> (s, [])
      | Some a \<Rightarrow>
          (case (expiry_duration (terminal_expiry s) (arc_val a), completed_at (metadata (arc_val a))) of
             (Some d, Some done_at) \<Rightarrow>
               if done_at + d \<le> now
               then (s\<lparr>records := (records s)(i := None)\<rparr>, eviction_listener i CauseExpired) else (s, [])
           | _ \<Rightarrow> (s, [])))"

lemma expire_due_step: "expire_due now i s = (s, []) \<or> env_step X now s (snd (expire_due now i s)) (fst (expire_due now i s))"
  by (auto simp: expire_due_def split: option.split intro: step_expired)

definition failed_records_do_not_start_terminal_retention :: "'x store_externs_scheme \<Rightarrow> instant \<Rightarrow> bool" where
  "failed_records_do_not_start_terminal_retention X now \<longleftrightarrow>
     (case (store_new (test_config\<lparr>terminal_retention := from_millis 50\<rparr>),
            verification_failure_new ''backend_crash'' ''worker exited'' True) of
        (Inr s, Inr failure) \<Rightarrow>
          (case stored_chain_proof X now s (ascii ''failed-retention'') of
             (s1, _, Some i) \<Rightarrow>
               (case begin_verification X s1 i of
                  (s2, _, Inr (Some job)) \<Rightarrow>
                    let (s3, _, r3) = finish_verification X now s2 job (OutcomeFailed failure);
                        (s4, _) = expire_due (now + from_millis 1100) i s3
                    in is_ok r3 \<and> store_get X s4 i \<noteq> None
                | _ \<Rightarrow> False)
           | _ \<Rightarrow> False)
      | _ \<Rightarrow> False)"

lemma test_retention:
  assumes "0 < d"
  shows "store_new (test_config\<lparr>terminal_retention := d\<rparr>) =
    Inr \<lparr>records = Map.empty, next_ptr = 0, max_proof_bytes = 1024, terminal_expiry = d\<rparr>"
  using assms
  by (simp add: store_new_def test_config_def u32_try_from_def checked_add_u32_def checked_add_usize_def
      METADATA_WEIGHT_BYTES_def FAILURE_CODE_MAX_BYTES_def FAILURE_MESSAGE_MAX_BYTES_def word_bounds)

lemma failed_records_do_not_start_terminal_retention:
  assumes "moka X" "varint_len X"
  shows "failed_records_do_not_start_terminal_retention X now"
  using varint_len_small [OF assms(2)]
  by (simp add: failed_records_do_not_start_terminal_retention_def test_retention from_millis_pos test_failures
      stored_chain_proof_def test_run compute_run [OF assms(1)] moka_getD [OF assms(1)] test_proof_len [OF assms(2)]
      expire_due_def expiry_duration_def)

definition failed_record_weight_includes_bounded_diagnostics :: "'x store_externs_scheme \<Rightarrow> instant \<Rightarrow> bool" where
  "failed_record_weight_includes_bounded_diagnostics X now \<longleftrightarrow>
     (case (store_new test_config, verification_failure_new ''backend_error'' ''bounded message'' False) of
        (Inr s, Inr failure) \<Rightarrow>
          (case stored_chain_proof X now s (ascii ''failed-weight'') of
             (s1, _, Some i) \<Rightarrow>
               (case begin_verification X s1 i of
                  (s2, _, Inr (Some job)) \<Rightarrow>
                    let weight = (\<lambda>s. Option.bind (store_get X s i) (\<lambda>a. proof_weight (arc_val a)));
                        diagnostic_bytes = length (failure_code failure) + length (failure_message failure);
                        (s3, _, r3) = finish_verification X now s2 job (OutcomeFailed failure)
                    in is_ok r3 \<and>
                       (case (weight s2, weight s3, u32_try_from diagnostic_bytes) of
                          (Some before, Some after, Some n) \<Rightarrow> after - before = n | _ \<Rightarrow> False)
                | _ \<Rightarrow> False)
           | _ \<Rightarrow> False)
      | _ \<Rightarrow> False)"

lemma test_payload: "length b < 2048 \<Longrightarrow> payload_len (test_proof b) = Some (length b + 9)"
  by (simp add: payload_len_def test_proof_def checked_add_usize_def usize_bound_def)

lemma failed_record_weight_includes_bounded_diagnostics:
  assumes "moka X" "varint_len X"
  shows "failed_record_weight_includes_bounded_diagnostics X now"
  using varint_len_small [OF assms(2)]
  by (simp add: failed_record_weight_includes_bounded_diagnostics_def test_failures
      stored_chain_proof_def test_run compute_run [OF assms(1)] moka_getD [OF assms(1)] test_proof_len [OF assms(2)]
      proof_weight_def test_payload u32_try_from_def checked_add_u32_def METADATA_WEIGHT_BYTES_def word_bounds)

definition terminal_records_expire_without_read_extension :: "'x store_externs_scheme \<Rightarrow> instant \<Rightarrow> bool" where
  "terminal_records_expire_without_read_extension X now \<longleftrightarrow>
     (case store_new (test_config\<lparr>terminal_retention := from_millis 100\<rparr>) of
        Inl _ \<Rightarrow> False
      | Inr s \<Rightarrow>
          (case stored_chain_proof X now s (ascii ''expiring'') of
             (s1, ev1, Some i) \<Rightarrow>
               (case begin_verification X s1 i of
                  (s2, ev2, Inr (Some job)) \<Rightarrow>
                    let (s3, ev3, r3) = finish_verification X now s2 job (OutcomeCompleted Valid);
                        (s4, ev4) = expire_due (now + from_millis 50) i s3;
                        (s5, ev5) = expire_due (now + from_millis 50 + from_millis 1100) i s4
                    in is_ok r3 \<and> store_get X s4 i \<noteq> None \<and> store_get X s5 i = None
                       \<and> ProofEvicted i EvictExpired \<in> set (ev1 @ ev2 @ ev3 @ ev4 @ ev5)
                | _ \<Rightarrow> False)
           | _ \<Rightarrow> False))"

lemma terminal_records_expire_without_read_extension:
  assumes "moka X" "varint_len X"
  shows "terminal_records_expire_without_read_extension X now"
  using varint_len_small [OF assms(2)]
  by (simp add: terminal_records_expire_without_read_extension_def test_retention from_millis_pos
      stored_chain_proof_def test_run compute_run [OF assms(1)] moka_getD [OF assms(1)] test_proof_len [OF assms(2)]
      expire_due_def expiry_duration_def eviction_listener_def from_millis_def)

text \<open>
  \<open>recv\<close> of a broadcast receiver that holds \<open>capacity\<close> messages (a power of two) and has not read yet:
  what was sent before is gone.
\<close>

definition lagged_by :: "nat \<Rightarrow> proof_store_event list \<Rightarrow> nat option" where
  "lagged_by capacity log = (if capacity < length log then Some (length log - capacity) else None)"

definition lagged_subscription_recovers_from_snapshot :: "'x store_externs_scheme \<Rightarrow> instant \<Rightarrow> bool" where
  "lagged_subscription_recovers_from_snapshot X now \<longleftrightarrow>
     (case store_new (test_config\<lparr>store_event_buffer := 1\<rparr>) of
        Inl _ \<Rightarrow> False
      | Inr s \<Rightarrow>
          let (s1, ev1, r1) = insert_local_proof X now s (test_proof (ascii ''one'')) Rpc;
              (s2, ev2, r2) = insert_local_proof X now s1 (test_proof (ascii ''two'')) Rpc;
              (s3, ev3, r3) = insert_local_proof X now s2 (test_proof (ascii ''three'')) Rpc
          in is_ok r1 \<and> is_ok r2 \<and> is_ok r3 \<and> lagged_by 1 (ev1 @ ev2 @ ev3) \<noteq> None
             \<and> length (locally_available_proofs X s3) = 3)"

lemma available_count:
  assumes "moka X" "finite (dom (records s))" "\<forall>i a. records s i = Some a \<longrightarrow> record_proof (arc_val a) \<noteq> None"
  shows "length (locally_available_proofs X s) = card (dom (records s))"
proof -
  have it: "distinct (map fst (cache_iter X (records s)))"
      "\<And>k v. (k, v) \<in> set (cache_iter X (records s)) \<longleftrightarrow> records s k = Some v"
    using assms(1,2) by (auto simp: moka_def moka_iter_def)
  have "filter (\<lambda>(i, a). record_proof (arc_val a) \<noteq> None) (cache_iter X (records s)) = cache_iter X (records s)"
    using it(2) assms(3) by (auto simp: filter_id_conv)
  moreover have "set (map fst (cache_iter X (records s))) = dom (records s)" using it(2) by (force simp: image_iff)
  ultimately show ?thesis
    using distinct_card [OF it(1)] by (simp add: locally_available_proofs_def snapshot_def)
qed

lemma lagged_subscription_recovers_from_snapshot:
  assumes "moka X" "varint_len X"
    and "distinct (map (\<lambda>t. verification_id X (test_proof (ascii t))) [''one'', ''two'', ''three''])"
  shows "lagged_subscription_recovers_from_snapshot X now"
proof -
  have "store_new (test_config\<lparr>store_event_buffer := 1\<rparr>) = store_new test_config"
    by (simp add: store_new_def test_config_def)
  then show ?thesis
    using varint_len_small [OF assms(2)] assms(3)
    by (simp add: lagged_subscription_recovers_from_snapshot_def test_run compute_run [OF assms(1)]
        test_proof_len [OF assms(2)] lagged_by_def available_count [OF assms(1)]) auto
qed

text \<open>The first half of the test: an explicit removal leaves the record to those who hold it.\<close>

definition explicit_eviction_preserves_external_arc :: "'x store_externs_scheme \<Rightarrow> instant \<Rightarrow> bool" where
  "explicit_eviction_preserves_external_arc X now \<longleftrightarrow>
     (case store_new test_config of
        Inl _ \<Rightarrow> False
      | Inr s \<Rightarrow>
          (case stored_chain_proof X now s (ascii ''retained'') of
             (s1, ev1, Some i) \<Rightarrow>
               (case store_get X s1 i of
                  None \<Rightarrow> False
                | Some retained \<Rightarrow>
                    let (s2, ev2) = invalidate X s1 i
                    in map_option proof_bytes (record_proof (arc_val retained)) = Some (ascii ''retained'')
                       \<and> length (filter (\<lambda>e. e = ProofEvicted i EvictExplicit) (ev1 @ ev2)) = 1)
           | _ \<Rightarrow> False))"

lemma explicit_eviction_preserves_external_arc:
  assumes "moka X" "varint_len X"
  shows "explicit_eviction_preserves_external_arc X now"
  using varint_len_small [OF assms(2)]
  by (simp add: explicit_eviction_preserves_external_arc_def stored_chain_proof_def test_run compute_run [OF assms(1)]
      mokaD [OF assms(1)] test_proof_len [OF assms(2)]) (simp add: test_proof_def)

section \<open>A closed run\<close>

text \<open>
  The assumptions on the hash function can hold: a polynomial modulo \<open>2 ^ 16\<close> separates
  the messages of these tests.
\<close>

definition horner_digest :: "bytes \<Rightarrow> bytes" where
  "horner_digest m =
     (let v = foldl (\<lambda>a x. take_bit 16 (5 * a + uint x + 1)) 0 m
      in word_of_int (v div 256) # word_of_int v # replicate 30 0)"

definition horner_externs :: store_externs where
  "horner_externs = demo_store_externs\<lparr>sha256 := horner_digest\<rparr>"

lemma horner_laws: "moka horner_externs" "varint_len horner_externs" "sha256_len horner_externs"
  using demo_moka demo_store_laws
  by (simp_all add: horner_externs_def moka_def moka_get_def moka_compute_def moka_iter_def moka_invalidate_def
      varint_len_def sha256_len_def horner_digest_def Let_def)

lemmas horner_run = verification_id_def from_component_hashes_def test_proof_def horner_externs_def horner_digest_def
  id_preimage_def VERIFICATION_ID_DOMAIN_def ascii_def u32_to_be_bytes_def proof_type_to_u32_def replicate_numeral Let_def

lemma horner_ids:
  "distinct (map (\<lambda>t. verification_id horner_externs (test_proof (ascii t)))
     [''verified'', ''wrong'', ''missing'', ''different'', ''proof'', ''retryable'', ''permanent'', ''one'', ''two'', ''three''])"
  by (simp add: horner_run)

lemma collision_freeI:
  assumes "distinct (map (sha256 X) (remdups (concat (map (\<lambda>p. [proof_bytes p, public_inputs p, verification_key p,
    id_preimage (proof_type p) (sha256 X (proof_bytes p)) (sha256 X (public_inputs p))
      (sha256 X (verification_key p))]) ps))))"
  shows "collision_free X ps"
proof -
  have "(\<Union>p \<in> set ps. hashed_messages X p) = set (remdups (concat (map (\<lambda>p. [proof_bytes p, public_inputs p,
      verification_key p, id_preimage (proof_type p) (sha256 X (proof_bytes p)) (sha256 X (public_inputs p))
        (sha256 X (verification_key p))]) ps)))"
    by (auto simp: hashed_messages_def)
  then show ?thesis using assms by (simp only: collision_free_def distinct_map)
qed

lemma horner_collision_free:
  "collision_free horner_externs [identity_proof, identity_proof\<lparr>proof_bytes := ascii ''other-proof''\<rparr>,
     identity_proof\<lparr>public_inputs := ascii ''other-inputs''\<rparr>, identity_proof\<lparr>verification_key := ascii ''other-key''\<rparr>,
     identity_proof\<lparr>verification_key := ascii ''other-key'', proof_type := NoirBarretenberg\<rparr>]"
  by (rule collision_freeI) (simp add: identity_proof_def horner_run)

lemma store_tests_run:
  "every_proof_component_changes_the_id horner_externs"
  "rejects_unobserved_mismatched_and_oversized_downloads horner_externs now peer"
  "verification_is_single_flight_and_status_order_is_stable horner_externs now"
  "operational_failure_is_distinct_and_only_retryable_failure_requeues horner_externs now"
  "lagged_subscription_recovers_from_snapshot horner_externs now"
  using horner_ids
  by (auto intro!: every_proof_component_changes_the_id rejects_unobserved_mismatched_and_oversized_downloads
      verification_is_single_flight_and_status_order_is_stable lagged_subscription_recovers_from_snapshot
      operational_failure_is_distinct_and_only_retryable_failure_requeues horner_laws horner_collision_free)

end
