(* ===== verification/Tests_P2p.thy ===== *)
theory Tests_P2p
  imports Tests_Store P2p_Exchange
begin

text \<open>
  The unit tests of \<open>src/p2p/\<close> on the model: those of the message formats, of the driver's
  validation and of the worker's backoff, and those of \<open>src/p2p/tests.rs\<close> that run two drivers
  against each other. In the latter the network is the delivery of what one driver sends to the
  other; peer identifiers and random draws are arbitrary.
\<close>

section \<open>Messages\<close>

definition filters_unauthorized_provider_hints ::
  "'x externs_scheme \<Rightarrow> p2p_codec \<Rightarrow> peer_id \<Rightarrow> peer_id \<Rightarrow> bool" where
  "filters_unauthorized_provider_hints X K authorized other \<longleftrightarrow>
     (let b = response K ''chain'' (QueryId (replicate QUERY_ID_LEN 1))
            (verification_id X (test_proof (ascii ''proof''))) [authorized, other]
      in \<not> is_ok (decode_and_validate K b ''chain'' {authorized} 128))"

definition index_removes_disconnected_peer :: "'x externs_scheme \<Rightarrow> peer_id \<Rightarrow> peer_id \<Rightarrow> bool" where
  "index_removes_disconnected_peer X first second \<longleftrightarrow>
     (let i = verification_id X (test_proof (ascii ''proof''));
          index = remove_peer (add_provider (add_provider Map.empty i first) i second) first
      in providers index i = [second])"

definition provider_identity_is_part_of_announcement_id :: "p2p_codec \<Rightarrow> peer_id \<Rightarrow> peer_id \<Rightarrow> bool" where
  "provider_identity_is_part_of_announcement_id K first second \<longleftrightarrow>
     (let data = encode_availability K \<lparr>message_chain_id = ''test-chain'',
            message_payload = Some (AvailabilityAnnouncement (replicate 32 7))\<rparr>
      in semantic_message_id K (Some first) data = semantic_message_id K (Some first) data
         \<and> semantic_message_id K (Some first) data \<noteq> semantic_message_id K (Some second) data)"

definition rejects_oversized_response_before_decode ::
  "'x externs_scheme \<Rightarrow> get_proof_response message_codec \<Rightarrow> bool" where
  "rejects_oversized_response_before_decode X M \<longleftrightarrow>
     (case max_response_bytes X 8 ''chain'' of
        Inl _ \<Rightarrow> False
      | Inr limit \<Rightarrow>
          (case read_response M \<lparr>stream_bytes = replicate (limit + 1) 0, stream_error = None\<rparr> limit of
             Inl e \<Rightarrow> io_kind e = InvalidData | Inr _ \<Rightarrow> False))"

lemma filters_unauthorized_provider_hints:
  assumes "prost_availability K" "\<forall>p. peer_from_bytes K p = Inr p" "authorized \<noteq> other"
  shows "filters_unauthorized_provider_hints X K authorized other"
  using assms
  by (simp add: filters_unauthorized_provider_hints_def response_def decode_and_validate_def prost_availability_def Let_def)

lemma index_removes_disconnected_peer: "first \<noteq> second \<Longrightarrow> index_removes_disconnected_peer X first second"
  by (simp add: index_removes_disconnected_peer_def add_provider_def remove_peer_def providers_def insert_Diff_if)

lemma provider_identity_is_part_of_announcement_id:
  assumes "prost_availability K" "first \<noteq> second"
    and "inj_on (blake3_hex K) {semantic_preimage K (Some p) (encode_availability K \<lparr>message_chain_id = ''test-chain'',
      message_payload = Some (AvailabilityAnnouncement (replicate 32 7))\<rparr>) | p. p \<in> {first, second}}"
  shows "provider_identity_is_part_of_announcement_id K first second"
proof -
  let ?d = "encode_availability K \<lparr>message_chain_id = ''test-chain'',
      message_payload = Some (AvailabilityAnnouncement (replicate 32 7))\<rparr>"
  have "semantic_preimage K (Some first) ?d \<noteq> semantic_preimage K (Some second) ?d"
    using assms(1,2) by (simp add: semantic_preimage_def prost_availability_def)
  then have "semantic_message_id K (Some first) ?d \<noteq> semantic_message_id K (Some second) ?d"
    using inj_onD [OF assms(3), of "semantic_preimage K (Some first) ?d" "semantic_preimage K (Some second) ?d"]
    by (auto simp: semantic_message_id_def)
  then show ?thesis by (simp add: provider_identity_is_part_of_announcement_id_def Let_def)
qed

lemma rejects_oversized_response_before_decode:
  assumes "varint_len X"
  shows "rejects_oversized_response_before_decode X M"
  by (simp add: rejects_oversized_response_before_decode_def max_response_bytes_def checked_add_usize_def usize_bound_def
      varint_len_small [OF assms] read_response_def read_message_def read_to_end_def frame_too_long_def)

section \<open>Validation of received proofs\<close>

definition protocol_error :: "'a res \<Rightarrow> bool" where
  "protocol_error r \<longleftrightarrow> (case r of Inl (P2pProtocol _) \<Rightarrow> True | _ \<Rightarrow> False)"

definition rejects_mismatched_proof_response_without_domain_status :: "'x externs_scheme \<Rightarrow> bool" where
  "rejects_mismatched_proof_response_without_domain_status X \<longleftrightarrow>
     (let expected = verification_id X (test_proof (ascii ''expected''));
          wire = proof_to_wire (test_proof (ascii ''different''))
      in protocol_error (validate_exchanged_proof X wire expected 1024))"

definition rejects_oversized_proof_response :: "'x externs_scheme \<Rightarrow> bool" where
  "rejects_oversized_proof_response X \<longleftrightarrow>
     (let p = \<lparr>proof_type = MinaPickles, proof_bytes = replicate 9 1, public_inputs = [], verification_key = []\<rparr>;
          i = verification_id X p
      in protocol_error (validate_exchanged_proof X (proof_to_wire p) i 8))"

definition rejects_each_mismatched_proof_component :: "'x externs_scheme \<Rightarrow> bool" where
  "rejects_each_mismatched_proof_component X \<longleftrightarrow>
     (let original = test_proof (ascii ''proof''); expected = verification_id X original;
          variants = [original\<lparr>public_inputs := ascii ''other-inputs''\<rparr>,
            original\<lparr>verification_key := ascii ''other-key''\<rparr>, original\<lparr>proof_type := NoirBarretenberg\<rparr>]
      in list_all (\<lambda>changed. protocol_error (validate_exchanged_proof X (proof_to_wire changed) expected 1024)) variants)"

definition rejects_unspecified_wire_proof_type :: "'x externs_scheme \<Rightarrow> bool" where
  "rejects_unspecified_wire_proof_type X \<longleftrightarrow>
     (let expected = verification_id X (test_proof (ascii ''proof''));
          wire = (proof_to_wire (test_proof (ascii ''proof'')))\<lparr>wire_proof_type := 0\<rparr>
      in protocol_error (validate_exchanged_proof X wire expected 1024))"

lemma wire_back [simp]: "proof_from_wire (proof_to_wire p) = Inr p"
  by (cases p; cases "proof_type p")
     (simp_all add: proof_from_wire_def proof_to_wire_def proof_type_to_i32_def proof_type_try_from_def)

lemma mismatch_refused:
  assumes "verification_id X p \<noteq> i"
  shows "protocol_error (validate_exchanged_proof X (proof_to_wire p) i n)"
  using assms by (simp add: validate_exchanged_proof_def protocol_error_def)

lemma rejects_mismatched_proof_response_without_domain_status:
  assumes "verification_id X (test_proof (ascii ''different'')) \<noteq> verification_id X (test_proof (ascii ''expected''))"
  shows "rejects_mismatched_proof_response_without_domain_status X"
  using assms by (simp add: rejects_mismatched_proof_response_without_domain_status_def Let_def mismatch_refused)

lemma rejects_oversized_proof_response:
  assumes "varint_len X" "wire_proof_len X"
  shows "rejects_oversized_proof_response X"
proof -
  let ?p = "\<lparr>proof_type = MinaPickles, proof_bytes = replicate 9 1, public_inputs = [], verification_key = []\<rparr>"
  have "in_memory ?p" by (simp add: in_memory_def usize_bound_def)
  then have "wire_proof_encoded_len X (proof_to_wire ?p) = 13"
    using encoded_len_wire [OF assms] encoded_len_exact [OF assms(1)]
    by (simp add: wire_field_len_def varint_len_small [OF assms(1)])
  then show ?thesis
    by (simp add: rejects_oversized_proof_response_def Let_def validate_exchanged_proof_def protocol_error_def)
qed

lemma rejects_each_mismatched_proof_component:
  assumes "sha256_len X"
    and "collision_free X [test_proof (ascii ''proof''), (test_proof (ascii ''proof''))\<lparr>public_inputs := ascii ''other-inputs''\<rparr>,
      (test_proof (ascii ''proof''))\<lparr>verification_key := ascii ''other-key''\<rparr>,
      (test_proof (ascii ''proof''))\<lparr>proof_type := NoirBarretenberg\<rparr>]"
  shows "rejects_each_mismatched_proof_component X"
proof -
  let ?p = "test_proof (ascii ''proof'')"
  have "verification_id X (?p\<lparr>public_inputs := ascii ''other-inputs''\<rparr>) \<noteq> verification_id X ?p"
    "verification_id X (?p\<lparr>verification_key := ascii ''other-key''\<rparr>) \<noteq> verification_id X ?p"
    "verification_id X (?p\<lparr>proof_type := NoirBarretenberg\<rparr>) \<noteq> verification_id X ?p"
    by (rule distinct_ids [OF assms]; simp add: test_proof_def ascii_def)+
  then show ?thesis by (simp add: rejects_each_mismatched_proof_component_def Let_def mismatch_refused)
qed

lemma rejects_unspecified_wire_proof_type: "rejects_unspecified_wire_proof_type X"
  by (simp add: rejects_unspecified_wire_proof_type_def Let_def validate_exchanged_proof_def proof_from_wire_def
      proof_type_try_from_def protocol_error_def)

section \<open>Backoff\<close>

definition retry_backoff_doubles_until_the_configured_cap :: bool where
  "retry_backoff_doubles_until_the_configured_cap \<longleftrightarrow>
     (let initial = from_millis 250; maximum = from_secs 2
      in retry_cap initial maximum 0 = from_millis 250 \<and> retry_cap initial maximum 1 = from_millis 500
         \<and> retry_cap initial maximum 2 = from_secs 1 \<and> retry_cap initial maximum 3 = from_secs 2
         \<and> retry_cap initial maximum 30 = from_secs 2)"

text \<open>The hundred draws of the test are any number.\<close>

definition full_jitter_never_exceeds_backoff_or_remaining_deadline :: "nat \<Rightarrow> bool" where
  "full_jitter_never_exceeds_backoff_or_remaining_deadline draw \<longleftrightarrow>
     retrieval_jitter (from_secs 2) (from_millis 300) draw \<le> from_millis 300
     \<and> retrieval_jitter (from_secs 2) 0 draw = 0"

lemma retry_backoff_doubles_until_the_configured_cap: "retry_backoff_doubles_until_the_configured_cap"
  by (simp add: retry_backoff_doubles_until_the_configured_cap_def retry_cap_def from_millis_def from_secs_def
      duration_saturating_mul_def duration_max_def u64_bound_def Let_def)

lemma full_jitter_never_exceeds_backoff_or_remaining_deadline:
  "full_jitter_never_exceeds_backoff_or_remaining_deadline draw"
proof -
  have "draw mod Suc n \<le> n" for n :: nat by (simp add: less_Suc_eq_le [symmetric])
  from this [of "min (min (from_secs 2) (from_millis 300)) (u64_bound - Suc 0)"] show ?thesis
    by (simp add: full_jitter_never_exceeds_backoff_or_remaining_deadline_def retrieval_jitter_def)
qed

section \<open>The validator key\<close>

text \<open>
  The temporary key file with its mode: serde reads the keys it was written with, and the encoding
  \<open>enc\<close> is the inverse of the decoder. A generated keypair is a secret with its public key.
\<close>

definition validator_file :: "(bytes \<Rightarrow> string) \<Rightarrow> bytes \<Rightarrow> bytes \<Rightarrow> validator_key_file" where
  "validator_file enc public pair =
     \<lparr>key_address = ''0123456789ABCDEF0123456789ABCDEF01234567'',
      pub_key = \<lparr>key_type = ''tendermint/PubKeyEd25519'', key_value = enc public\<rparr>,
      priv_key = \<lparr>key_type = ''tendermint/PrivKeyEd25519'', key_value = enc pair\<rparr>\<rparr>"

definition with_key_file :: "key_env \<Rightarrow> validator_key_file \<Rightarrow> 32 word \<Rightarrow> key_env" where
  "with_key_file E file mode =
     E\<lparr>key_metadata := (\<lambda>_. Inr \<lparr>meta_is_file = True, meta_mode = mode\<rparr>), read_to_string := (\<lambda>_. Inr []),
       parse_key_file := (\<lambda>_. Inr file)\<rparr>"

definition loads_stable_peer_id :: "key_env \<Rightarrow> (bytes \<Rightarrow> string) \<Rightarrow> bytes \<Rightarrow> bytes \<Rightarrow> path \<Rightarrow> bool" where
  "loads_stable_peer_id E enc secret public path \<longleftrightarrow>
     (let E = with_key_file E (validator_file enc public (secret @ public)) 384 in
      case (load_validator_identity E path, load_validator_identity E path) of
        (Inr first, Inr second) \<Rightarrow> ed25519_peer E (public_key first) = ed25519_peer E (public_key second)
      | _ \<Rightarrow> False)"

definition identity_error :: "'a res \<Rightarrow> bool" where
  "identity_error r \<longleftrightarrow> (case r of Inl (P2pIdentity _) \<Rightarrow> True | _ \<Rightarrow> False)"

definition rejects_insecure_permissions :: "key_env \<Rightarrow> (bytes \<Rightarrow> string) \<Rightarrow> bytes \<Rightarrow> bytes \<Rightarrow> path \<Rightarrow> bool" where
  "rejects_insecure_permissions E enc secret public path \<longleftrightarrow>
     identity_error (load_validator_identity
       (with_key_file E (validator_file enc public (secret @ public)) 420) path)"

definition rejects_mismatched_public_key :: "key_env \<Rightarrow> (bytes \<Rightarrow> string) \<Rightarrow> bytes \<Rightarrow> bytes \<Rightarrow> bytes \<Rightarrow> path \<Rightarrow> bool" where
  "rejects_mismatched_public_key E enc secret public other path \<longleftrightarrow>
     identity_error (load_validator_identity
       (with_key_file E (validator_file enc other (secret @ public)) 384) path)"

definition generated :: "key_env \<Rightarrow> (bytes \<Rightarrow> string) \<Rightarrow> bytes \<Rightarrow> bytes \<Rightarrow> bool" where
  "generated E enc secret public \<longleftrightarrow>
     length secret = 32 \<and> length public = 32 \<and> (\<forall>b. base64_decode E (enc b) = Inr b)
     \<and> (\<exists>pair. ed25519_from_bytes E secret = Inr pair \<and> try_into_ed25519 E pair = Inr public)"

lemmas identity_run = load_validator_identity_def with_key_file_def validator_file_def ensure_key_type_def decode_key_def
  ED25519_PUBLIC_TYPES_def ED25519_PRIVATE_TYPES_def ED25519_PUBLIC_KEY_LEN_def ED25519_COMET_PRIVATE_KEY_LEN_def
  generated_def Let_def

lemma loads_stable_peer_id:
  assumes "generated E enc secret public"
  shows "loads_stable_peer_id E enc secret public path"
  using assms by (auto simp: loads_stable_peer_id_def identity_run)

lemma rejects_insecure_permissions: "rejects_insecure_permissions E enc secret public path"
  by (simp add: rejects_insecure_permissions_def identity_run identity_error_def)

lemma rejects_mismatched_public_key:
  assumes "generated E enc secret public" "length other = 32" "other \<noteq> public"
  shows "rejects_mismatched_public_key E enc secret public other path"
  using assms by (auto simp: rejects_mismatched_public_key_def identity_run identity_error_def)

section \<open>Two drivers\<close>

definition p2p_test_config :: p2p_config where
  "p2p_test_config = \<lparr>p2p_enabled = True, p2p_chain_id = ''pulsar-p2p-test'', listen_addresses = [[]], bootnodes = [],
     validator_key_path = ''/unused'', max_availability_message_bytes = 64 * 1024,
     p2p_max_proof_bytes = 8 * 1024 * 1024, proof_request_timeout = from_secs 3, max_concurrent_retrievals = 16,
     retrieval_timeout = from_secs 10, retrieval_initial_backoff = from_millis 50,
     retrieval_max_backoff = from_millis 200, command_buffer = 32, p2p_event_buffer = 128\<rparr>"

text \<open>
  The node after its one listener came up: \<open>ready\<close> is signalled and the address is reported.
\<close>

definition start_node :: "'x externs_scheme \<Rightarrow> net_env \<Rightarrow> peer_id \<Rightarrow> peer_id set \<Rightarrow> driver \<times> driver_output list" where
  "start_node X E me peers =
     (let (d, out, _) = driver_round X E (SwarmInput (NewListenAddr 0 []))
            (new_driver p2p_test_config me (peers - {me}) {0})
      in (d, out))"

text \<open>What the swarm of the other side reports for what a driver sends; a channel carries the request number.\<close>

definition net_input :: "peer_id \<Rightarrow> driver_output \<Rightarrow> driver_input option" where
  "net_input sender out =
     (case out of
        Net (Publish b) \<Rightarrow> Some (SwarmInput (Gossipsub (GossipMessage sender [] (Some sender) b)))
      | Net (SendRequest k _ req) \<Rightarrow> Some (SwarmInput (ProofExchange (ExchangeRequest sender req k)))
      | Net (SendResponse k resp) \<Rightarrow> Some (SwarmInput (ProofExchange (ExchangeResponse sender k resp)))
      | _ \<Rightarrow> None)"

fun deliver ::
  "'x externs_scheme \<Rightarrow> net_env \<Rightarrow> peer_id \<Rightarrow> driver_output list \<Rightarrow> driver \<Rightarrow> driver \<times> driver_output list" where
  "deliver X E sender [] d = (d, [])"
| "deliver X E sender (out # outs) d =
     (case net_input sender out of
        None \<Rightarrow> deliver X E sender outs d
      | Some inp \<Rightarrow>
          let (d1, out1, _) = driver_round X E inp d; (d2, out2) = deliver X E sender outs d1 in (d2, out1 @ out2))"

definition call :: "'x externs_scheme \<Rightarrow> net_env \<Rightarrow> driver_command \<Rightarrow> driver \<Rightarrow> driver \<times> driver_output list" where
  "call X E c d = (let (d1, out, _) = driver_round X E (CommandInput 0 c) d in (d1, out))"

definition answered_with :: "driver_reply \<Rightarrow> driver_output list \<Rightarrow> bool" where
  "answered_with r out \<longleftrightarrow> Reply 0 r \<in> set out"

definition stops :: "'x externs_scheme \<Rightarrow> net_env \<Rightarrow> driver \<Rightarrow> bool" where
  "stops X E d \<longleftrightarrow>
     (let (d1, out) = call X E Drain d in
      answered_with (UnitReply (Inr ())) out
      \<and> (case driver_round X E CommandsClosed d1 of (_, _, Some (Inr _)) \<Rightarrow> True | _ \<Rightarrow> False))"

definition connected_nodes ::
  "'x externs_scheme \<Rightarrow> net_env \<Rightarrow> peer_id \<Rightarrow> peer_id \<Rightarrow> (driver \<times> driver) option" where
  "connected_nodes X E a b =
     (let (first, out1) = start_node X E a {a, b}; (second, out2) = start_node X E b {a, b};
          (first, out3, _) = driver_round X E (SwarmInput (ConnectionEstablished b)) first;
          (second, out4, _) = driver_round X E (SwarmInput (ConnectionEstablished a)) second
      in if ReadySignal (Inr ()) \<in> set out1 \<and> ReadySignal (Inr ()) \<in> set out2
            \<and> Event True (PeerConnected b) \<in> set out3 \<and> Event True (PeerConnected a) \<in> set out4
         then Some (first, second) else None)"

definition tcp_propagates_availability_and_transfers_complete_proof ::
  "'x externs_scheme \<Rightarrow> net_env \<Rightarrow> peer_id \<Rightarrow> peer_id \<Rightarrow> bool" where
  "tcp_propagates_availability_and_transfers_complete_proof X E a b \<longleftrightarrow>
     (case connected_nodes X E a b of
        None \<Rightarrow> False
      | Some (first, second) \<Rightarrow>
          let p = test_proof (ascii ''opaque-zk-proof''); i = verification_id X p;
              (second, out1) = call X E (Announce i) second;
              (first, out2) = deliver X E b out1 first;
              (first, out3) = call X E (Providers i) first;
              (first, out4) = call X E (QueryAvailability i) first;
              (second, _) = deliver X E a out4 second;
              (second, out5, _) = driver_round X E (DelayedInput 0) second;
              (first, out6) = deliver X E b out5 first;
              (first, out7) = call X E (RequestProof b i) first;
              (second, out8) = deliver X E a out7 second
          in answered_with (UnitReply (Inr ())) out1
             \<and> Event True (AvailabilityAnnounced b i) \<in> set out2
             \<and> answered_with (ProvidersReply (Inr [b])) out3
             \<and> answered_with (QueryReply (Inr (random_query_id E))) out4
             \<and> Event True (ProvidersDiscovered (random_query_id E) i [b]) \<in> set out6
             \<and> (case out8 of
                  [Event True (ProofRequested inbound peer j)] \<Rightarrow>
                    peer = a \<and> j = i \<and>
                    (let (second, out9) = call X E (RespondProof inbound (Some p)) second;
                         (first, out10) = deliver X E b out9 first
                     in answered_with (UnitReply (Inr ())) out9
                        \<and> (case out10 of
                             [Event True (ProofReceived r peer j q)] \<Rightarrow>
                               answered_with (RequestReply (Inr r)) out7 \<and> peer = b \<and> j = i \<and> q = p
                           | _ \<Rightarrow> False)
                        \<and> stops X E first \<and> stops X E second)
                | _ \<Rightarrow> False))"

definition proof_not_found_clears_duplicate_in_flight_request ::
  "'x externs_scheme \<Rightarrow> net_env \<Rightarrow> peer_id \<Rightarrow> peer_id \<Rightarrow> bool" where
  "proof_not_found_clears_duplicate_in_flight_request X E a b \<longleftrightarrow>
     (case connected_nodes X E a b of
        None \<Rightarrow> False
      | Some (first, second) \<Rightarrow>
          let i = verification_id X (test_proof (ascii ''missing-proof''));
              (first, out1) = call X E (RequestProof b i) first;
              (first, out2) = call X E (RequestProof b i) first;
              (second, out3) = deliver X E a out1 second
          in list_ex (\<lambda>out. case out of Reply _ (RequestReply (Inl _)) \<Rightarrow> True | _ \<Rightarrow> False) out2
             \<and> (case out3 of
                  [Event True (ProofRequested inbound _ j)] \<Rightarrow>
                    j = i \<and>
                    (let (second, out4) = call X E (RespondProof inbound None) second;
                         (first, out5) = deliver X E b out4 first
                     in answered_with (UnitReply (Inr ())) out4
                        \<and> (case out5 of
                             [Event True (ProofNotFound r _ j)] \<Rightarrow> answered_with (RequestReply (Inr r)) out1 \<and> j = i
                           | _ \<Rightarrow> False)
                        \<and> stops X E first \<and> stops X E second)
                | _ \<Rightarrow> False))"

definition forgetting_local_proof_removes_it_from_provider_queries ::
  "'x externs_scheme \<Rightarrow> net_env \<Rightarrow> peer_id \<Rightarrow> peer_id \<Rightarrow> bool" where
  "forgetting_local_proof_removes_it_from_provider_queries X E a b \<longleftrightarrow>
     (case connected_nodes X E a b of
        None \<Rightarrow> False
      | Some (first, second) \<Rightarrow>
          let i = verification_id X (test_proof (ascii ''evicted-proof''));
              (first, out1) = call X E (Announce i) first;
              (first, out2) = call X E (Providers i) first;
              (first, out3) = call X E (ForgetLocalProof i) first;
              (first, out4) = call X E (Providers i) first
          in answered_with (UnitReply (Inr ())) out1 \<and> answered_with (ProvidersReply (Inr [a])) out2
             \<and> answered_with (UnitReply (Inr ())) out3 \<and> answered_with (ProvidersReply (Inr [])) out4
             \<and> stops X E first \<and> stops X E second)"

definition driver_treats_mailbox_closure_before_drain_as_fatal ::
  "'x externs_scheme \<Rightarrow> net_env \<Rightarrow> peer_id \<Rightarrow> bool" where
  "driver_treats_mailbox_closure_before_drain_as_fatal X E me \<longleftrightarrow>
     (let (node, _) = start_node X E me {me} in
      case driver_round X E CommandsClosed node of (_, _, Some (Inl P2pDriverClosed)) \<Rightarrow> True | _ \<Rightarrow> False)"

text \<open>A timeout that elapses: the drain has not been answered.\<close>

definition drain_waits_for_an_accepted_inbound_proof_response ::
  "'x externs_scheme \<Rightarrow> net_env \<Rightarrow> peer_id \<Rightarrow> peer_id \<Rightarrow> bool" where
  "drain_waits_for_an_accepted_inbound_proof_response X E a b \<longleftrightarrow>
     (case connected_nodes X E a b of
        None \<Rightarrow> False
      | Some (server, client) \<Rightarrow>
          let p = test_proof (ascii ''accepted-before-drain''); i = verification_id X p;
              (client, out1) = call X E (RequestProof a i) client;
              (server, out2) = deliver X E b out1 server
          in (case out2 of
                [Event True (ProofRequested r _ j)] \<Rightarrow>
                  j = i \<and>
                  (let (server, out3, _) = driver_round X E (CommandInput 7 Drain) server;
                       (server, out4) = call X E (RespondProof r (Some p)) server;
                       (client, _) = deliver X E a out4 client
                   in \<not> list_ex (\<lambda>out. case out of Reply t _ \<Rightarrow> t = 7 | _ \<Rightarrow> False) out3
                      \<and> answered_with (UnitReply (Inr ())) out4 \<and> Reply 7 (UnitReply (Inr ())) \<in> set out4
                      \<and> (case driver_round X E CommandsClosed server of (_, _, Some (Inr _)) \<Rightarrow> True | _ \<Rightarrow> False)
                      \<and> stops X E client)
              | _ \<Rightarrow> False))"

definition drain_waits_for_an_accepted_outbound_proof_response ::
  "'x externs_scheme \<Rightarrow> net_env \<Rightarrow> peer_id \<Rightarrow> peer_id \<Rightarrow> bool" where
  "drain_waits_for_an_accepted_outbound_proof_response X E a b \<longleftrightarrow>
     (case connected_nodes X E a b of
        None \<Rightarrow> False
      | Some (server, client) \<Rightarrow>
          let i = verification_id X (test_proof (ascii ''outbound-before-drain''));
              (client, out1) = call X E (RequestProof a i) client;
              (server, out2) = deliver X E b out1 server
          in (case out2 of
                [Event True (ProofRequested r _ _)] \<Rightarrow>
                  (let (client, out3, _) = driver_round X E (CommandInput 7 Drain) client;
                       (server, out4) = call X E (RespondProof r None) server;
                       (client, out5) = deliver X E a out4 client
                   in \<not> list_ex (\<lambda>out. case out of Reply t _ \<Rightarrow> t = 7 | _ \<Rightarrow> False) out3
                      \<and> answered_with (UnitReply (Inr ())) out4
                      \<and> list_ex (\<lambda>out. case out of Event True (ProofNotFound _ _ j) \<Rightarrow> j = i | _ \<Rightarrow> False) out5
                      \<and> Reply 7 (UnitReply (Inr ())) \<in> set out5
                      \<and> (case driver_round X E CommandsClosed client of (_, _, Some (Inr _)) \<Rightarrow> True | _ \<Rightarrow> False)
                      \<and> stops X E server)
              | _ \<Rightarrow> False))"

definition inbound_request_after_drain_returns_not_found_without_application_event ::
  "'x externs_scheme \<Rightarrow> net_env \<Rightarrow> peer_id \<Rightarrow> peer_id \<Rightarrow> bool" where
  "inbound_request_after_drain_returns_not_found_without_application_event X E a b \<longleftrightarrow>
     (case connected_nodes X E a b of
        None \<Rightarrow> False
      | Some (server, client) \<Rightarrow>
          let i = verification_id X (test_proof (ascii ''requested-after-drain''));
              (server, out1) = call X E Drain server;
              (client, out2) = call X E (RequestProof a i) client;
              (server, out3) = deliver X E b out2 server;
              (client, out4) = deliver X E a out3 client
          in answered_with (UnitReply (Inr ())) out1
             \<and> list_ex (\<lambda>out. case out of Event True (ProofNotFound _ _ j) \<Rightarrow> j = i | _ \<Rightarrow> False) out4
             \<and> \<not> list_ex (\<lambda>out. case out of Event _ _ \<Rightarrow> True | _ \<Rightarrow> False) out3
             \<and> (case driver_round X E CommandsClosed server of (_, _, Some (Inr _)) \<Rightarrow> True | _ \<Rightarrow> False)
             \<and> stops X E client)"

definition live_net :: "net_env \<Rightarrow> bool" where
  "live_net E \<longleftrightarrow> events_open E \<and> send_response_ok E \<and> publish E = (\<lambda>_. Inr ())
     \<and> length (query_bytes (random_query_id E)) = 16
     \<and> prost_availability (net_codec E) \<and> (\<forall>p. peer_from_bytes (net_codec E) p = Inr p)"

lemmas driver_run_defs = call_def answered_with_def stops_def start_node_def connected_nodes_def net_input_def new_driver_def
  p2p_test_config_def driver_round_def handle_command_def driver_announce_def query_availability_def
  driver_request_proof_def respond_proof_def require_running_def is_running_def begin_drain_def finish_round_def
  finish_drain_def exchange_idle_def handle_swarm_event_def handle_gossip_def validated_gossip_def handle_exchange_def
  handle_inbound_request_def handle_outbound_response_def forget_request_def emit_def emit_failed_def
  not_found_response_def live_net_def Let_def

lemma driver_treats_mailbox_closure_before_drain_as_fatal:
  "driver_treats_mailbox_closure_before_drain_as_fatal X E me"
  by (simp add: driver_treats_mailbox_closure_before_drain_as_fatal_def driver_run_defs)

lemma forgetting_local_proof_removes_it_from_provider_queries:
  assumes "live_net E"
  shows "forgetting_local_proof_removes_it_from_provider_queries X E a b"
  using assms
  by (simp add: forgetting_local_proof_removes_it_from_provider_queries_def driver_run_defs providers_def add_provider_def
      remove_provider_def)

lemma try_own_id: "sha256_len X \<Longrightarrow> verification_id_try_from (as_bytes (verification_id X p)) = Inr (verification_id X p)"
  by (simp add: verification_id_wf)

lemma proof_not_found_clears_duplicate_in_flight_request:
  assumes "live_net E" "a \<noteq> b" "sha256_len X"
  shows "proof_not_found_clears_duplicate_in_flight_request X E a b"
  using assms(1,2) assms(2) [symmetric]
  by (simp add: proof_not_found_clears_duplicate_in_flight_request_def driver_run_defs try_own_id [OF assms(3)])

lemma drain_waits_for_an_accepted_outbound_proof_response:
  assumes "live_net E" "a \<noteq> b" "sha256_len X"
  shows "drain_waits_for_an_accepted_outbound_proof_response X E a b"
  using assms(1,2) assms(2) [symmetric]
  by (simp add: drain_waits_for_an_accepted_outbound_proof_response_def driver_run_defs try_own_id [OF assms(3)])

lemma inbound_request_after_drain_returns_not_found_without_application_event:
  assumes "live_net E" "a \<noteq> b" "sha256_len X"
  shows "inbound_request_after_drain_returns_not_found_without_application_event X E a b"
  using assms(1,2) assms(2) [symmetric]
  by (simp add: inbound_request_after_drain_returns_not_found_without_application_event_def driver_run_defs
      try_own_id [OF assms(3)])

lemma exchanged_test_proof:
  assumes "varint_len X" "wire_proof_len X" "length b < 1000"
  shows "validate_exchanged_proof X (proof_to_wire (test_proof b)) (verification_id X (test_proof b)) 8388608 = Inr (test_proof b)"
    "encoded_len X (test_proof b) < 2048"
proof -
  have "in_memory (test_proof b)" using assms(3) by (simp add: in_memory_def test_proof_def usize_bound_def)
  moreover show "encoded_len X (test_proof b) < 2048"
    using test_proof_len [OF assms(1), of b] assms(3) varint_len_le [OF assms(1), of "length b"] by (simp add: wire_field_len_def)
  ultimately show "validate_exchanged_proof X (proof_to_wire (test_proof b)) (verification_id X (test_proof b)) 8388608 = Inr (test_proof b)"
    using encoded_len_wire [OF assms(1,2), of "test_proof b"] by (simp add: validate_exchanged_proof_def)
qed

lemma drain_waits_for_an_accepted_inbound_proof_response:
  assumes "live_net E" "a \<noteq> b" "sha256_len X" "varint_len X" "wire_proof_len X"
  shows "drain_waits_for_an_accepted_inbound_proof_response X E a b"
  using assms(1,2) assms(2) [symmetric] exchanged_test_proof [OF assms(4,5), of "ascii ''accepted-before-drain''"]
  by (simp add: drain_waits_for_an_accepted_inbound_proof_response_def driver_run_defs try_own_id [OF assms(3)])

lemma tcp_propagates_availability_and_transfers_complete_proof:
  assumes "live_net E" "a \<noteq> b" "sha256_len X" "varint_len X" "wire_proof_len X"
  shows "tcp_propagates_availability_and_transfers_complete_proof X E a b"
  using assms(1,2) assms(2) [symmetric] exchanged_test_proof [OF assms(4,5), of "ascii ''opaque-zk-proof''"]
  by (simp add: tcp_propagates_availability_and_transfers_complete_proof_def driver_run_defs try_own_id [OF assms(3)]
      announcement_def query_def response_def decode_and_validate_def prost_availability_def providers_def add_provider_def
      query_id_of_def QUERY_ID_LEN_def MAX_PROVIDER_HINTS_def)

text \<open>\<open>Driver::dial\<close>, which exists for the tests; \<open>dialed\<close> is the answer of the swarm.\<close>

definition driver_dial ::
  "net_env \<Rightarrow> string + unit \<Rightarrow> peer_id \<Rightarrow> multiaddr list \<Rightarrow> driver \<Rightarrow> driver_output list \<times> unit res" where
  "driver_dial E dialed peer addresses d =
     (case require_running d of
        Inl e \<Rightarrow> ([], Inl e)
      | Inr _ \<Rightarrow>
          if peer \<notin> authorized_peers d
          then ([], Inl (P2pAuthorization (''refusing to dial unauthorized peer '' @ show_peer (net_codec E) peer)))
          else if addresses = [] then ([], Inl (P2pDriver ''dial requires at least one address''))
          else (map (\<lambda>a. Net (AddPeerAddress peer a)) addresses @ [Net (DialPeer peer addresses)],
                map_err (\<lambda>e. P2pDriver (''failed to dial '' @ show_peer (net_codec E) peer @ '': '' @ e)) dialed))"

definition unauthorized_outbound_dial_is_rejected_before_transport ::
  "'x externs_scheme \<Rightarrow> net_env \<Rightarrow> peer_id \<Rightarrow> peer_id \<Rightarrow> bool" where
  "unauthorized_outbound_dial_is_rejected_before_transport X E me other \<longleftrightarrow>
     (let (node, _) = start_node X E me {me}; (out, r) = driver_dial E (Inr ()) other [[]] node
      in \<not> is_ok r \<and> out = [] \<and> stops X E node)"

definition driver_rejects_new_work_after_drain_and_exits_when_mailbox_closes ::
  "'x externs_scheme \<Rightarrow> net_env \<Rightarrow> peer_id \<Rightarrow> peer_id \<Rightarrow> bool" where
  "driver_rejects_new_work_after_drain_and_exits_when_mailbox_closes X E me other \<longleftrightarrow>
     (let (node, _) = start_node X E me {me};
          (node, out1) = call X E Drain node;
          (_, r) = driver_dial E (Inr ()) other [[]] node;
          (node, out2) = call X E (QueryAvailability (verification_id X (test_proof (ascii ''proof'')))) node
      in answered_with (UnitReply (Inr ())) out1 \<and> r = Inl P2pDraining
         \<and> answered_with (QueryReply (Inl P2pDraining)) out2
         \<and> (case driver_round X E CommandsClosed node of (_, _, Some (Inr _)) \<Rightarrow> True | _ \<Rightarrow> False))"

text \<open>The swarm closes the connection of a peer that is no longer allowed.\<close>

definition replacing_allow_list_disconnects_removed_validator ::
  "'x externs_scheme \<Rightarrow> net_env \<Rightarrow> peer_id \<Rightarrow> peer_id \<Rightarrow> bool" where
  "replacing_allow_list_disconnects_removed_validator X E a b \<longleftrightarrow>
     (case connected_nodes X E a b of
        None \<Rightarrow> False
      | Some (first, second) \<Rightarrow>
          let (first, out1) = call X E (ReplaceAuthorizedPeers {a}) first;
              (first, out2, _) = driver_round X E (SwarmInput (ConnectionClosed b 0)) first
          in answered_with (UnitReply (Inr ())) out1 \<and> Net (DisallowPeer b) \<in> set out1
             \<and> Event True (PeerDisconnected b) \<in> set out2 \<and> stops X E first \<and> stops X E second)"

lemma unauthorized_outbound_dial_is_rejected_before_transport:
  "unauthorized_outbound_dial_is_rejected_before_transport X E me other"
  by (simp add: unauthorized_outbound_dial_is_rejected_before_transport_def driver_dial_def driver_run_defs)

lemma driver_rejects_new_work_after_drain_and_exits_when_mailbox_closes:
  "driver_rejects_new_work_after_drain_and_exits_when_mailbox_closes X E me other"
  by (simp add: driver_rejects_new_work_after_drain_and_exits_when_mailbox_closes_def driver_dial_def driver_run_defs)

lemma replacing_allow_list_disconnects_removed_validator:
  assumes "live_net E" "a \<noteq> b"
  shows "replacing_allow_list_disconnects_removed_validator X E a b"
  using assms assms(2) [symmetric]
  by (simp add: replacing_allow_list_disconnects_removed_validator_def driver_run_defs replace_authorized_peers_def
      remove_peer_def insert_Diff_if)

section \<open>Worker and driver\<close>

definition store_test_default :: "proof_store_config option" where
  "store_test_default = (case validate_proof_store file_proof_store_default of Inl _ \<Rightarrow> None | Inr c \<Rightarrow> Some c)"

text \<open>The driver takes the commands of the worker in order, and answers each with success.\<close>

fun forward :: "'x externs_scheme \<Rightarrow> net_env \<Rightarrow> driver_command list \<Rightarrow> driver \<Rightarrow> driver option" where
  "forward X E [] d = Some d"
| "forward X E (c # cs) d =
     (let (d1, out) = call X E c d in if answered_with (UnitReply (Inr ())) out then forward X E cs d1 else None)"

text \<open>The worker reads the events of the store, and its commands reach the driver.\<close>

fun worker_reads ::
  "'x store_externs_scheme worker_env \<Rightarrow> net_env \<Rightarrow> store \<Rightarrow> proof_store_event list \<Rightarrow> p2p_worker \<Rightarrow> driver \<Rightarrow>
     (p2p_worker \<times> driver) option" where
  "worker_reads F E s [] w d = Some (w, d)"
| "worker_reads F E s (ev # evs) w d =
     (case worker_turn F (StoreRecv (StoreEvent ev)) (w\<lparr>w_store := s\<rparr>) of
        Finished w1 (Inr _) \<Rightarrow>
          (case forward (w_externs F) E (drop (length (sent w)) (sent w1)) d of
             None \<Rightarrow> None | Some d1 \<Rightarrow> worker_reads F E s evs w1 d1)
      | _ \<Rightarrow> None)"

definition worker_reconciles_store_ownership_with_availability ::
  "'x store_externs_scheme worker_env \<Rightarrow> net_env \<Rightarrow> instant \<Rightarrow> peer_id \<Rightarrow> bool" where
  "worker_reconciles_store_ownership_with_availability F E now me \<longleftrightarrow>
     (let X = w_externs F; (node, _) = start_node X E me {me}; p = test_proof (ascii ''locally-available-proof'');
          i = verification_id X p in
      case store_test_default of None \<Rightarrow> False | Some c \<Rightarrow>
     (case store_new c of Inl _ \<Rightarrow> False | Inr s \<Rightarrow>
     (case reconcile_store F (p2p_worker_new me p2p_test_config s) of
        Finished w (Inr _) \<Rightarrow>
          (case forward X E (sent w) node of None \<Rightarrow> False | Some node \<Rightarrow>
           let (s1, ev1, r1) = insert_local_proof X now s p Rpc in
           is_ok r1 \<and>
           (case worker_reads F E s1 ev1 w node of None \<Rightarrow> False | Some (w, node) \<Rightarrow>
            answered_with (ProvidersReply (Inr [me])) (snd (call X E (Providers i) node)) \<and>
            (let (s2, ev2) = invalidate X s1 i in
             case worker_reads F E s2 ev2 w node of None \<Rightarrow> False | Some (w, node) \<Rightarrow>
              answered_with (ProvidersReply (Inr [])) (snd (call X E (Providers i) node)) \<and> stops X E node)))
      | _ \<Rightarrow> False)))"

lemma store_test_default_eq:
  "store_test_default = Some \<lparr>max_capacity_bytes = 536870912, config_max_proof_bytes = 8388608,
     terminal_retention = from_secs 900, store_event_buffer = 256\<rparr>"
  by (simp add: store_test_default_def demo_sections)

lemma default_store_new:
  "store_new \<lparr>max_capacity_bytes = 536870912, config_max_proof_bytes = 8388608,
     terminal_retention = from_secs 900, store_event_buffer = 256\<rparr> =
   Inr \<lparr>records = Map.empty, next_ptr = 0, max_proof_bytes = 8388608, terminal_expiry = from_secs 900\<rparr>"
  by (simp add: store_new_def u32_try_from_def checked_add_u32_def checked_add_usize_def METADATA_WEIGHT_BYTES_def
      FAILURE_CODE_MAX_BYTES_def FAILURE_MESSAGE_MAX_BYTES_def word_bounds from_secs_pos)

lemma empty_snapshot:
  assumes "moka X" "records s = Map.empty"
  shows "snapshot X s P = []"
proof -
  have "(k, v) \<notin> set (cache_iter X Map.empty)" for k v
    using assms(1) unfolding moka_def moka_iter_def by (metis dom_empty finite.emptyI option.distinct(1))
  then have "cache_iter X Map.empty = []" by (metis list.set_intros(1) neq_Nil_conv prod.collapse)
  then show ?thesis by (simp add: snapshot_def assms(2))
qed

lemma worker_reconciles_store_ownership_with_availability:
  assumes "moka (w_externs F)" "varint_len (w_externs F)" "live_net E" "\<forall>n c. unit_reply F n c = Inr ()"
  shows "worker_reconciles_store_ownership_with_availability F E now me"
  using assms(3,4) varint_len_small [OF assms(2)]
  by (simp add: worker_reconciles_store_ownership_with_availability_def store_test_default_eq default_store_new
      reconcile_store_def locally_available_proofs_def records_waiting_for_content_def empty_snapshot [OF assms(1)]
      p2p_worker_new_def command_def send_def driver_run_defs test_run compute_run [OF assms(1)] mokaD [OF assms(1)]
      test_proof_len [OF assms(2)] worker_turn_def p2p_handle_store_result_def handle_store_event_def
      stop_retrieval_def drive_pending_def replace_provider_proofs_def remove_peer_def add_provider_def
      remove_provider_def providers_def)

end
