(* ===== verification/Tests_Rpc.thy ===== *)
theory Tests_Rpc
  imports Tests_Store Contract Chain_Client Verification
begin

text \<open>
  The unit tests of \<open>src/rpc/contract.rs\<close>, \<open>src/chain/descriptor.rs\<close> and \<open>src/verification/mod.rs\<close>,
  run on the model.
\<close>

section \<open>Queries\<close>

definition seed_proof :: "byte \<Rightarrow> zk_proof" where
  "seed_proof seed = \<lparr>proof_type = NoirBarretenberg, proof_bytes = [seed], public_inputs = ascii ''inputs'',
     verification_key = ascii ''key''\<rparr>"

text \<open>Observed, submitted and claimed; \<open>None\<close> where an \<open>unwrap\<close> fails.\<close>

definition ready_job ::
  "'x store_externs_scheme \<Rightarrow> instant \<Rightarrow> store \<Rightarrow> zk_proof \<Rightarrow> (store \<times> verification_id \<times> verification_job) option" where
  "ready_job X now s p =
     (let i = verification_id X p;
          (s1, _, r1) = observe_chain_verification X now s i;
          (s2, _, r2) = insert_local_proof X now s1 p Rpc
      in if is_ok r1 \<and> is_ok r2
         then (case begin_verification X s2 i of (s3, _, Inr (Some job)) \<Rightarrow> Some (s3, i, job) | _ \<Rightarrow> None)
         else None)"

definition results_include_only_completed_verdicts :: "'x store_externs_scheme \<Rightarrow> instant \<Rightarrow> bool" where
  "results_include_only_completed_verdicts X now \<longleftrightarrow>
     (case (store_new test_config, verification_failure_new ''backend_timeout'' ''timed out'' True) of
        (Inr s, Inr fault) \<Rightarrow>
          (case ready_job X now s (seed_proof 1) of
             None \<Rightarrow> False
           | Some (s1, valid, valid_job) \<Rightarrow>
          (case ready_job X now s1 (seed_proof 2) of
             None \<Rightarrow> False
           | Some (s2, failed, failed_job) \<Rightarrow>
               let missing = verification_id X (seed_proof 3);
                   (s3, _, r3) = finish_verification X now s2 valid_job (OutcomeCompleted Valid);
                   (s4, _, r4) = finish_verification X now s3 failed_job (OutcomeFailed fault)
               in is_ok r3 \<and> is_ok r4 \<and>
                  (case get_verification_results X s4 [as_bytes missing, as_bytes failed, as_bytes valid] of
                     Inl _ \<Rightarrow> False
                   | Inr results \<Rightarrow> length results = 1 \<and> result_id (results ! 0) = as_bytes valid
                       \<and> result_verdict (results ! 0) = VERDICT_VALID)))
      | _ \<Rightarrow> False)"

definition statuses_cover_every_requested_id_and_preserve_phase_invariants ::
  "'x store_externs_scheme \<Rightarrow> instant \<Rightarrow> bool" where
  "statuses_cover_every_requested_id_and_preserve_phase_invariants X now \<longleftrightarrow>
     (case (store_new test_config, verification_failure_new ''backend_crash'' ''worker exited'' False) of
        (Inr s, Inr fault) \<Rightarrow>
          (case ready_job X now s (seed_proof 4) of
             None \<Rightarrow> False
           | Some (s1, failed, failed_job) \<Rightarrow>
               let unavailable = verification_id X (seed_proof 5);
                   queued = verification_id X (seed_proof 6);
                   (s2, _, r2) = observe_chain_verification X now s1 queued;
                   (s3, _, r3) = insert_local_proof X now s2 (seed_proof 6) Rpc
               in is_ok r2 \<and> is_ok r3 \<and>
          (case ready_job X now s3 (seed_proof 7) of
             None \<Rightarrow> False
           | Some (s4, verifying, _) \<Rightarrow>
          (case ready_job X now s4 (seed_proof 8) of
             None \<Rightarrow> False
           | Some (s5, completed, completed_job) \<Rightarrow>
               let (s6, _, r6) = finish_verification X now s5 completed_job (OutcomeCompleted Invalid);
                   (s7, _, r7) = finish_verification X now s6 failed_job (OutcomeFailed fault)
               in is_ok r6 \<and> is_ok r7 \<and>
                  (case get_proof_statuses X s7 [as_bytes unavailable, as_bytes queued, as_bytes verifying,
                          as_bytes completed, as_bytes failed] of
                     Inl _ \<Rightarrow> False
                   | Inr sts \<Rightarrow>
                       length sts = 5
                       \<and> wire_phase (sts ! 0) = PHASE_UNAVAILABLE \<and> wire_verdict_field (sts ! 0) = VERDICT_UNSPECIFIED
                       \<and> wire_failure_field (sts ! 0) = None
                       \<and> wire_phase (sts ! 1) = PHASE_QUEUED \<and> wire_verdict_field (sts ! 1) = VERDICT_UNSPECIFIED
                       \<and> wire_failure_field (sts ! 1) = None
                       \<and> wire_phase (sts ! 2) = PHASE_VERIFYING
                       \<and> wire_phase (sts ! 3) = PHASE_COMPLETED \<and> wire_verdict_field (sts ! 3) = VERDICT_INVALID
                       \<and> wire_failure_field (sts ! 3) = None
                       \<and> wire_phase (sts ! 4) = PHASE_FAILED \<and> wire_verdict_field (sts ! 4) = VERDICT_UNSPECIFIED
                       \<and> map_option wire_code (wire_failure_field (sts ! 4)) = Some ''backend_crash''))))
      | _ \<Rightarrow> False)"

definition rejects_invalid_or_duplicate_request_ids :: "'x store_externs_scheme \<Rightarrow> bool" where
  "rejects_invalid_or_duplicate_request_ids X \<longleftrightarrow>
     (case store_new test_config of
        Inl _ \<Rightarrow> False
      | Inr s \<Rightarrow>
          let i = as_bytes (verification_id X (seed_proof 6)) in
          list_all (\<lambda>request. \<not> is_ok (get_verification_results X s request))
            [[replicate 31 0], [i, i], replicate (MAX_VERIFICATION_IDS + 1) (replicate 32 0)])"

definition worst_case_status_response_stays_below_the_rpc_budget :: "query_codec \<Rightarrow> bool" where
  "worst_case_status_response_stays_below_the_rpc_budget Q \<longleftrightarrow>
     (let status = \<lparr>wire_status_id = replicate 32 0xff, wire_phase = PHASE_FAILED,
            wire_verdict_field = VERDICT_UNSPECIFIED,
            wire_failure_field = Some \<lparr>wire_code = replicate 64 CHR ''a'', wire_message = replicate 256 CHR ''m'',
              wire_retryable = True\<rparr>\<rparr>
      in statuses_len Q (replicate MAX_VERIFICATION_IDS status) < 256 * 1024)"

lemma seed_proof_len: "varint_len X \<Longrightarrow> encoded_len X (seed_proof b) = 18"
  using encoded_len_exact [of X "seed_proof b"]
  by (simp add: in_memory_def seed_proof_def usize_bound_def wire_field_len_def varint_len_small)

lemma parse_seed_ids:
  assumes "sha256_len X" "length is \<le> 512" "distinct (map (\<lambda>k. verification_id X (seed_proof k)) is)"
  shows "parse_ids X (map (\<lambda>k. as_bytes (verification_id X (seed_proof k))) is) =
    Inr (map (\<lambda>k. verification_id X (seed_proof k)) is)"
proof -
  have "as_bytes i = as_bytes j \<longleftrightarrow> i = j" for i j by (cases i; cases j) simp
  then have "distinct (map (\<lambda>k. as_bytes (verification_id X (seed_proof k))) is)"
    using assms(3) by (simp add: distinct_map inj_on_def)
  then show ?thesis
    using assms(1,2) by (simp add: parse_ids_Inr list_all_iff verification_id_wf comp_def)
qed

lemma results_include_only_completed_verdicts:
  assumes "moka X" "varint_len X" "sha256_len X"
    and "distinct (map (\<lambda>k. verification_id X (seed_proof k)) [1, 2, 3])"
  shows "results_include_only_completed_verdicts X now"
proof -
  have "parse_ids X (map (\<lambda>k. as_bytes (verification_id X (seed_proof k))) [3, 2, 1]) =
      Inr (map (\<lambda>k. verification_id X (seed_proof k)) [3, 2, 1])"
    using assms(4) by (intro parse_seed_ids [OF assms(3)]) auto
  then show ?thesis
    using assms(4)
    by (simp add: results_include_only_completed_verdicts_def ready_job_def test_failures test_run
        compute_run [OF assms(1)] moka_getD [OF assms(1)] seed_proof_len [OF assms(2)] get_verification_results_def
        wire_verdict_def) auto
qed

lemma test_crash:
  "verification_failure_new ''backend_crash'' ''worker exited'' False =
     Inr \<lparr>failure_code = ''backend_crash'', failure_message = ''worker exited'', failure_retryable = False\<rparr>"
  by code_simp

lemma statuses_cover_every_requested_id_and_preserve_phase_invariants:
  assumes "moka X" "varint_len X" "sha256_len X"
    and "distinct (map (\<lambda>k. verification_id X (seed_proof k)) [4, 5, 6, 7, 8])"
  shows "statuses_cover_every_requested_id_and_preserve_phase_invariants X now"
proof -
  have "parse_ids X (map (\<lambda>k. as_bytes (verification_id X (seed_proof k))) [5, 6, 7, 8, 4]) =
      Inr (map (\<lambda>k. verification_id X (seed_proof k)) [5, 6, 7, 8, 4])"
    using assms(4) by (intro parse_seed_ids [OF assms(3)]) auto
  moreover have "verification_id X (seed_proof j) \<noteq> verification_id X (seed_proof k)"
    if "(j, k) \<in> {(5, 4), (6, 4), (7, 4), (8, 4), (6, 5), (7, 5), (8, 5), (7, 6), (8, 6), (8, 7)}" for j k
    using assms(4) that by auto
  ultimately show ?thesis
    using assms(4)
    by (simp add: statuses_cover_every_requested_id_and_preserve_phase_invariants_def ready_job_def test_crash test_run
        compute_run [OF assms(1)] moka_getD [OF assms(1)] seed_proof_len [OF assms(2)] get_proof_statuses_def
        wire_verdict_def wire_status_def statuses_def status_of_def)
qed

lemma rejects_invalid_or_duplicate_request_ids:
  assumes "sha256_len X"
  shows "rejects_invalid_or_duplicate_request_ids X"
proof -
  have no: "\<not> is_ok (get_verification_results X s raws)" if "\<And>ids. parse_ids X raws \<noteq> Inr ids" for s raws
    using that by (cases "parse_ids X raws") (auto simp: get_verification_results_def)
  show ?thesis
    unfolding rejects_invalid_or_duplicate_request_ids_def
    by (simp add: Let_def no parse_ids_Inr MAX_VERIFICATION_IDS_def)
qed

lemma worst_case_status_response_stays_below_the_rpc_budget:
  assumes "varint_len X" "prost_queries X Q"
  shows "worst_case_status_response_stays_below_the_rpc_budget Q"
proof -
  define st where "st = \<lparr>wire_status_id = replicate 32 (0xff :: byte), wire_phase = PHASE_FAILED,
    wire_verdict_field = VERDICT_UNSPECIFIED, wire_failure_field = Some \<lparr>wire_code = replicate 64 CHR ''a'',
      wire_message = replicate 256 CHR ''m'', wire_retryable = True\<rparr>\<rparr>"
  have "status_message_len X st \<le> 406"
    by (rule status_message_len_le [OF assms(1)]) (simp_all add: st_def wire_status_ok_def wire_enum_defs)
  then have "sum_list (map (\<lambda>st. delimited_len X (status_message_len X st)) (replicate 512 st)) \<le> 512 * 417"
    by (intro sum_list_map_le) (auto dest: delimited_len_le [OF assms(1)])
  then show ?thesis
    using assms(2)
    by (simp add: worst_case_status_response_stays_below_the_rpc_budget_def prost_queries_def st_def [symmetric]
        MAX_VERIFICATION_IDS_def Let_def)
qed

section \<open>Descriptors of the chain\<close>

definition validates_chain_descriptor :: "'x externs_scheme \<Rightarrow> bool" where
  "validates_chain_descriptor X \<longleftrightarrow>
     (let i = from_component_hashes X NoirBarretenberg (replicate 32 1) (replicate 32 2) (replicate 32 3)
      in validate_descriptor X 2 (replicate 32 1) (replicate 32 2) (replicate 32 3) (as_bytes i) = Inr i)"

definition rejects_malformed_or_mismatched_descriptor :: "'x externs_scheme \<Rightarrow> bool" where
  "rejects_malformed_or_mismatched_descriptor X \<longleftrightarrow>
     (case validate_descriptor X 2 (replicate 31 1) (replicate 32 2) (replicate 32 3) (replicate 32 4) of
        Inl (InvalidChainContract _) \<Rightarrow> True | _ \<Rightarrow> False)
     \<and> (case validate_descriptor X 2 (replicate 32 1) (replicate 32 2) (replicate 32 3) (replicate 32 4) of
        Inl (VerificationIdMismatch _) \<Rightarrow> True | _ \<Rightarrow> False)"

lemma validates_chain_descriptor: "sha256_len X \<Longrightarrow> validates_chain_descriptor X"
  by (simp add: validates_chain_descriptor_def validate_descriptor_def proof_type_try_from_def component_hash_def
      COMPONENT_HASH_LEN_def verification_id_try_from_def VERIFICATION_ID_LEN_def from_component_hashes_def Let_def)

text \<open>The hash of this descriptor is not the constant that the test names.\<close>

lemma rejects_malformed_or_mismatched_descriptor:
  assumes "sha256 X (id_preimage NoirBarretenberg (replicate 32 1) (replicate 32 2) (replicate 32 3)) \<noteq> replicate 32 4"
  shows "rejects_malformed_or_mismatched_descriptor X"
  using assms
  by (simp add: rejects_malformed_or_mismatched_descriptor_def validate_descriptor_def proof_type_try_from_def
      component_hash_def COMPONENT_HASH_LEN_def verification_id_try_from_def VERIFICATION_ID_LEN_def
      from_component_hashes_def)

section \<open>The registry\<close>

definition valid_verifier :: verifier where
  "valid_verifier p k = Returns 0 (Inr Valid)"

definition registry_rejects_duplicate_proof_types :: bool where
  "registry_rejects_duplicate_proof_types \<longleftrightarrow>
     (case registry_new [(NoirBarretenberg, valid_verifier), (NoirBarretenberg, valid_verifier)] of
        Inl (DuplicateVerifier NoirBarretenberg) \<Rightarrow> True | _ \<Rightarrow> False)"

definition registry_routes_by_numeric_proof_type :: bool where
  "registry_routes_by_numeric_proof_type \<longleftrightarrow>
     (case registry_new [(NoirBarretenberg, valid_verifier)] of
        Inl _ \<Rightarrow> False
      | Inr registry \<Rightarrow>
          let p = \<lparr>proof_type = NoirBarretenberg, proof_bytes = [], public_inputs = [], verification_key = []\<rparr> in
          (case registry_get registry (proof_type p) of
             None \<Rightarrow> False
           | Some v \<Rightarrow> (case v p 0 of Returns _ r \<Rightarrow> r = Inr Valid | _ \<Rightarrow> False))
          \<and> registry_get registry MinaPickles = None)"

lemma registry_rejects_duplicate_proof_types: "registry_rejects_duplicate_proof_types"
  by (simp add: registry_rejects_duplicate_proof_types_def registry_new_def)

lemma registry_routes_by_numeric_proof_type: "registry_routes_by_numeric_proof_type"
  by (simp add: registry_routes_by_numeric_proof_type_def registry_new_def registry_get_def valid_verifier_def)

section \<open>A closed run\<close>

lemma horner_seeds: "distinct (map (\<lambda>k. verification_id horner_externs (seed_proof k)) [1, 2, 3, 4, 5, 6, 7, 8])"
  by (simp add: seed_proof_def horner_run)

lemma rpc_tests_run:
  "results_include_only_completed_verdicts horner_externs now"
  "statuses_cover_every_requested_id_and_preserve_phase_invariants horner_externs now"
  "rejects_malformed_or_mismatched_descriptor horner_externs"
proof -
  show "results_include_only_completed_verdicts horner_externs now"
    using horner_seeds by (intro results_include_only_completed_verdicts horner_laws) simp
  show "statuses_cover_every_requested_id_and_preserve_phase_invariants horner_externs now"
    using horner_seeds by (intro statuses_cover_every_requested_id_and_preserve_phase_invariants horner_laws) simp
  show "rejects_malformed_or_mismatched_descriptor horner_externs"
    by (rule rejects_malformed_or_mismatched_descriptor) (simp add: horner_externs_def horner_digest_def Let_def replicate_numeral)
qed

end
