(* ===== verification/Tests_Verification.thy ===== *)
theory Tests_Verification
  imports Tests_Rpc
begin

text \<open>
  The unit tests of \<open>src/verification/worker.rs\<close> on the model. A test verifier is a backend of the
  model; the number of its calls is the number of attempts, one more than the pauses between
  them. A test that runs the worker gives the sequence of its steps; a verifier that waits for a permit
  is a job that finishes when the test lets it.
\<close>

section \<open>Jobs\<close>

definition job_config :: "nat \<Rightarrow> verification_config" where
  "job_config n = \<lparr>max_concurrent_jobs = n, job_timeout = from_secs 30, max_retries = 2, retry_backoff = from_millis 250\<rparr>"

text \<open>\<open>VerificationJob::detached\<close>; \<open>ptr\<close> is the address of the new allocation.\<close>

definition detached_job :: "nat \<Rightarrow> verification_id \<Rightarrow> zk_proof \<Rightarrow> verification_job" where
  "detached_job ptr i p = \<lparr>job_id = i, job_proof = p,
     job_claim = Arc ptr \<lparr>metadata = \<lparr>chain_observed_at = None, content_source = None, content_stored_at = None,
       verification = Some Verifying, completed_at = None\<rparr>, record_proof = Some p\<rparr>\<rparr>"

definition backend_busy :: verification_failure where
  "backend_busy = \<lparr>failure_code = ''backend_busy'', failure_message = ''backend is busy'', failure_retryable = True\<rparr>"

definition flaky_verifier :: verifier where
  "flaky_verifier p k = Returns 0 (if k < 2 then Inl backend_busy else Inr Valid)"

definition always_fail_verifier :: verifier where
  "always_fail_verifier p k = Returns 0 (Inl backend_busy)"

definition pending_verifier :: verifier where
  "pending_verifier p k = Hangs"

definition panic_verifier :: verifier where
  "panic_verifier p k = Panics 0"

definition invalid_verifier :: verifier where
  "invalid_verifier p k = Returns 0 (Inr Invalid)"

definition retries_retryable_failures_with_exponential_backoff :: "'x externs_scheme \<Rightarrow> nat \<Rightarrow> bool" where
  "retries_retryable_failures_with_exponential_backoff X ptr \<longleftrightarrow>
     (case execute_job (detached_job ptr (verification_id X (seed_proof 3)) (seed_proof 3)) (Some flaky_verifier) (job_config 1) of
        None \<Rightarrow> False
      | Some (oc, delays) \<Rightarrow>
          sum_list delays \<le> from_millis 750 \<and> Suc (length delays) = 3 \<and> oc = OutcomeCompleted Valid)"

definition stores_last_failure_after_retry_budget_is_exhausted :: "'x externs_scheme \<Rightarrow> nat \<Rightarrow> bool" where
  "stores_last_failure_after_retry_budget_is_exhausted X ptr \<longleftrightarrow>
     (case execute_job (detached_job ptr (verification_id X (seed_proof 8)) (seed_proof 8)) (Some always_fail_verifier) (job_config 1) of
        Some (OutcomeFailed f, delays) \<Rightarrow>
          Suc (length delays) = 3 \<and> failure_code f = ''backend_busy'' \<and> failure_retryable f
      | _ \<Rightarrow> False)"

definition retries_timeouts_and_reports_a_bounded_failure :: "'x externs_scheme \<Rightarrow> nat \<Rightarrow> bool" where
  "retries_timeouts_and_reports_a_bounded_failure X ptr \<longleftrightarrow>
     (case execute_job (detached_job ptr (verification_id X (seed_proof 9)) (seed_proof 9)) (Some pending_verifier)
        ((job_config 1)\<lparr>job_timeout := from_secs 1\<rparr>) of
        Some (OutcomeFailed f, delays) \<Rightarrow>
          Suc (length delays) = 3 \<and> failure_code f = ''verification_timeout'' \<and> failure_retryable f
      | _ \<Rightarrow> False)"

definition catches_backend_panic_as_non_retryable_failure :: "'x externs_scheme \<Rightarrow> nat \<Rightarrow> bool" where
  "catches_backend_panic_as_non_retryable_failure X ptr \<longleftrightarrow>
     (case execute_job (detached_job ptr (verification_id X (seed_proof 4)) (seed_proof 4)) (Some panic_verifier) (job_config 1) of
        Some (OutcomeFailed f, _) \<Rightarrow> failure_code f = ''verifier_panicked'' \<and> \<not> failure_retryable f
      | _ \<Rightarrow> False)"

lemmas job_run = execute_job_def execute_loop.simps execute_attempt_def outcome_retryable_def shl_u32_def static_failures
  job_config_def backend_busy_def flaky_verifier_def always_fail_verifier_def pending_verifier_def panic_verifier_def
  invalid_verifier_def detached_job_def duration_saturating_mul_def duration_max_def from_millis_def from_secs_def
  u32_bound_def u64_bound_def Let_def

lemma retries_retryable_failures_with_exponential_backoff:
  "retries_retryable_failures_with_exponential_backoff X ptr"
  by (simp add: retries_retryable_failures_with_exponential_backoff_def job_run)

lemma stores_last_failure_after_retry_budget_is_exhausted:
  "stores_last_failure_after_retry_budget_is_exhausted X ptr"
  by (simp add: stores_last_failure_after_retry_budget_is_exhausted_def job_run)

lemma retries_timeouts_and_reports_a_bounded_failure: "retries_timeouts_and_reports_a_bounded_failure X ptr"
  by (simp add: retries_timeouts_and_reports_a_bounded_failure_def job_run)

lemma catches_backend_panic_as_non_retryable_failure: "catches_backend_panic_as_non_retryable_failure X ptr"
  by (simp add: catches_backend_panic_as_non_retryable_failure_def job_run)

section \<open>The worker\<close>

definition worker_store_config :: "nat \<Rightarrow> proof_store_config" where
  "worker_store_config event_buffer = \<lparr>max_capacity_bytes = 4 * 1024 * 1024, config_max_proof_bytes = 1024,
     terminal_retention = from_secs 60, store_event_buffer = event_buffer\<rparr>"

definition insert_ready ::
  "'x store_externs_scheme \<Rightarrow> instant \<Rightarrow> store \<Rightarrow> zk_proof \<Rightarrow> (store \<times> proof_store_event list \<times> verification_id) option" where
  "insert_ready X now s p =
     (let i = verification_id X p;
          (s1, ev1, r1) = observe_chain_verification X now s i;
          (s2, ev2, r2) = insert_local_proof X now s1 p Rpc
      in if is_ok r1 \<and> is_ok r2 then Some (s2, ev1 @ ev2, i) else None)"

text \<open>The start of \<open>run\<close> and one pass through its loop: queue what is ready, start the jobs.\<close>

definition worker_starts ::
  "'x store_externs_scheme \<Rightarrow> verification_config \<Rightarrow> store \<Rightarrow> worker \<Rightarrow> (store \<times> worker) option" where
  "worker_starts X c s w =
     (case start_ready_jobs X False c s w of (s1, _, w1, Inr _) \<Rightarrow> Some (s1, w1) | _ \<Rightarrow> None)"

text \<open>The first running job ends and is committed.\<close>

definition worker_finishes ::
  "'x store_externs_scheme \<Rightarrow> verifier_registry \<Rightarrow> verification_config \<Rightarrow> instant \<Rightarrow> store \<Rightarrow> worker \<Rightarrow> (store \<times> worker) option" where
  "worker_finishes X R c now s w =
     (case jobs w of
        [] \<Rightarrow> None
      | job # rest \<Rightarrow>
          (case execute_job job (registry_get R (proof_type (job_proof job))) c of
             None \<Rightarrow> None
           | Some (oc, _) \<Rightarrow>
               (case commit_completion X now s (w\<lparr>jobs := rest\<rparr>) (Inr (job, oc)) of
                  (s1, _, Inr w1) \<Rightarrow> Some (s1, w1) | _ \<Rightarrow> None)))"

definition commits_invalid_as_a_cryptographic_verdict :: "'x store_externs_scheme \<Rightarrow> instant \<Rightarrow> bool" where
  "commits_invalid_as_a_cryptographic_verdict X now \<longleftrightarrow>
     (case (store_new (worker_store_config 16), registry_new [(NoirBarretenberg, invalid_verifier)]) of
        (Inr s, Inr R) \<Rightarrow>
          (case insert_ready X now s (seed_proof 1) of None \<Rightarrow> False | Some (s1, _, i) \<Rightarrow>
          (case worker_starts X (job_config 1) s1 (reconcile_ready_records X s1 worker_new) of
             None \<Rightarrow> False | Some (s2, w2) \<Rightarrow>
          (case worker_finishes X R (job_config 1) now s2 w2 of
             None \<Rightarrow> False | Some (s3, w3) \<Rightarrow>
               status (statuses X s3 [i] ! 0) = StatusCompleted Invalid
               \<and> is_ok (snd (snd (drain_worker X now s3 w3 []))))))
      | _ \<Rightarrow> False)"

definition missing_backend_is_failed_never_invalid :: "'x store_externs_scheme \<Rightarrow> instant \<Rightarrow> bool" where
  "missing_backend_is_failed_never_invalid X now \<longleftrightarrow>
     (case store_new (worker_store_config 16) of
        Inl _ \<Rightarrow> False
      | Inr s \<Rightarrow>
          (case insert_ready X now s (seed_proof 2) of None \<Rightarrow> False | Some (s1, _, i) \<Rightarrow>
          (case worker_starts X (job_config 1) s1 (reconcile_ready_records X s1 worker_new) of
             None \<Rightarrow> False | Some (s2, w2) \<Rightarrow>
          (case worker_finishes X Map.empty (job_config 1) now s2 w2 of
             None \<Rightarrow> False | Some (s3, w3) \<Rightarrow>
               (case status (statuses X s3 [i] ! 0) of
                  StatusFailed f \<Rightarrow> failure_code f = ''unsupported_proof_type'' \<and> \<not> failure_retryable f
                | _ \<Rightarrow> False)
               \<and> is_ok (snd (snd (drain_worker X now s3 w3 [])))))))"

text \<open>The events of the store reach the worker one by one.\<close>

fun worker_hears ::
  "'x store_externs_scheme \<Rightarrow> store \<Rightarrow> proof_store_event list \<Rightarrow> worker \<Rightarrow> worker option" where
  "worker_hears X s [] w = Some w"
| "worker_hears X s (e # es) w =
     (case handle_store_result X s w (Inr e) of Inl _ \<Rightarrow> None | Inr w1 \<Rightarrow> worker_hears X s es w1)"

definition eviction_and_reinsertion_do_not_run_the_same_id_concurrently ::
  "'x store_externs_scheme \<Rightarrow> instant \<Rightarrow> bool" where
  "eviction_and_reinsertion_do_not_run_the_same_id_concurrently X now \<longleftrightarrow>
     (case (store_new (worker_store_config 32), registry_new [(NoirBarretenberg, valid_verifier)]) of
        (Inr s, Inr R) \<Rightarrow>
          (case insert_ready X now s (seed_proof 42) of None \<Rightarrow> False | Some (s1, _, i) \<Rightarrow>
          (case worker_starts X (job_config 2) s1 (reconcile_ready_records X s1 worker_new) of
             None \<Rightarrow> False | Some (s2, w2) \<Rightarrow>
           let (s3, ev3) = invalidate X s2 i in
          (case insert_ready X now s3 (seed_proof 42) of None \<Rightarrow> False | Some (s4, ev4, _) \<Rightarrow>
          (case worker_hears X s4 (ev3 @ ev4) w2 of None \<Rightarrow> False | Some w4 \<Rightarrow>
          (case worker_starts X (job_config 2) s4 w4 of None \<Rightarrow> False | Some (s5, w5) \<Rightarrow>
             length (jobs w2) = 1 \<and> jobs w5 = jobs w2 \<and>
          (case worker_finishes X R (job_config 2) now s5 w5 of None \<Rightarrow> False | Some (s6, w6) \<Rightarrow>
          (case worker_starts X (job_config 2) s6 w6 of None \<Rightarrow> False | Some (s7, w7) \<Rightarrow>
             length (jobs w7) = 1 \<and>
          (case worker_finishes X R (job_config 2) now s7 w7 of None \<Rightarrow> False | Some (s8, w8) \<Rightarrow>
               status (statuses X s8 [i] ! 0) = StatusCompleted Valid
               \<and> is_ok (snd (snd (drain_worker X now s8 w8 [])))))))))))
      | _ \<Rightarrow> False)"

definition eviction_removes_pending_work_and_reconciliation_rebuilds_the_queue ::
  "'x store_externs_scheme \<Rightarrow> instant \<Rightarrow> bool" where
  "eviction_removes_pending_work_and_reconciliation_rebuilds_the_queue X now \<longleftrightarrow>
     (case store_new (worker_store_config 16) of
        Inl _ \<Rightarrow> False
      | Inr s \<Rightarrow>
          let stale = verification_id X (seed_proof 50); w1 = enqueue stale worker_new in
          (case handle_store_result X s w1 (Inr (ProofEvicted stale EvictSize)) of
             Inl _ \<Rightarrow> False
           | Inr w2 \<Rightarrow>
               pending w2 = [] \<and> pending_ids w2 = {} \<and>
               (case insert_ready X now s (seed_proof 51) of None \<Rightarrow> False | Some (s1, _, ready) \<Rightarrow>
                  let w3 = reconcile_ready_records X s1 (enqueue stale w2)
                  in pending w3 = [ready] \<and> pending_ids w3 = {ready})))"

fun insert_all ::
  "'x store_externs_scheme \<Rightarrow> instant \<Rightarrow> store \<Rightarrow> zk_proof list \<Rightarrow> (store \<times> verification_id list) option" where
  "insert_all X now s [] = Some (s, [])"
| "insert_all X now s (p # ps) =
     (case insert_ready X now s p of
        None \<Rightarrow> None
      | Some (s1, _, i) \<Rightarrow> (case insert_all X now s1 ps of None \<Rightarrow> None | Some (s2, is) \<Rightarrow> Some (s2, i # is)))"

text \<open>The permits let both running jobs end after the stop.\<close>

definition shutdown_drains_active_jobs_without_starting_pending_work :: "'x store_externs_scheme \<Rightarrow> instant \<Rightarrow> bool" where
  "shutdown_drains_active_jobs_without_starting_pending_work X now \<longleftrightarrow>
     (case (store_new (worker_store_config 16), registry_new [(NoirBarretenberg, valid_verifier)]) of
        (Inr s, Inr R) \<Rightarrow>
          (case insert_all X now s (map seed_proof [10, 11, 12, 13]) of None \<Rightarrow> False | Some (s1, ids) \<Rightarrow>
          (case worker_starts X (job_config 2) s1 (reconcile_ready_records X s1 worker_new) of
             None \<Rightarrow> False | Some (s2, w2) \<Rightarrow>
           let completions = map (\<lambda>job. map_option (\<lambda>(oc, _). Inr (job, oc))
                 (execute_job job (registry_get R (proof_type (job_proof job))) (job_config 2))) (jobs w2);
               (s3, _, r) = drain_worker X now s2 w2 (List.map_filter id completions);
               states = map status (statuses X s3 ids)
           in length (jobs w2) = 2 \<and> None \<notin> set completions \<and> is_ok r
              \<and> length (filter ((=) StatusQueued) states) = 2
              \<and> length (filter ((=) (StatusCompleted Valid)) states) = 2))
      | _ \<Rightarrow> False)"

lemma worker_store_new:
  assumes "0 < n"
  shows "store_new (worker_store_config n) =
    Inr \<lparr>records = Map.empty, next_ptr = 0, max_proof_bytes = 1024, terminal_expiry = from_secs 60\<rparr>"
  using assms
  by (simp add: store_new_def worker_store_config_def u32_try_from_def checked_add_u32_def checked_add_usize_def
      METADATA_WEIGHT_BYTES_def FAILURE_CODE_MAX_BYTES_def FAILURE_MESSAGE_MAX_BYTES_def word_bounds from_secs_pos)

lemma single_iter:
  assumes "moka X"
  shows "cache_iter X [i \<mapsto> a] = [(i, a)]"
proof -
  have d: "distinct (map fst (cache_iter X [i \<mapsto> a]))"
    and m: "(k, v) \<in> set (cache_iter X [i \<mapsto> a]) \<longleftrightarrow> k = i \<and> v = a" for k v
    using assms by (auto simp: moka_def moka_iter_def split: if_splits)
  have "set (cache_iter X [i \<mapsto> a]) = {(i, a)}" using m by auto
  moreover have "distinct (cache_iter X [i \<mapsto> a])" using d by (simp add: distinct_map)
  ultimately have "length (cache_iter X [i \<mapsto> a]) = 1" by (metis One_nat_def card.empty card_insert_disjoint distinct_card
      empty_iff finite.emptyI)
  then show ?thesis using m by (cases "cache_iter X [i \<mapsto> a]") auto
qed

definition ready_record :: "instant \<Rightarrow> zk_proof \<Rightarrow> proof_record" where
  "ready_record now p = \<lparr>metadata = \<lparr>chain_observed_at = Some now, content_source = Some Rpc, content_stored_at = Some now,
     verification = Some Queued, completed_at = None\<rparr>, record_proof = Some p\<rparr>"

definition claimed_record :: "instant \<Rightarrow> zk_proof \<Rightarrow> proof_record" where
  "claimed_record now p = (ready_record now p)\<lparr>metadata := (metadata (ready_record now p))\<lparr>verification := Some Verifying\<rparr>\<rparr>"

lemma insert_ready_fresh:
  assumes "moka X" "varint_len X" "max_proof_bytes s = 1024" "records s (verification_id X (seed_proof b)) = None"
  shows "insert_ready X now s (seed_proof b) =
    Some (s\<lparr>records := (records s)(verification_id X (seed_proof b) \<mapsto> Arc (Suc (next_ptr s)) (ready_record now (seed_proof b))),
            next_ptr := Suc (Suc (next_ptr s))\<rparr>,
          [VerificationObserved (verification_id X (seed_proof b)),
           ProofStored (verification_id X (seed_proof b)) Rpc,
           VerificationChanged (verification_id X (seed_proof b)) Queued],
          verification_id X (seed_proof b))"
  using assms
  by (simp add: insert_ready_def test_run compute_run [OF assms(1)] seed_proof_len ready_record_def)

lemma start_claims:
  assumes "moka X" "length (jobs w) < max_concurrent_jobs c" "pending w = i # q" "i \<notin> active_ids w"
    and "records s i = Some (Arc k (ready_record now p))"
  shows "start_ready_jobs X False c s w =
    (let claim = Arc (next_ptr s) (claimed_record now p);
         (s', evs, w', r) = start_ready_jobs X False c
           (s\<lparr>records := (records s)(i \<mapsto> claim), next_ptr := Suc (next_ptr s)\<rparr>)
           (w\<lparr>pending := q, pending_ids := pending_ids w - {i}, active_ids := insert i (active_ids w),
              jobs := jobs w @ [\<lparr>job_id = i, job_proof = p, job_claim = claim\<rparr>]\<rparr>)
     in (s', VerificationChanged i Verifying # evs, w', r))"
  using assms
  by (subst start_ready_jobs.simps)
     (simp add: start_next_def pop_pending_def begin_verification_def begin_entry_def compute_run [OF assms(1)] ready_record_def
       claimed_record_def Let_def split: prod.splits)

lemma start_stops:
  assumes "pending w = [] \<or> max_concurrent_jobs c \<le> length (jobs w)"
  shows "start_ready_jobs X False c s w = (s, [], w, Inr ())"
  using assms by (subst start_ready_jobs.simps) (auto simp: start_next_def pop_pending_def)

lemma reconcile_single:
  assumes "moka X" "records s = [i \<mapsto> Arc k (ready_record now p)]" "active_ids w = {}"
  shows "reconcile_ready_records X s w = w\<lparr>pending := [i], pending_ids := {i}\<rparr>"
  using assms
  by (simp add: reconcile_ready_records_def records_ready_for_verification_def snapshot_def single_iter
      ready_for_verification_def ready_record_def enqueue_def push_pending_def clear_pending_def)

lemma seed_type [simp]: "proof_type (seed_proof b) = NoirBarretenberg"
  by (simp add: seed_proof_def)

definition finished_record :: "instant \<Rightarrow> verification_state \<Rightarrow> zk_proof \<Rightarrow> proof_record" where
  "finished_record now vs p = (ready_record now p)\<lparr>metadata := (metadata (ready_record now p))\<lparr>verification := Some vs,
     completed_at := (case vs of Completed _ \<Rightarrow> Some now | _ \<Rightarrow> None)\<rparr>\<rparr>"

lemma commits_claim:
  assumes "moka X" "records s i = Some (Arc k (claimed_record now p))"
  shows "commit_completion X now s w (Inr (\<lparr>job_id = i, job_proof = p, job_claim = Arc k r\<rparr>, oc)) =
    (s\<lparr>records := (records s)(i \<mapsto> Arc (next_ptr s) (finished_record now (outcome_state oc) p)), next_ptr := Suc (next_ptr s)\<rparr>,
     [VerificationChanged i (outcome_state oc)], Inr (w\<lparr>active_ids := active_ids w - {i}\<rparr>))"
  using assms
  by (simp add: commit_completion_def commit_finish_def commit_recheck_def finish_verification_def finish_entry_def
      compute_run [OF assms(1)] moka_getD [OF assms(1)] store_change_def claimed_record_def ready_record_def
      finished_record_def outcome_state_def Let_def split: verification_outcome.split)

lemma commits_stale:
  assumes "moka X" "records s i = Some (Arc k (ready_record now p))" "k \<noteq> k'"
  shows "commit_completion X now s w (Inr (\<lparr>job_id = i, job_proof = p', job_claim = Arc k' r\<rparr>, oc)) =
    (s\<lparr>next_ptr := Suc (next_ptr s)\<rparr>, [], Inr (push_pending i (w\<lparr>active_ids := active_ids w - {i}\<rparr>)))"
  using assms
  by (simp add: commit_completion_def commit_finish_def commit_recheck_def finish_verification_def finish_entry_def
      compute_run [OF assms(1)] moka_getD [OF assms(1)] store_change_def ready_record_def enqueue_def Let_def)

lemma status_finished:
  assumes "moka X" "records s i = Some (Arc k (finished_record now (outcome_state oc) p))"
  shows "status_of (store_get X s i) =
    (case oc of OutcomeCompleted v \<Rightarrow> StatusCompleted v | OutcomeFailed f \<Rightarrow> StatusFailed f)"
  using assms
  by (simp add: status_of_def moka_getD [OF assms(1)] finished_record_def outcome_state_def ready_record_def
      split: verification_outcome.split)

lemmas worker_run = worker_starts_def worker_finishes_def start_stops start_claims insert_ready_fresh reconcile_single
  worker_new_def worker_store_new registry_new_def registry_get_def commits_claim commits_stale statuses_def
  drain_worker_def clear_pending_def status_finished

lemma commits_invalid_as_a_cryptographic_verdict:
  assumes "moka X" "varint_len X"
  shows "commits_invalid_as_a_cryptographic_verdict X now"
  using assms
  by (simp add: commits_invalid_as_a_cryptographic_verdict_def worker_run job_run)

lemma missing_backend_is_failed_never_invalid:
  assumes "moka X" "varint_len X"
  shows "missing_backend_is_failed_never_invalid X now"
  using assms
  by (simp add: missing_backend_is_failed_never_invalid_def worker_run job_run)

lemma eviction_and_reinsertion_do_not_run_the_same_id_concurrently:
  assumes "moka X" "varint_len X"
  shows "eviction_and_reinsertion_do_not_run_the_same_id_concurrently X now"
  using assms
  by (simp add: eviction_and_reinsertion_do_not_run_the_same_id_concurrently_def worker_run job_run valid_verifier_def
      moka_invalidateD [OF assms(1)] handle_store_result_def remove_pending_def enqueue_def push_pending_def)

lemma eviction_removes_pending_work_and_reconciliation_rebuilds_the_queue:
  assumes "moka X" "varint_len X"
  shows "eviction_removes_pending_work_and_reconciliation_rebuilds_the_queue X now"
  using assms
  by (simp add: eviction_removes_pending_work_and_reconciliation_rebuilds_the_queue_def worker_run
      handle_store_result_def remove_pending_def enqueue_def push_pending_def Let_def)

lemma insert_all_fresh:
  assumes "moka X" "varint_len X" "max_proof_bytes s = 1024" "\<And>b. b \<in> set bs \<Longrightarrow> records s (verification_id X (seed_proof b)) = None"
    and "distinct (map (\<lambda>b. verification_id X (seed_proof b)) bs)"
  shows "\<exists>s'. insert_all X now s (map seed_proof bs) = Some (s', map (\<lambda>b. verification_id X (seed_proof b)) bs)
    \<and> dom (records s') = dom (records s) \<union> (\<lambda>b. verification_id X (seed_proof b)) ` set bs
    \<and> (\<forall>i. i \<in> dom (records s) \<longrightarrow> records s' i = records s i)
    \<and> (\<forall>b \<in> set bs. \<exists>k. records s' (verification_id X (seed_proof b)) = Some (Arc k (ready_record now (seed_proof b))))"
  using assms(3-)
proof (induction bs arbitrary: s)
  case (Cons b bs)
  let ?i = "verification_id X (seed_proof b)"
  let ?s = "s\<lparr>records := (records s)(?i \<mapsto> Arc (Suc (next_ptr s)) (ready_record now (seed_proof b))),
    next_ptr := Suc (Suc (next_ptr s))\<rparr>"
  have fresh: "\<And>c. c \<in> set bs \<Longrightarrow> records ?s (verification_id X (seed_proof c)) = None"
    using Cons.prems(2,3) by (auto simp: image_iff)
  have mx: "max_proof_bytes ?s = 1024" and di: "distinct (map (\<lambda>b. verification_id X (seed_proof b)) bs)" using Cons.prems(1,3) by simp_all
  obtain s' where s': "insert_all X now ?s (map seed_proof bs) = Some (s', map (\<lambda>b. verification_id X (seed_proof b)) bs)"
    "dom (records s') = dom (records ?s) \<union> (\<lambda>b. verification_id X (seed_proof b)) ` set bs"
    "\<forall>i. i \<in> dom (records ?s) \<longrightarrow> records s' i = records ?s i"
    "\<forall>b \<in> set bs. \<exists>k. records s' (verification_id X (seed_proof b)) = Some (Arc k (ready_record now (seed_proof b)))"
    using Cons.IH [OF mx fresh di] by blast
  moreover have "records s' ?i = Some (Arc (Suc (next_ptr s)) (ready_record now (seed_proof b)))" using s'(3) by simp
  moreover have "insert_all X now s (map seed_proof (b # bs)) = Some (s', map (\<lambda>b. verification_id X (seed_proof b)) (b # bs))"
    using insert_ready_fresh [OF assms(1,2) Cons.prems(1), of b now] Cons.prems(2) [of b] s'(1) by simp
  moreover have "\<forall>i. i \<in> dom (records s) \<longrightarrow> records s' i = records s i"
    using s'(3) Cons.prems(2) [of b] by (auto simp: domIff)
  ultimately show ?case by (intro exI [of _ s']) auto
qed simp

lemma fold_enqueue:
  assumes "distinct is" "set is \<inter> (active_ids w \<union> pending_ids w) = {}"
  shows "fold enqueue is w = w\<lparr>pending := pending w @ is, pending_ids := pending_ids w \<union> set is\<rparr>"
  using assms by (induction "is" arbitrary: w) (auto simp: enqueue_def push_pending_def)

text \<open>When every record is ready, reconciliation queues all of them, in the order of the cache.\<close>

lemma reconcile_all:
  assumes "moka X" "finite (dom (records s))" "active_ids w = {}" "\<And>i a. records s i = Some a \<Longrightarrow> ready_for_verification (arc_val a)"
  obtains "is" where "reconcile_ready_records X s w = w\<lparr>pending := is, pending_ids := set is\<rparr>" "distinct is" "set is = dom (records s)"
proof -
  let ?is = "map fst (cache_iter X (records s))"
  have d: "distinct ?is" and m: "\<And>k v. (k, v) \<in> set (cache_iter X (records s)) \<longleftrightarrow> records s k = Some v"
    using assms(1,2) by (auto simp: moka_def moka_iter_def)
  have "filter (\<lambda>(i, a). ready_for_verification (arc_val a)) (cache_iter X (records s)) = cache_iter X (records s)"
    using m assms(4) by (auto simp: filter_id_conv)
  then have "reconcile_ready_records X s w = fold enqueue ?is (clear_pending w)"
    by (simp add: reconcile_ready_records_def records_ready_for_verification_def snapshot_def fold_map comp_def case_prod_unfold)
  moreover have "fold enqueue ?is (clear_pending w) = w\<lparr>pending := ?is, pending_ids := set ?is\<rparr>"
    using fold_enqueue [OF d, of "clear_pending w"] assms(3) by (simp add: clear_pending_def)
  moreover have "set ?is = dom (records s)" using m by force
  ultimately show ?thesis using that d by auto
qed

lemma count_states:
  assumes "distinct is" "set is = A \<union> B" "A \<inter> B = {}" "finite A" "\<And>i. i \<in> A \<Longrightarrow> f i = x" "\<And>i. i \<in> B \<Longrightarrow> f i \<noteq> x"
  shows "length (filter (\<lambda>i. x = f i) is) = card A"
proof -
  have "set (filter (\<lambda>i. x = f i) is) = A" using assms(2,3,5,6) by auto
  then show ?thesis using assms(1) distinct_card [of "filter (\<lambda>i. x = f i) is"] by simp
qed

lemma ready_states:
  assumes "moka X" "records s i = Some (Arc k (ready_record now p))"
  shows "status_of (store_get X s i) = StatusQueued"
  using assms by (simp add: status_of_def moka_getD [OF assms(1)] ready_record_def)

text \<open>Of four ready records, whatever the order of the cache, the two first are started and drained.\<close>

lemma drains_two_of_four:
  assumes "moka X" "distinct [a, b, c, d]"
    and "records s a = Some (Arc ka (ready_record now (seed_proof pa)))" "records s b = Some (Arc kb (ready_record now (seed_proof pb)))"
    and "records s c = Some (Arc kc (ready_record now (seed_proof pc)))" "records s d = Some (Arc kd (ready_record now (seed_proof pd)))"
    and "w = worker_new\<lparr>pending := [a, b, c, d], pending_ids := {a, b, c, d}\<rparr>"
  shows "\<exists>s2 w2 s3 evs w3 ja jb. worker_starts X (job_config 2) s w = Some (s2, w2) \<and> jobs w2 = [ja, jb]
    \<and> job_proof ja = seed_proof pa \<and> job_proof jb = seed_proof pb
    \<and> drain_worker X now s2 w2 [Inr (ja, OutcomeCompleted Valid), Inr (jb, OutcomeCompleted Valid)] = (s3, evs, Inr w3)
    \<and> (\<forall>i \<in> {a, b}. status_of (store_get X s3 i) = StatusCompleted Valid)
    \<and> (\<forall>i \<in> {c, d}. status_of (store_get X s3 i) = StatusQueued)"
proof -
  have "b \<noteq> a" "c \<noteq> a" "c \<noteq> b" "d \<noteq> a" "d \<noteq> b" using assms(2) by auto
  then show ?thesis
    using assms(1,3-) by (simp add: worker_run job_config_def ready_states Let_def)
qed

lemma four_list:
  assumes "distinct is" "card (set is) = 4"
  obtains a b c d where "is = [a, b, c, d]"
proof -
  have "length is = 4" using assms by (simp add: distinct_card)
  then show ?thesis using that by (auto simp: numeral_eq_Suc length_Suc_conv)
qed

text \<open>The test's four records: the queue holds all of them, in an order that the cache chooses.\<close>

lemma four_queued:
  assumes "moka X" "varint_len X" "ids = map (\<lambda>b. verification_id X (seed_proof b)) [10, 11, 12, 13]" "distinct ids"
    and "s = \<lparr>records = Map.empty, next_ptr = 0, max_proof_bytes = 1024, terminal_expiry = from_secs 60\<rparr>"
  obtains s1 a b c d where "insert_all X now s (map seed_proof [10, 11, 12, 13]) = Some (s1, ids)"
    "reconcile_ready_records X s1 worker_new = worker_new\<lparr>pending := [a, b, c, d], pending_ids := {a, b, c, d}\<rparr>"
    "distinct [a, b, c, d]" "set ids = {a, b, c, d}"
    "\<And>i. i \<in> set ids \<Longrightarrow> \<exists>k e. records s1 i = Some (Arc k (ready_record now (seed_proof e)))"
proof -
  obtain s1 where s1: "insert_all X now s (map seed_proof [10, 11, 12, 13]) = Some (s1, ids)" "dom (records s1) = set ids"
      "\<forall>b \<in> set [10, 11, 12, 13]. \<exists>k. records s1 (verification_id X (seed_proof b)) = Some (Arc k (ready_record now (seed_proof b)))"
    using insert_all_fresh [OF assms(1,2), of s "[10, 11, 12, 13]" now] assms(3-5) by auto
  have ready: "\<exists>k b. records s1 i = Some (Arc k (ready_record now (seed_proof b)))" if "i \<in> set ids" for i
    using s1(3) that assms(3) by auto
  have all: "ready_for_verification (arc_val x)" if "records s1 i = Some x" for i x
  proof -
    have "i \<in> set ids" using that s1(2) by blast
    from ready [OF this] obtain k b where "records s1 i = Some (Arc k (ready_record now (seed_proof b)))" by (elim exE)
    with that show ?thesis by (auto simp: ready_for_verification_def ready_record_def)
  qed
  have "finite (dom (records s1))" by (simp only: s1(2) finite_set)
  moreover have "active_ids worker_new = {}" by (simp add: worker_new_def)
  ultimately obtain q where q: "reconcile_ready_records X s1 worker_new = worker_new\<lparr>pending := q, pending_ids := set q\<rparr>" "distinct q"
      "set q = dom (records s1)"
    using all by (rule reconcile_all [OF assms(1)])
  have "card (set q) = 4" unfolding q(3) s1(2) distinct_card [OF assms(4)] by (simp add: assms(3))
  then obtain a b c d where abcd: "q = [a, b, c, d]" by (rule four_list [OF q(2)])
  have "set ids = {a, b, c, d}" using q(3) s1(2) abcd by simp
  moreover have "reconcile_ready_records X s1 worker_new = worker_new\<lparr>pending := [a, b, c, d], pending_ids := {a, b, c, d}\<rparr>"
    using q(1) abcd by simp
  moreover have "distinct [a, b, c, d]" using q(2) abcd by simp
  ultimately show ?thesis using that s1(1) ready by blast
qed

lemma shutdown_drains_active_jobs_without_starting_pending_work:
  assumes "moka X" "varint_len X" "distinct (map (\<lambda>b. verification_id X (seed_proof b)) [10, 11, 12, 13])"
  shows "shutdown_drains_active_jobs_without_starting_pending_work X now"
proof -
  let ?s = "\<lparr>records = Map.empty, next_ptr = 0, max_proof_bytes = 1024, terminal_expiry = from_secs 60\<rparr> :: store"
  let ?ids = "map (\<lambda>b. verification_id X (seed_proof b)) [10, 11, 12, 13]"
  obtain s1 a b c d where s1: "insert_all X now ?s (map seed_proof [10, 11, 12, 13]) = Some (s1, ?ids)"
      "reconcile_ready_records X s1 worker_new = worker_new\<lparr>pending := [a, b, c, d], pending_ids := {a, b, c, d}\<rparr>"
      "distinct [a, b, c, d]" "set ?ids = {a, b, c, d}"
    and ready: "\<And>i. i \<in> set ?ids \<Longrightarrow> \<exists>k e. records s1 i = Some (Arc k (ready_record now (seed_proof e)))"
    by (rule four_queued [OF assms(1,2) refl assms(3) refl, of now]) (rule that)
  have "a \<in> set ?ids" "b \<in> set ?ids" "c \<in> set ?ids" "d \<in> set ?ids" unfolding s1(4) by simp_all
  from this [THEN ready] obtain ka kb kc kd pa pb pc pd where r:
      "records s1 a = Some (Arc ka (ready_record now (seed_proof pa)))" "records s1 b = Some (Arc kb (ready_record now (seed_proof pb)))"
      "records s1 c = Some (Arc kc (ready_record now (seed_proof pc)))" "records s1 d = Some (Arc kd (ready_record now (seed_proof pd)))"
    by (elim exE) (rule that)
  obtain s2 w2 s3 evs w3 ja jb where run:
      "worker_starts X (job_config 2) s1 (reconcile_ready_records X s1 worker_new) = Some (s2, w2)"
      "jobs w2 = [ja, jb]" "job_proof ja = seed_proof pa" "job_proof jb = seed_proof pb"
      "drain_worker X now s2 w2 [Inr (ja, OutcomeCompleted Valid), Inr (jb, OutcomeCompleted Valid)] = (s3, evs, Inr w3)"
      "\<forall>i \<in> {a, b}. status_of (store_get X s3 i) = StatusCompleted Valid" "\<forall>i \<in> {c, d}. status_of (store_get X s3 i) = StatusQueued"
    using drains_two_of_four [OF assms(1) s1(3) r s1(2)] by auto
  let ?f = "\<lambda>i. status_of (store_get X s3 i)"
  have two: "card {a, b} = 2" "card {c, d} = 2" using s1(3) by auto
  have "length (filter (\<lambda>i. StatusQueued = ?f i) ?ids) = 2"
    unfolding two(2) [symmetric]
    by (rule count_states [OF assms(3), of _ "{a, b}"]) (use s1(3,4) run(6,7) in auto)
  moreover have "length (filter (\<lambda>i. StatusCompleted Valid = ?f i) ?ids) = 2"
    unfolding two(1) [symmetric]
    by (rule count_states [OF assms(3), of _ "{c, d}"]) (use s1(3,4) run(6,7) in auto)
  moreover have "execute_job j (Some valid_verifier) (job_config 2) = Some (OutcomeCompleted Valid, [])" for j
    by (simp add: job_run valid_verifier_def)
  ultimately show ?thesis
    using run(1-5) s1(1)
    by (simp add: shutdown_drains_active_jobs_without_starting_pending_work_def worker_store_new registry_new_def registry_get_def
        map_filter_simps statuses_def comp_def del: filter.simps)
qed


section \<open>A closed run of the worker\<close>

lemma worker_tests_run:
  "commits_invalid_as_a_cryptographic_verdict horner_externs now"
  "missing_backend_is_failed_never_invalid horner_externs now"
  "eviction_and_reinsertion_do_not_run_the_same_id_concurrently horner_externs now"
  "shutdown_drains_active_jobs_without_starting_pending_work horner_externs now"
proof -
  show "commits_invalid_as_a_cryptographic_verdict horner_externs now"
    "missing_backend_is_failed_never_invalid horner_externs now"
    "eviction_and_reinsertion_do_not_run_the_same_id_concurrently horner_externs now"
    by (intro commits_invalid_as_a_cryptographic_verdict missing_backend_is_failed_never_invalid
        eviction_and_reinsertion_do_not_run_the_same_id_concurrently horner_laws)+
  show "shutdown_drains_active_jobs_without_starting_pending_work horner_externs now"
    by (intro shutdown_drains_active_jobs_without_starting_pending_work horner_laws) (simp add: seed_proof_def horner_run)
qed

end
