(* ===== verification/Spec2Isabelle.thy ===== *)
theory Spec2Isabelle
  imports Verification_System Noir Submission Listener Process P2p_Channels P2p_Exchange Sha256 Tests_Config Tests_P2p
    Tests_Verification
begin

text \<open>
  Verification library of the Pulsar verifier (\<open>src/\<close>), a sidecar of a validator: it observes the proofs
  committed on the Pulsar chain, obtains their content from clients or other validators, verifies
  them with Barretenberg, and tells the chain the verdicts.

  \<^bold>\<open>The program and its parts.\<close> The proof store (\<open>store/\<close>) is the shared state: a record per
  verification identifier that gathers the observation on the chain, the content of the proof and
  the state of its verification, and publishes an event for every change. The listener
  (\<open>listener.rs\<close> over \<open>chain/\<close>) enters observations, the submission service (\<open>submission.rs\<close>,
  \<open>rpc/submission.rs\<close>) and the P2P worker (\<open>p2p/worker.rs\<close> over \<open>p2p/driver.rs\<close>) enter contents, the
  verification worker (\<open>verification/worker.rs\<close>) claims complete records and commits the outcome of
  a backend (\<open>verification/noir.rs\<close>), and the verification service (\<open>rpc/contract.rs\<close>,
  \<open>rpc/service.rs\<close>) answers the chain. The application (\<open>app.rs\<close>) starts, watches and stops these
  tasks and serves the control socket (\<open>control.rs\<close>).

  \<^bold>\<open>Theories.\<close> Each holds the state of its part as a record, its operations with the names of the
  source, and their lemmas.

  \<^item> \<open>Prelude\<close>: bytes and integer bounds, results, and the locale \<open>transition_system\<close>, whose
    interpretations carry every reachability argument. \<open>Std_Text\<close>: the parts of the Rust standard
    library on text that the code uses. \<open>Domain\<close>: the data shared by all parts and \<open>error.rs\<close>.
  \<^item> \<open>Config\<close> (\<open>config.rs\<close>): the file, its defaults and its validation; what loads is safe to run.
  \<^item> \<open>Proof_Identity\<close> (\<open>proof.rs\<close>): identifiers bind the content; the computed length is the
    length on the wire.
  \<^item> \<open>Proof_Store\<close> and \<open>Store_Lifecycle\<close> (\<open>store/\<close>): the operations on a cache; every operation is
    a move of an abstract life cycle, keeps the records well-formed, publishes exactly its events,
    and verdicts are final.
  \<^item> \<open>Verification\<close> and \<open>Verification_System\<close> (\<open>verification/mod.rs\<close>, \<open>verification/worker.rs\<close>):
    jobs, retries and queue of the worker, the contract \<open>verifier_backend\<close> of a backend, and the
    system of store, worker and event channel: verdicts come from the backend, no queued record
    is forgotten, limits hold, the drain leaves nothing claimed.
  \<^item> \<open>Noir\<close> (\<open>verification/noir.rs\<close>): requests, framing and classification of the answers.
  \<^item> \<open>Contract\<close> (\<open>rpc/contract.rs\<close>, \<open>rpc/service.rs\<close>): the two queries and their message sizes.
  \<^item> \<open>Chain_Client\<close> (\<open>chain/\<close>) and \<open>Listener\<close> (\<open>listener.rs\<close>): validated queries of the node, and
    the sessions that keep the window of active heights observed.
  \<^item> \<open>Submission\<close> (\<open>submission.rs\<close>, \<open>rpc/submission.rs\<close>): a receipt names a relayed transaction
    that commits to the stored proof.
  \<^item> \<open>P2p_Messages\<close> (\<open>p2p/identity.rs\<close>, \<open>authorization.rs\<close>, \<open>availability.rs\<close>, \<open>codec.rs\<close>, \<open>types.rs\<close>
    and the message identifier of \<open>behaviour.rs\<close>), \<open>Driver\<close> (\<open>p2p/driver.rs\<close>, \<open>behaviour.rs\<close>),
    \<open>Retrieval\<close> (\<open>p2p/worker.rs\<close>), \<open>P2p_Channels\<close> and \<open>P2p_Exchange\<close>: the messages and their round
    trips, the accounting of requests and replies in the driver, the bookkeeping of retrievals in the
    worker, the two tasks joined by their bounded channels, and the transfer of a proof between two
    nodes.
  \<^item> \<open>Control\<close> (\<open>control.rs\<close>), \<open>Tasks\<close> (task handles of \<open>listener.rs\<close>, \<open>rpc/server.rs\<close>,
    \<open>rpc/submission.rs\<close>, and \<open>p2p/service.rs\<close>) \<open>App\<close> (\<open>app.rs\<close>) and \<open>Process\<close> (\<open>lib.rs\<close>,
    \<open>cli.rs\<close>, \<open>telemetry.rs\<close>, \<open>main.rs\<close>): the control protocol, the shutdown of a task and the contract
    \<open>stoppable\<close>, the life of the application, and the commands with their exit code.
  \<^item> \<open>Sha256\<close>: the hash of \<open>proof.rs\<close> as FIPS 180-4 defines it, an instance of the parameter
    \<open>externs\<close>, on which the identifier pinned by the chain comes out.
  \<^item> \<open>Tests_Store\<close>, \<open>Tests_Config\<close>, \<open>Tests_Rpc\<close>, \<open>Tests_P2p\<close> and \<open>Tests_Verification\<close>: the tests of
    the repository as predicates of the model with the names they have there, each proved under the
    laws of the parameters it uses; they check the definitions against what the code's own tests expect.
  \<^item> This theory: the composition of application, worker, prover and service.

  \<^bold>\<open>State and effects.\<close> An operation takes the state and returns it with the events it publishes
  and its result; errors are values of the type of \<open>error.rs\<close>; a panic is a value of its own
  (\<open>None\<close> or a constructor), and the lemmas show where none can happen. Unsigned integers are
  natural numbers with the bounds of their width written out where the code checks or could
  exceed them, the wrapping timer generation is a word, instants and durations count nanoseconds.
  An update of one cache entry is atomic, as \<open>and_try_compute_with\<close> of the cache guarantees, and so is
  an iteration over the cache; the code between two awaits of a task is one step of a transition
  system, and other tasks act in between. In the system of store and worker an operation sends its
  events after its update is committed and other tasks may run in between; only the event of an
  eviction is sent under the lock of its entry. Iteration over a hash set or map is in sorted order where the model runs it; no theorem
  depends on that. The end of a task, the winner of a race and the time something takes are parameters,
  so a theorem holds for all of them.

  \<^bold>\<open>Parameters.\<close> Third-party code is a field of a record of functions: hashing and wire lengths
  (\<open>externs\<close>), the cache (\<open>store_externs\<close>, with the law \<open>moka\<close>: reads see the map, iteration lists
  it once), TOML, HTTP and addresses (\<open>config_externs\<close>), the node (\<open>comet\<close>), the transaction
  decoder (\<open>tx_codec\<close>), Barretenberg and MessagePack (\<open>noir_externs\<close>), keys and files (\<open>key_env\<close>,
  \<open>fs_env\<close>), protobuf and peer identifiers (\<open>p2p_codec\<close>, \<open>message_codec\<close>), and libp2p (\<open>net_env\<close>,
  \<open>build_env\<close>). Laws about them are named hypotheses, and the witnesses instantiate the
  records with concrete functions.

  \<^bold>\<open>Loops and bounds.\<close> Loops over data are structural. The retry loop and the paging loop have
  termination proofs, and their lemmas state the result they return. A task loop consumes a
  script of inputs and answers that it still waits at its end. The loop of \<open>try_retrieve\<close> asks the
  driver again after each unauthorized peer; \<open>provider_rounds\<close> bounds the rounds, and a number
  above that of the peers the driver names is enough for the turn to return
  (\<open>enough_replies\<close>). \<open>drive_pending\<close> takes at most one turn per entry of its queue, and the lemmas
  show that it needs no more.

  \<^bold>\<open>Not modelled.\<close> The log lines, argument parsing, generated protobuf types and the build script, the transport inside Tonic,
  libp2p, Moka and Tokio. Tests that need a real transport, socket, process or deserializer, or a
  particular schedule of many concurrent tasks, are not translated. Aborting a
  task is taken to end it; the destructors that abort a task left behind matter only for the
  listener that is dropped during startup, which is modelled.
\<close>

section \<open>From the prover to the chain\<close>

text \<open>The registry of the application holds at most the Barretenberg backend.\<close>

lemma app_registry_Inr:
  assumes "app_registry E cfg = Inr R" "R t = Some b"
  obtains v where "t = NoirBarretenberg" "noir_enabled (cfg_noir cfg)" "noir_initialize (env_prover E) (cfg_noir cfg) = Inr v"
    "b = noir_backend (env_attempts E) (env_took E) v"
  using assms by (auto simp: app_registry_def registry_new_def bind_res_Inr_iff split: if_splits)

lemma noir_backend_returns:
  assumes "noir_backend N took v p k = Returns d (Inr vd)"
  shows "bb_answers (N k) v p (CircuitVerifyResponse (vd = Valid))"
  using assms noir_verify_answers [of "N k" v p vd] by (auto simp: noir_backend_def split: option.splits)

lemma completed_results_entry:
  assumes "moka X" "c \<in> set (completed_results X s ids)"
  shows "phase_of (entry s (completed_id c)) = InState (Completed (completed_verdict c))"
  using assms(2)
  by (induction ids)
     (auto simp: moka_getD [OF assms(1)] entry_def phase_of_def split: option.splits verification_state.splits if_splits)

lemma rpc_result_completed:
  assumes "moka X" "rpc_get_verification_results X s raws = Inr results" "x \<in> set results"
  obtains c :: completed_verification where "x = \<lparr>result_id = as_bytes (completed_id c), result_verdict = wire_verdict (completed_verdict c)\<rparr>"
    "phase_of (entry s (completed_id c)) = InState (Completed (completed_verdict c))"
proof -
  obtain ids where "results = map (\<lambda>r. \<lparr>result_id = as_bytes (completed_id r), result_verdict = wire_verdict (completed_verdict r)\<rparr>)
      (completed_results X s ids)"
    using assms(2) by (auto simp: rpc_get_verification_results_def get_verification_results_def bind_res_Inr_iff map_err_def
        split: sum.splits)
  then obtain c where "x = \<lparr>result_id = as_bytes (completed_id c), result_verdict = wire_verdict (completed_verdict c)\<rparr>"
    "c \<in> set (completed_results X s ids)" using assms(3) by auto
  then show ?thesis using completed_results_entry [OF assms(1)] by (intro that [of c]) auto
qed

text \<open>
  C1. What the chain is told comes from the prover: in every state of the running system, each
  result that the verification service reports is about a proof in the store with the reported
  identifier, and the Barretenberg process of one of the allowed attempts answered the request
  for exactly this proof with the reported verdict.
\<close>

theorem chain_sees_proved_verdicts:
  assumes "app_registry E cfg = Inr R" "reachable_system X R (cfg_verification cfg) s"
    and "rpc_get_verification_results X (st s) raws = Inr results" "x \<in> set results"
  shows "\<exists>p v k vd. get_proof X (st s) (VerificationId (result_id x)) = Some p
    \<and> verification_id X p = VerificationId (result_id x) \<and> result_verdict x = wire_verdict vd
    \<and> noir_initialize (env_prover E) (cfg_noir cfg) = Inr v \<and> k \<le> max_retries (cfg_verification cfg)
    \<and> bb_answers (env_attempts E k) v p (CircuitVerifyResponse (vd = Valid))"
proof -
  note inv = sys_invD [OF reachable_sysD(1) [OF assms(2)]]
  obtain c :: completed_verification where c: "x = \<lparr>result_id = as_bytes (completed_id c), result_verdict = wire_verdict (completed_verdict c)\<rparr>"
    "phase_of (entry (st s) (completed_id c)) = InState (Completed (completed_verdict c))"
    using rpc_result_completed [OF inv(1) assms(3,4)] .
  then obtain r where r: "entry (st s) (completed_id c) = Some r" "verification (metadata r) = Some (Completed (completed_verdict c))"
    by (auto simp: phase_of_def split: option.splits if_splits)
  then obtain p where p: "record_proof r = Some p" "verdict_from R (cfg_verification cfg) p (completed_verdict c)"
    using inv(7) unfolding verdicts_sound_def by blast
  have id: "verification_id X p = completed_id c"
    using store_inv_entry [OF inv(2), of "completed_id c"] r(1) p(1) by (auto simp: record_ok_def content_ok_def)
  obtain b k d where b: "R (proof_type p) = Some b" "k \<le> max_retries (cfg_verification cfg)" "b p k = Returns d (Inr (completed_verdict c))"
    using p(2) by (auto simp: verdict_from_def)
  obtain v where v: "noir_initialize (env_prover E) (cfg_noir cfg) = Inr v" "b = noir_backend (env_attempts E) (env_took E) v"
    using app_registry_Inr [OF assms(1) b(1)] .
  have "get_proof X (st s) (completed_id c) = Some p"
    using r(1) p(1) by (auto simp: get_proof_def moka_getD [OF inv(1)] entry_def)
  then show ?thesis using c(1) id b(2) v noir_backend_returns [of "env_attempts E" "env_took E" v p k d "completed_verdict c"] b(3)
    by (intro exI [of _ p] exI [of _ v] exI [of _ k] exI [of _ "completed_verdict c"]) simp
qed

definition proving_config :: config where
  "proving_config = demo_app_config\<lparr>cfg_verification := demo_vconfig,
     cfg_noir := \<lparr>noir_enabled = True, binary_path = ''/opt/bb'', home_directory = ''/var/bb'', threads_per_job = 2\<rparr>\<rparr>"

definition proving_env :: app_env where
  "proving_env = (demo_app_env undefined)\<lparr>env_prover := demo_noir_externs, env_attempts := \<lambda>_. demo_noir_externs,
     env_took := \<lambda>_. 1\<rparr>"

lemma demo_read_version: "read_version demo_noir_externs b = Inr BB_VERSION"
proof -
  have "from_utf8 (ascii ''5.2.0'') = Inr ''5.2.0''" "trim ''5.2.0'' = ''5.2.0''" by code_simp+
  then show ?thesis by (simp add: read_version_def demo_noir_externs_def MAX_VERSION_BYTES_def BB_VERSION_def Let_def)
qed

lemma demo_noir_initialize: "noir_initialize demo_noir_externs (cfg_noir proving_config) = Inr demo_noir"
proof -
  have "fs_metadata demo_noir_externs p = Inr \<lparr>is_file = True, is_dir = True, mode = 73\<rparr>" for p
    by (simp add: demo_noir_externs_def)
  then show ?thesis by (simp add: noir_initialize_def demo_read_version proving_config_def demo_noir_def Let_def)
qed

lemma proving_registry:
  "app_registry proving_env proving_config = Inr [NoirBarretenberg \<mapsto> noir_backend (\<lambda>_. demo_noir_externs) (\<lambda>_. 1) demo_noir]"
proof -
  have "noir_enabled (cfg_noir proving_config)" by (simp add: proving_config_def)
  then show ?thesis
    using demo_noir_initialize by (simp add: app_registry_def proving_env_def registry_new_def)
qed

lemma demo_backend: "noir_backend (\<lambda>_. demo_noir_externs) (\<lambda>_. 1) demo_noir demo_proof 0 = Returns 1 (Inr Valid)"
proof -
  have "as_chunks (replicate 32 1) = [replicate 32 1]" by (simp add: as_chunks_long as_chunks_short)
  then show ?thesis
    by (simp add: noir_backend_def noir_verify_def demo_proof_def noir_fields_def as_chunks_short and_then_def
        encode_request_def exchange_def cleanup_process_def Let_def demo_noir_externs_def read_frame_round_trip
        read_frame_round_trip [where rest = "[]", simplified] build_command_def word_bounds MAX_RESPONSE_BYTES_def
        classify_response_def)
qed

theorem chain_sees_proved_verdicts_witness:
  "\<exists>p v k vd. get_proof demo_store_externs demo_completed demo_id = Some p \<and> verification_id demo_store_externs p = demo_id
     \<and> VERDICT_VALID = wire_verdict vd \<and> noir_initialize demo_noir_externs (cfg_noir proving_config) = Inr v \<and> k \<le> (2 :: nat)
     \<and> bb_answers demo_noir_externs v p (CircuitVerifyResponse (vd = Valid))"
proof -
  let ?R = "[NoirBarretenberg \<mapsto> noir_backend (\<lambda>_. demo_noir_externs) (\<lambda>_. 1) demo_noir]"
  let ?s = "demo_system demo_completed worker_new
     [VerificationChanged demo_id Verifying, VerificationChanged demo_id (Completed Valid)] (Some demo_id)"
  have cfg: "cfg_verification proving_config = demo_vconfig" by (simp add: proving_config_def)
  have run: "reachable_system demo_store_externs ?R (cfg_verification proving_config) ?s"
    unfolding cfg by (rule demo_sys_completed [OF noir_registry_ok, of _ _ _ "noir_backend (\<lambda>_. demo_noir_externs) (\<lambda>_. 1) demo_noir"])
      (simp_all add: demo_backend [simplified])
  have "rpc_get_verification_results demo_store_externs (st ?s) [as_bytes demo_id] =
      Inr [\<lparr>result_id = as_bytes demo_id, result_verdict = VERDICT_VALID\<rparr>]"
    by (simp add: rpc_get_verification_results_def get_verification_results_def demo_parse_ids completed_results_eq [OF demo_moka]
        demo_completed_records phase_of_def demo_record_def map_filter_simps wire_verdict_def)
  from chain_sees_proved_verdicts [OF proving_registry run this] show ?thesis
    by (simp add: proving_env_def proving_config_def demo_vconfig_def)
qed

end
